(* ===== verification/Prelude.thy ===== *)
theory Prelude
  imports Main "HOL-Library.Word" "HOL-Library.Sublist"
begin

text \<open>
  Shared vocabulary of the development.  A C string is the list of the bytes before its NUL
  terminator; a pointer into it is a suffix of that list, so \<open>p + n\<close> is \<open>drop n p\<close> and
  \<open>p - q\<close> is a difference of lengths.  Reading at the terminator gives the NUL byte.  The
  fact collections \<open>cstr\<close>, \<open>scan\<close> and \<open>inv\<close> gather the rewrite rules for byte access,
  the length facts of scanners and the preservation lemmas of invariants.
\<close>

named_theorems cstr \<open>byte access on C strings\<close>
named_theorems scan \<open>length facts of scanners\<close>
named_theorems inv \<open>preservation of component invariants\<close>

unbundle bit_operations_syntax

type_synonym cstring = string
type_synonym byte = "8 word"

abbreviation NUL :: char where "NUL \<equiv> CHR 0x00"
abbreviation TAB :: char where "TAB \<equiv> CHR 0x09"
abbreviation LF :: char where "LF \<equiv> CHR 0x0A"
abbreviation VT :: char where "VT \<equiv> CHR 0x0B"
abbreviation FF :: char where "FF \<equiv> CHR 0x0C"
abbreviation CR :: char where "CR \<equiv> CHR 0x0D"
abbreviation DQUOTE :: char where "DQUOTE \<equiv> CHR 0x22"
abbreviation QUOTE :: char where "QUOTE \<equiv> CHR 0x27"
abbreviation BACKSLASH :: char where "BACKSLASH \<equiv> CHR 0x5C"

section \<open>Bytes\<close>

definition ord :: "char \<Rightarrow> nat" where
  "ord c = of_char c"

definition chr :: "nat \<Rightarrow> char" where
  "chr n = char_of n"

lemma ord_less [simp]: "ord c < 256"
  by (simp add: ord_def)

lemma ord_Char [simp]:
  "ord (Char b0 b1 b2 b3 b4 b5 b6 b7) = of_char (Char b0 b1 b2 b3 b4 b5 b6 b7)"
  by (simp add: ord_def)

lemma ord_chr [simp]: "n < 256 \<Longrightarrow> ord (chr n) = n"
  by (simp add: ord_def chr_def)

lemma chr_ord [simp]: "chr (ord c) = c"
  by (simp add: ord_def chr_def)

lemma chr_numeral [simp]:
  "chr (numeral k) = Char (odd (numeral k :: nat)) (odd (numeral k div 2 :: nat))
     (odd (numeral k div 4 :: nat)) (odd (numeral k div 8 :: nat)) (odd (numeral k div 16 :: nat))
     (odd (numeral k div 32 :: nat)) (odd (numeral k div 64 :: nat)) (odd (numeral k div 128 :: nat))"
  by (simp add: chr_def char_of_def bit_iff_odd)

lemma ord_eq_iff [simp]: "ord c = ord d \<longleftrightarrow> c = d"
  by (simp add: ord_def)

lemma ord_inject: "ord c = ord d \<Longrightarrow> c = d"
  by simp

section \<open>Reading a C string\<close>

definition cbyte :: "cstring \<Rightarrow> nat \<Rightarrow> char" where
  "cbyte s i = (if i < length s then s ! i else NUL)"

lemma cbyte_Nil [simp, cstr]: "cbyte [] i = NUL"
  by (simp add: cbyte_def)

lemma cbyte_Cons_0 [simp, cstr]: "cbyte (c # s) 0 = c"
  by (simp add: cbyte_def)

lemma cbyte_Cons_Suc [simp, cstr]: "cbyte (c # s) (Suc i) = cbyte s i"
  by (simp add: cbyte_def)

lemma cbyte_Cons_numeral [simp, cstr]:
  "cbyte (c # s) (numeral n) = cbyte s (pred_numeral n)"
  by (simp add: cbyte_def numeral_eq_Suc)

lemma cbyte_Cons_1 [simp, cstr]: "cbyte (c # s) 1 = cbyte s 0"
  by (simp add: cbyte_def)

lemma cbyte_drop [cstr]: "cbyte (drop n s) i = cbyte s (n + i)"
  by (auto simp: cbyte_def)

lemma cbyte_beyond: "length s \<le> i \<Longrightarrow> cbyte s i = NUL"
  by (simp add: cbyte_def)

text \<open>A well-formed C string holds no NUL before its terminator.\<close>

definition cstr_ok :: "cstring \<Rightarrow> bool" where
  "cstr_ok s \<longleftrightarrow> NUL \<notin> set s"

lemma cstr_ok_Nil [simp]: "cstr_ok []"
  by (simp add: cstr_ok_def)

lemma cstr_ok_Cons [simp]: "cstr_ok (c # s) \<longleftrightarrow> c \<noteq> NUL \<and> cstr_ok s"
  by (auto simp: cstr_ok_def)

lemma cstr_ok_append [simp]: "cstr_ok (s @ t) \<longleftrightarrow> cstr_ok s \<and> cstr_ok t"
  by (auto simp: cstr_ok_def)

lemma cstr_ok_drop: "cstr_ok s \<Longrightarrow> cstr_ok (drop n s)"
  by (auto simp: cstr_ok_def dest: in_set_dropD)

lemma cstr_ok_take: "cstr_ok s \<Longrightarrow> cstr_ok (take n s)"
  by (auto simp: cstr_ok_def dest: in_set_takeD)

lemma cbyte_NUL_iff: "cstr_ok s \<Longrightarrow> cbyte s i = NUL \<longleftrightarrow> length s \<le> i"
  by (auto simp: cbyte_def cstr_ok_def in_set_conv_nth)

section \<open>Lists\<close>

lemma takeWhile_dropWhile_length: "length (dropWhile P xs) = length xs - length (takeWhile P xs)"
  by (metis length_append takeWhile_dropWhile_id add_diff_cancel_left')

lemma length_dropWhile_less [scan]: "P x \<Longrightarrow> length (dropWhile P (x # xs)) < length (x # xs)"
  by (simp add: length_dropWhile_le le_imp_less_Suc)

lemma dropWhile_same_length: "length (dropWhile P xs) = length xs \<Longrightarrow> dropWhile P xs = xs"
proof (cases xs)
  case (Cons x t)
  assume "length (dropWhile P xs) = length xs"
  with Cons length_dropWhile_le[of P t] show ?thesis by (cases "P x") auto
qed simp

lemma dropWhile_none: "\<forall>x \<in> set xs. \<not> P x \<Longrightarrow> dropWhile P xs = xs"
  by (cases xs) auto

lemma takeWhile_Nil_dropWhile: "takeWhile P xs = [] \<Longrightarrow> dropWhile P xs = xs"
  by (cases xs) (auto split: if_splits)

lemma dropWhile_eq_drop: "dropWhile P xs = drop (length (takeWhile P xs)) xs"
  by (metis append_eq_conv_conj takeWhile_dropWhile_id)

lemma suffix_drop_of_length: "suffix t s \<Longrightarrow> t = drop (length s - length t) s"
  by (auto simp: suffix_def)

lemma suffix_length_inj: "suffix a s \<Longrightarrow> suffix b s \<Longrightarrow> length a = length b \<Longrightarrow> a = b"
  by (metis suffix_drop_of_length)

lemma suffix_drop_trans: "suffix a s \<Longrightarrow> suffix (drop n a) s"
  by (meson suffix_drop suffix_order.trans)

lemma list_all_takeWhile: "list_all P (takeWhile P xs)"
  by (induction xs) auto

lemma takeWhile_free: "c \<notin> set s \<Longrightarrow> takeWhile (\<lambda>x. x \<noteq> c) s = s" "c \<notin> set s \<Longrightarrow> takeWhile (\<lambda>x. x \<noteq> c) (s @ c # t) = s"
    "c \<notin> set s \<Longrightarrow> dropWhile (\<lambda>x. x \<noteq> c) s = []" "c \<notin> set s \<Longrightarrow> dropWhile (\<lambda>x. x \<noteq> c) (s @ c # t) = c # t"
  by (induction s) auto

lemma list_all_nth_update:
  "n < length xs \<Longrightarrow> (xs[n := x]) ! m = (if m = n then x else xs ! m)"
  by (simp add: nth_list_update)

section \<open>Splitting at a byte\<close>

fun split_on :: "'a \<Rightarrow> 'a list \<Rightarrow> 'a list list" where
  "split_on c [] = [[]]"
| "split_on c (x # xs) =
     (if x = c then [] # split_on c xs
      else (case split_on c xs of [] \<Rightarrow> [[x]] | s # ss \<Rightarrow> (x # s) # ss))"

text \<open>Every segment of a list followed by the separator.\<close>

definition close_segs :: "'a \<Rightarrow> 'a list list \<Rightarrow> 'a list" where
  "close_segs c ss = concat (map (\<lambda>s. s @ [c]) ss)"

lemma close_segs_simps [simp]:
  "close_segs c [] = []" "close_segs c (s # ss) = s @ c # close_segs c ss"
  "close_segs c (ss @ ts) = close_segs c ss @ close_segs c ts"
  by (simp_all add: close_segs_def)

lemma split_on_plain: "c \<notin> set s \<Longrightarrow> split_on c s = [s]"
  by (induction s) auto

lemma split_on_append: "c \<notin> set s \<Longrightarrow> split_on c (s @ c # t) = s # split_on c t"
  by (induction s) auto

lemma split_on_close:
  "(\<forall>s \<in> set ss. c \<notin> set s) \<Longrightarrow> c \<notin> set f \<Longrightarrow> split_on c (close_segs c ss @ f) = ss @ [f]"
  by (induction ss) (auto simp: split_on_plain split_on_append)

lemma split_on_eq: "\<exists>ss f. xs = close_segs c ss @ f \<and> (\<forall>s \<in> set ss. c \<notin> set s) \<and> c \<notin> set f \<and> split_on c xs = ss @ [f]"
proof (induction xs)
  case (Cons x xs)
  then obtain ss f where IH: "xs = close_segs c ss @ f" "\<forall>s \<in> set ss. c \<notin> set s" "c \<notin> set f" "split_on c xs = ss @ [f]"
    by blast
  show ?case
  proof (cases "x = c")
    case True
    with IH show ?thesis by (intro exI[of _ "[] # ss"] exI[of _ f]) simp
  next
    case ne: False
    show ?thesis
    proof (cases ss)
      case Nil
      with IH ne show ?thesis by (intro exI[of _ "[]"] exI[of _ "x # f"]) simp
    next
      case (Cons s ts)
      with IH ne show ?thesis by (intro exI[of _ "(x # s) # ts"] exI[of _ f]) simp
    qed
  qed
next
  case Nil
  show ?case by (intro exI[of _ "[]"] exI[of _ "[]"]) simp
qed

end
