(* ===== verification/CStrings.thy ===== *)
theory CStrings
  imports Prelude
begin

text \<open>
  The character classes and case-insensitive comparisons every other component uses:
  \<open>hichar\<close> and \<open>streql\<close> of \<open>htsbase.h\<close>, \<open>strfield\<close>, \<open>strfield2\<close> and the \<open>is_space\<close>
  family of \<open>htslib.h\<close>, \<open>hts_rtrimlen\<close> of \<open>htssafe.h\<close>, \<open>hts_ehex\<close> of \<open>htsencoding.h\<close>
  and \<open>hts_lowcase\<close> of \<open>htslib.c\<close>.  The lemmas show that \<open>strfield\<close> decides a prefix up
  to ASCII case and that \<open>strfield2\<close> decides equality up to case of nonempty strings.
\<close>

section \<open>Case folding\<close>

definition hichar :: "char \<Rightarrow> char" where
  "hichar a = (if ord CHR ''a'' \<le> ord a \<and> ord a \<le> ord CHR ''z''
     then chr (ord a - (ord CHR ''a'' - ord CHR ''A'')) else a)"

definition streql :: "char \<Rightarrow> char \<Rightarrow> bool" where
  "streql a b \<longleftrightarrow> hichar a = hichar b"

fun strfield_loop :: "nat \<Rightarrow> cstring \<Rightarrow> cstring \<Rightarrow> nat" where
  "strfield_loop r (f # fs) (s # ss) = (if streql f s then strfield_loop (Suc r) fs ss else 0)"
| "strfield_loop r fs [] = r"
| "strfield_loop r [] (s # ss) = 0"

definition strfield :: "cstring \<Rightarrow> cstring \<Rightarrow> nat" where
  "strfield f s = strfield_loop 0 f s"

definition strfield2 :: "cstring \<Rightarrow> cstring \<Rightarrow> nat" where
  "strfield2 f s = (if length f \<noteq> length s then 0 else strfield f s)"

definition lowchar :: "char \<Rightarrow> char" where
  "lowchar c = (if ord CHR ''A'' \<le> ord c \<and> ord c \<le> ord CHR ''Z''
     then chr (ord c + (ord CHR ''a'' - ord CHR ''A'')) else c)"

definition hts_lowcase :: "cstring \<Rightarrow> cstring" where
  "hts_lowcase s = map lowchar s"

section \<open>Character classes\<close>

definition is_space :: "char \<Rightarrow> bool" where
  "is_space c \<longleftrightarrow> c = CHR '' '' \<or> c = DQUOTE \<or> c = LF \<or> c = CR \<or> c = TAB \<or> c = FF \<or> c = VT
     \<or> c = QUOTE"

definition is_realspace :: "char \<Rightarrow> bool" where
  "is_realspace c \<longleftrightarrow> c = CHR '' '' \<or> c = LF \<or> c = CR \<or> c = TAB \<or> c = FF \<or> c = VT"

definition is_taborspace :: "char \<Rightarrow> bool" where
  "is_taborspace c \<longleftrightarrow> c = CHR '' '' \<or> c = TAB"

definition is_retorsep :: "char \<Rightarrow> bool" where
  "is_retorsep c \<longleftrightarrow> c = LF \<or> c = CR \<or> c = TAB"

definition HTS_REALSPACES :: cstring where
  "HTS_REALSPACES = [CHR '' '', LF, CR, TAB, FF, VT]"

text \<open>\<open>isdigit\<close> of the C library in the C locale.\<close>

definition isdigit :: "char \<Rightarrow> bool" where
  "isdigit c \<longleftrightarrow> ord CHR ''0'' \<le> ord c \<and> ord c \<le> ord CHR ''9''"

definition digit_val :: "char \<Rightarrow> nat" where
  "digit_val c = ord c - ord CHR ''0''"

definition hts_rtrimlen :: "cstring \<Rightarrow> cstring \<Rightarrow> nat" where
  "hts_rtrimlen s cs = length (dropWhile (\<lambda>c. c \<in> set cs) (rev s))"

definition hts_rtrim :: "cstring \<Rightarrow> cstring \<Rightarrow> cstring" where
  "hts_rtrim s cs = take (hts_rtrimlen s cs) s"

section \<open>Hexadecimal digits\<close>

definition hts_ehexh :: "char \<Rightarrow> int" where
  "hts_ehexh c =
     (if ord CHR ''0'' \<le> ord c \<and> ord c \<le> ord CHR ''9'' then int (ord c) - int (ord CHR ''0'')
      else if ord CHR ''a'' \<le> ord c \<and> ord c \<le> ord CHR ''f''
      then int (ord c) - int (ord CHR ''a'') + 10
      else if ord CHR ''A'' \<le> ord c \<and> ord c \<le> ord CHR ''F''
      then int (ord c) - int (ord CHR ''A'') + 10
      else -1)"

definition hts_ehex :: "cstring \<Rightarrow> int" where
  "hts_ehex s =
     (let c1 = hts_ehexh (cbyte s 0) in
      if c1 \<ge> 0 then
        (let c2 = hts_ehexh (cbyte s 1) in if c2 \<ge> 0 then 16 * c1 + c2 else -1)
      else -1)"

section \<open>What the comparisons decide\<close>

lemma streql_refl [simp]: "streql c c"
  by (simp add: streql_def)

lemma streql_sym: "streql a b \<Longrightarrow> streql b a"
  by (simp add: streql_def)

lemma streql_trans: "streql a b \<Longrightarrow> streql b c \<Longrightarrow> streql a c"
  by (simp add: streql_def)

lemma hichar_NUL_iff: "hichar c = NUL \<longleftrightarrow> c = NUL"
proof
  assume h: "hichar c = NUL"
  show "c = NUL"
  proof (cases "97 \<le> ord c \<and> ord c \<le> 122")
    case True
    then have "ord c - 32 < 256" by linarith
    with True have "ord (hichar c) = ord c - 32"
      by (simp add: hichar_def)
    with h True show ?thesis by simp
  next
    case False
    with h show ?thesis by (simp add: hichar_def split: if_splits)
  qed
qed (simp add: hichar_def ord_def)

lemma hichar_id: "ord c < 97 \<or> 122 < ord c \<Longrightarrow> hichar c = c"
  by (auto simp: hichar_def ord_def)

lemma strfield_loop_eq:
  "strfield_loop r f s =
     (if length s \<le> length f \<and> list_all2 streql (take (length s) f) s then r + length s else 0)"
  by (induction r f s rule: strfield_loop.induct) auto

lemma strfield_eq:
  "strfield f s =
     (if length s \<le> length f \<and> list_all2 streql (take (length s) f) s then length s else 0)"
  by (simp add: strfield_def strfield_loop_eq)

lemma strfield_pos_iff:
  "strfield f s \<noteq> 0 \<longleftrightarrow> s \<noteq> [] \<and> length s \<le> length f \<and> list_all2 streql (take (length s) f) s"
  by (auto simp: strfield_eq)

lemma strfield_le [scan]: "strfield f s \<le> length f"
  by (simp add: strfield_eq)

lemma strfield2_eq:
  "strfield2 f s = (if list_all2 streql f s then length s else 0)"
  by (auto simp: strfield2_def strfield_eq dest: list_all2_lengthD)

lemma strfield2_refl [simp]: "strfield2 s s = length s"
  by (simp add: strfield2_eq list_all2_refl)

lemma hts_rtrim_eq: "hts_rtrim s cs = rev (dropWhile (\<lambda>c. c \<in> set cs) (rev s))"
proof -
  have "rev s = takeWhile (\<lambda>c. c \<in> set cs) (rev s) @ dropWhile (\<lambda>c. c \<in> set cs) (rev s)"
    by simp
  then have "s = rev (dropWhile (\<lambda>c. c \<in> set cs) (rev s)) @ rev (takeWhile (\<lambda>c. c \<in> set cs) (rev s))"
    by (metis rev_append rev_rev_ident)
  then show ?thesis
    by (metis append_eq_conv_conj hts_rtrim_def hts_rtrimlen_def length_rev)
qed

lemma isdigit_bounds: "isdigit c \<Longrightarrow> digit_val c \<le> 9"
  unfolding isdigit_def digit_val_def by simp linarith

lemma hts_ehexh_range: "-1 \<le> hts_ehexh c \<and> hts_ehexh c < 16"
  by (simp add: hts_ehexh_def ord_def)

lemma hts_ehex_range: "-1 \<le> hts_ehex s \<and> hts_ehex s < 256"
  using hts_ehexh_range[of "cbyte s 0"] hts_ehexh_range[of "cbyte s 1"]
  by (simp add: hts_ehex_def Let_def)

end
