(* ===== verification/Filters.thy ===== *)
theory Filters
  imports CStrings
begin

text \<open>
  The filter engine of \<open>htsfilters.c\<close>: the wildcard matcher \<open>strjoker\<close> with its failure
  memo, its work budget and its depth cap, the scan \<open>strjokerfind\<close>, and the verdict of a
  filter list (\<open>fa_strjoker\<close>, \<open>fa_strjoker_dual\<close>).  A subject or pattern pointer is a suffix
  of its string.  The recursion level is counted down: \<open>strjoker_rec n\<close> is the C call at
  depth \<open>STRJOKER_MAXDEPTH - n\<close>.  What the pointers \<open>size\<close> and \<open>size_flag\<close> refer to is the
  state \<open>psize\<close>, \<open>pflag\<close> (\<open>None\<close> for a NULL pointer).  Pattern and subject are not NULL.
\<close>

section \<open>The failure memo\<close>

definition STRJOKER_MAXLEN :: nat where "STRJOKER_MAXLEN = 1024 * 2"
definition STRJOKER_MAXDEPTH :: nat where "STRJOKER_MAXDEPTH = 256"
definition STRJOKER_MAXSTEPS :: nat where "STRJOKER_MAXSTEPS = 24000000"
definition STRJOKER_CALLCOST :: nat where "STRJOKER_CALLCOST = 16"

record strjoker_memo =
  chaine0 :: cstring
  joker0 :: cstring
  len0 :: nat
  stride :: nat
  failed :: "byte list option"
  nsteps :: "nat option"
  maxdepth :: nat
  cut :: bool

record joker_run = strjoker_memo +
  psize :: "int option"
  pflag :: "int option"

definition memo_bit :: "joker_run \<Rightarrow> cstring \<Rightarrow> cstring \<Rightarrow> nat" where
  "memo_bit m chaine joker =
     (length (chaine0 m) - length chaine) * stride m + (length (joker0 m) - length joker)"

definition memo_test :: "byte list \<Rightarrow> nat \<Rightarrow> bool" where
  "memo_test bits b \<longleftrightarrow> (bits ! (b div 8)) AND push_bit (b mod 8) 1 \<noteq> 0"

definition memo_mark :: "byte list \<Rightarrow> nat \<Rightarrow> byte list" where
  "memo_mark bits b = bits[b div 8 := (bits ! (b div 8)) OR push_bit (b mod 8) 1]"

definition memo_hit :: "joker_run \<Rightarrow> cstring \<Rightarrow> cstring \<Rightarrow> bool" where
  "memo_hit m chaine joker \<longleftrightarrow>
     (case failed m of None \<Rightarrow> False | Some bits \<Rightarrow> memo_test bits (memo_bit m chaine joker))"

definition memo_fail :: "joker_run \<Rightarrow> cstring \<Rightarrow> cstring \<Rightarrow> joker_run" where
  "memo_fail m chaine joker =
     m\<lparr>failed := map_option (\<lambda>bits. memo_mark bits (memo_bit m chaine joker)) (failed m)\<rparr>"

definition strjoker_charge :: "joker_run \<Rightarrow> nat \<Rightarrow> joker_run" where
  "strjoker_charge m n = m\<lparr>nsteps := map_option (\<lambda>k. k + n) (nsteps m)\<rparr>"

definition joker_enter :: "nat \<Rightarrow> joker_run \<Rightarrow> joker_run" where
  "joker_enter depth m =
     strjoker_charge (if depth > maxdepth m then m\<lparr>maxdepth := depth\<rparr> else m) STRJOKER_CALLCOST"

definition joker_spent :: "joker_run \<Rightarrow> bool" where
  "joker_spent m \<longleftrightarrow> (case nsteps m of None \<Rightarrow> False | Some k \<Rightarrow> k > STRJOKER_MAXSTEPS)"

section \<open>Decoding one star of the pattern\<close>

type_synonym passmap = "char \<Rightarrow> bool"

datatype joker_plan = Reject | Accept "int option" | Search bool passmap cstring

record class_acc =
  cpass :: passmap
  cbounds :: nat
  climit :: int
  cplayed :: bool
  ccharge :: nat

fun class_digits :: "int \<Rightarrow> nat \<Rightarrow> cstring \<Rightarrow> int \<times> nat \<times> cstring" where
  "class_digits lsize ndigits [] = (lsize, ndigits, [])"
| "class_digits lsize ndigits (c # cs) =
     (if isdigit c then
        class_digits (if lsize < 1000000000 then lsize * 10 + int (digit_val c) else lsize)
          (Suc ndigits) cs
      else (lsize, ndigits, c # cs))"

definition class_item :: "int option \<Rightarrow> class_acc \<Rightarrow> cstring \<Rightarrow> class_acc \<times> cstring option" where
  "class_item sz acc js =
     (let c = cbyte js 0; cs = drop 1 js in
      if c = BACKSLASH \<and> cbyte js 1 \<noteq> NUL then
        (acc\<lparr>cpass := (cpass acc)(cbyte js 1 := True)\<rparr>, Some (drop 2 js))
      else if c = CHR ''<'' \<or> c = CHR ''>'' then
        (case class_digits 0 0 cs of (lsize, ndigits, rest) \<Rightarrow>
           if ndigits \<noteq> 0 then
             (case sz of
                None \<Rightarrow> (acc, None)
              | Some s \<Rightarrow>
                  if s < 0 then (acc, None)
                  else if (if c = CHR ''<'' then s \<ge> lsize else s \<le> lsize)
                  then (acc\<lparr>cplayed := True\<rparr>, None)
                  else (acc\<lparr>cplayed := True, cbounds := Suc (cbounds acc), climit := lsize\<rparr>, Some rest))
           else (acc, Some rest))
      else if cbyte js 1 = CHR ''-'' \<and> cbyte js 2 \<noteq> NUL then
        (if ord (cbyte js 2) > ord c
         then acc\<lparr>cpass := (\<lambda>x. cpass acc x \<or> (ord c \<le> ord x \<and> ord x \<le> ord (cbyte js 2))),
                  ccharge := ccharge acc + (ord (cbyte js 2) + 1 - ord c)\<rparr>
         else acc, Some (drop 3 js))
      else (acc\<lparr>cpass := (cpass acc)(c := True)\<rparr>, Some cs))"

definition class_sep :: "cstring \<Rightarrow> cstring" where
  "class_sep js = (if cbyte js 0 = CHR '','' \<or> cbyte js 0 = CHR '';'' then drop 1 js else js)"

lemma class_digits_length: "class_digits v n js = (v', n', rest) \<Longrightarrow> length rest \<le> length js"
  by (induction v n js rule: class_digits.induct) (auto split: if_splits)

lemma class_item_length [scan]:
  "class_item sz acc js = (acc', Some rest) \<Longrightarrow> js \<noteq> [] \<Longrightarrow> length rest < length js"
  by (cases js)
    (auto simp: class_item_def Let_def dest!: class_digits_length split: if_splits prod.splits option.splits)

lemma class_sep_length [scan]: "length (class_sep js) \<le> length js"
  by (simp add: class_sep_def)

function class_loop :: "int option \<Rightarrow> char \<Rightarrow> class_acc \<Rightarrow> cstring \<Rightarrow> class_acc \<times> cstring option" where
  "class_loop sz right acc js =
     (if js = [] \<or> cbyte js 0 = right then (acc, Some js)
      else (case class_item sz acc js of
              (acc', None) \<Rightarrow> (acc', None)
            | (acc', Some rest) \<Rightarrow> class_loop sz right acc' (class_sep rest)))"
  by pat_completeness auto
termination
  by (relation "measure (\<lambda>(sz, right, acc, js). length js)")
    (auto dest!: class_item_length[OF sym] intro: le_less_trans[OF class_sep_length])

declare class_loop.simps [simp del]

definition joker_class_end :: "cstring \<Rightarrow> char \<Rightarrow> cstring" where
  "joker_class_end joker right = dropWhile (\<lambda>c. c \<noteq> right) (drop 2 joker)"

definition after_class :: "cstring \<Rightarrow> cstring" where
  "after_class js = drop 1 js"

definition named_class :: "passmap \<Rightarrow> bool \<Rightarrow> cstring \<Rightarrow> char \<Rightarrow> joker_plan \<times> bool \<times> nat" where
  "named_class pass unique joker right =
     (let e = joker_class_end joker right in
      (Search unique pass (after_class e), False, 256 + (256 + (length joker - length e))))"

definition joker_plan :: "int option \<Rightarrow> cstring \<Rightarrow> cstring \<Rightarrow> joker_plan \<times> bool \<times> nat" where
  "joker_plan sz chaine joker =
     (let unique = (cbyte joker 1 = CHR ''('');
          left = (if unique then CHR ''('' else CHR ''['');
          right = (if unique then CHR '')'' else CHR '']'');
          body = drop 2 joker
      in if cbyte joker 1 = left \<and> cbyte joker 2 \<noteq> left then
           (if strfield body ''file'' \<noteq> 0 \<or> strfield body ''name'' \<noteq> 0 then
              named_class (\<lambda>c. c \<noteq> CHR ''?'' \<and> c \<noteq> CHR ''/'') unique joker right
            else if strfield body ''path'' \<noteq> 0 then
              named_class (\<lambda>c. c \<noteq> CHR ''?'') unique joker right
            else if strfield body ''param'' \<noteq> 0 then
              named_class (\<lambda>c. cbyte chaine 0 = CHR ''?'') unique joker right
            else if cbyte joker 2 = right then
              (if chaine \<noteq> [] then Reject else Accept sz, False, 256)
            else
              (case class_loop sz right
                      \<lparr>cpass = (\<lambda>_. False), cbounds = 0, climit = 0, cplayed = False,
                       ccharge = 256 + length joker\<rparr> body of
                 (acc, None) \<Rightarrow> (Reject, cplayed acc, ccharge acc)
               | (acc, Some rest) \<Rightarrow>
                   (if cbounds acc \<noteq> 0 \<and> sz \<noteq> None then Accept (Some (climit acc))
                    else Search unique (cpass acc) (after_class rest),
                    cplayed acc, ccharge acc)))
         else (Search unique (\<lambda>_. True) (drop 1 joker), False, 256))"

fun word_compare :: "nat \<Rightarrow> cstring \<Rightarrow> cstring \<Rightarrow> bool \<times> nat" where
  "word_compare jmp chaine [] = (True, jmp)"
| "word_compare jmp chaine (j # js) =
     (if j = CHR ''*'' then (True, jmp)
      else if streql (cbyte chaine 0) j then word_compare (Suc jmp) (drop 1 chaine) js
      else (False, Suc jmp))"

section \<open>The matcher\<close>

type_synonym joker_call = "joker_run \<Rightarrow> cstring \<Rightarrow> cstring \<Rightarrow> cstring option \<times> joker_run"

fun star_loop :: "joker_call \<Rightarrow> passmap \<Rightarrow> cstring \<Rightarrow> nat \<Rightarrow> joker_run \<Rightarrow> cstring \<Rightarrow>
    cstring option \<times> joker_run" where
  "star_loop rec pass joker 0 m chaine = rec m chaine joker"
| "star_loop rec pass joker (Suc k) m chaine =
     (if pass (cbyte chaine 0) then
        (case rec m (drop 1 chaine) joker of
           (Some adr, m') \<Rightarrow> (Some adr, m')
         | (None, m') \<Rightarrow> star_loop rec pass joker k m' (drop 1 chaine))
      else (None, m))"

definition star_max :: "bool \<Rightarrow> joker_run \<Rightarrow> cstring \<Rightarrow> nat" where
  "star_max unique m chaine =
     (if \<not> unique then len0 m - (length (chaine0 m) - length chaine)
      else if chaine \<noteq> [] then 1 else 0)"

definition play_flag :: "bool \<Rightarrow> int option \<Rightarrow> int option" where
  "play_flag played flag = (if played then map_option (\<lambda>_. 1) flag else flag)"

definition strjoker_impl :: "joker_call \<Rightarrow> joker_call" where
  "strjoker_impl rec m chaine joker =
     (if joker = [] then
        (if chaine = [] then (Some chaine, m)
         else if cbyte chaine 0 = CHR ''?'' then (Some chaine, m)
         else (None, m))
      else if joker = ''*'' then (Some chaine, m)
      else if cbyte joker 0 = CHR ''*'' then
        (case joker_plan (psize m) chaine joker of (plan, played, n) \<Rightarrow>
           (let m = (strjoker_charge m n)\<lparr>pflag := play_flag played (pflag m)\<rparr> in
            case plan of
              Reject \<Rightarrow> (None, m)
            | Accept sz \<Rightarrow> (Some chaine, m\<lparr>psize := sz\<rparr>)
            | Search unique pass rest \<Rightarrow>
                (case (if \<not> unique then rec m chaine rest else (None, m)) of
                   (Some adr, m) \<Rightarrow> (Some adr, m)
                 | (None, m) \<Rightarrow> star_loop rec pass rest (star_max unique m chaine) m chaine)))
      else if chaine \<noteq> [] then
        (case word_compare 0 chaine joker of (ok, jmp) \<Rightarrow>
           (let m = strjoker_charge m jmp in
            if ok then
              (case rec m (drop jmp chaine) (drop jmp joker) of
                 (Some _, m) \<Rightarrow> (Some chaine, m)
               | (None, m) \<Rightarrow> (None, m))
            else (None, m)))
      else (None, m))"

fun strjoker_rec :: "nat \<Rightarrow> joker_call" where
  "strjoker_rec 0 m chaine joker =
     (let m = joker_enter STRJOKER_MAXDEPTH m in
      if joker_spent m then (None, m) else (None, m\<lparr>cut := True\<rparr>))"
| "strjoker_rec (Suc n) m chaine joker =
     (let m = joker_enter (STRJOKER_MAXDEPTH - Suc n) m in
      if joker_spent m then (None, m)
      else if memo_hit m chaine joker then (None, m)
      else (case strjoker_impl (strjoker_rec n) m chaine joker of
              (adr, m') \<Rightarrow>
                (adr, if adr = None \<and> \<not> cut m' then memo_fail m' chaine joker else m')))"

definition memo_start :: "cstring \<Rightarrow> cstring \<Rightarrow> int option \<Rightarrow> int option \<Rightarrow> nat option \<Rightarrow> joker_run" where
  "memo_start chaine joker sz flag steps =
     \<lparr>chaine0 = chaine, joker0 = joker, len0 = length chaine, stride = 0, failed = None,
      nsteps = steps, maxdepth = 0, cut = False, psize = sz, pflag = flag\<rparr>"

text \<open>
  \<open>strjoker_bounded\<close> returns the match and the final state, whose \<open>nsteps\<close>, \<open>psize\<close>, \<open>pflag\<close>
  and \<open>maxdepth\<close> are what the C function leaves behind its pointers.  \<open>calloc_ok\<close> tells
  whether a bitmap too large for the stack could be allocated.
\<close>

definition SIZE_MAX :: nat where "SIZE_MAX = 2 ^ 64 - 1"

definition memo_alloc :: "bool \<Rightarrow> joker_run \<Rightarrow> joker_run" where
  "memo_alloc calloc_ok m =
     (let l1 = length (chaine0 m); l2 = length (joker0 m); m = m\<lparr>stride := l2 + 1\<rparr> in
      if l1 + 1 \<le> (SIZE_MAX - 7) div stride m then
        (let bytes = ((l1 + 1) * stride m + 7) div 8 in
         if bytes \<le> 2048 then m\<lparr>failed := Some (replicate bytes 0)\<rparr>
         else m\<lparr>failed := (if calloc_ok then Some (replicate bytes 0) else None)\<rparr>)
      else m)"

definition strjoker_bounded ::
    "bool \<Rightarrow> cstring \<Rightarrow> cstring \<Rightarrow> int option \<Rightarrow> int option \<Rightarrow> nat \<Rightarrow> cstring option \<times> joker_run" where
  "strjoker_bounded calloc_ok chaine joker sz flag steps =
     (let m = memo_start chaine joker sz flag (Some steps) in
      if length chaine > STRJOKER_MAXLEN \<or> length joker > STRJOKER_MAXLEN then (None, m)
      else strjoker_rec STRJOKER_MAXDEPTH (memo_alloc calloc_ok m) chaine joker)"

definition strjoker :: "bool \<Rightarrow> cstring \<Rightarrow> cstring \<Rightarrow> int option \<Rightarrow> int option \<Rightarrow>
    cstring option \<times> int option \<times> int option" where
  "strjoker calloc_ok chaine joker sz flag =
     (case strjoker_bounded calloc_ok chaine joker sz flag 0 of
        (adr, m) \<Rightarrow> (adr, psize m, pflag m))"

definition strjoker_nomemo :: "cstring \<Rightarrow> cstring \<Rightarrow> int option \<Rightarrow> int option \<Rightarrow>
    cstring option \<times> int option \<times> int option" where
  "strjoker_nomemo chaine joker sz flag =
     (case strjoker_rec STRJOKER_MAXDEPTH (memo_start chaine joker sz flag None) chaine joker of
        (adr, m) \<Rightarrow> (adr, psize m, pflag m))"

definition strjoker_bounds :: "bool \<Rightarrow> cstring \<Rightarrow> cstring \<Rightarrow> cstring option \<times> nat \<times> nat \<times> nat \<times> nat" where
  "strjoker_bounds calloc_ok chaine joker =
     (case strjoker_bounded calloc_ok chaine joker None None 0 of
        (r, m) \<Rightarrow> (r, (case nsteps m of Some k \<Rightarrow> k | None \<Rightarrow> 0), STRJOKER_MAXSTEPS,
                    maxdepth m, STRJOKER_MAXDEPTH))"

fun strjokerfind_loop :: "bool \<Rightarrow> cstring \<Rightarrow> cstring \<Rightarrow> nat \<Rightarrow> cstring option" where
  "strjokerfind_loop calloc_ok joker [] steps = None"
| "strjokerfind_loop calloc_ok joker (c # cs) steps =
     (case strjoker_bounded calloc_ok (c # cs) joker None None steps of
        (Some adr, m) \<Rightarrow> Some adr
      | (None, m) \<Rightarrow>
          (let steps' = (case nsteps m of Some k \<Rightarrow> k | None \<Rightarrow> steps) in
           if steps' > STRJOKER_MAXSTEPS then None
           else strjokerfind_loop calloc_ok joker cs steps'))"

definition strjokerfind :: "bool \<Rightarrow> cstring \<Rightarrow> cstring \<Rightarrow> cstring option" where
  "strjokerfind calloc_ok chaine joker =
     (if length chaine > STRJOKER_MAXLEN then None else strjokerfind_loop calloc_ok joker chaine 0)"

section \<open>The verdict of a filter list\<close>

text \<open>
  A filter is \<open>+pattern\<close> or \<open>-pattern\<close>, with \<open>mime:\<close> before the pattern of a MIME filter.
  The pointer arguments \<open>size\<close>, \<open>size_flag\<close> and \<open>depth\<close> are options, returned updated.
\<close>

record fa_state =
  fa_verdict :: int
  fa_sizelimit :: int
  fa_flag :: "int option"
  fa_depth :: "int option"

definition filter_body :: "int \<Rightarrow> cstring \<Rightarrow> cstring option" where
  "filter_body ty f =
     (let body = drop 1 f in
      if take 5 body = ''mime:'' then (if ty = 0 then None else Some (drop 5 body))
      else (if ty \<noteq> 0 then None else Some body))"

definition fa_step :: "bool \<Rightarrow> int \<Rightarrow> cstring \<Rightarrow> int option \<Rightarrow> nat \<Rightarrow> cstring \<Rightarrow> fa_state \<Rightarrow> fa_state" where
  "fa_step calloc_ok ty nom sz i f st =
     (case filter_body ty f of
        None \<Rightarrow> st
      | Some pattern \<Rightarrow>
          (case strjoker calloc_ok nom pattern sz (fa_flag st) of
             (None, sz', flag) \<Rightarrow> st\<lparr>fa_flag := flag\<rparr>
           | (Some _, sz', flag) \<Rightarrow>
               st\<lparr>fa_flag := flag,
                  fa_sizelimit :=
                    (case (sz, sz') of
                       (Some s, Some s') \<Rightarrow> if s' \<noteq> s then s' else fa_sizelimit st
                     | _ \<Rightarrow> fa_sizelimit st),
                  fa_verdict := (if cbyte f 0 = CHR ''+'' then 1 else -1),
                  fa_depth := map_option (\<lambda>_. int i) (fa_depth st)\<rparr>))"

fun fa_loop :: "bool \<Rightarrow> int \<Rightarrow> cstring \<Rightarrow> int option \<Rightarrow> nat \<Rightarrow> cstring list \<Rightarrow> fa_state \<Rightarrow> fa_state" where
  "fa_loop calloc_ok ty nom sz i [] st = st"
| "fa_loop calloc_ok ty nom sz i (f # fs) st =
     fa_loop calloc_ok ty nom sz (Suc i) fs (fa_step calloc_ok ty nom sz i f st)"

definition fa_strjoker :: "bool \<Rightarrow> int \<Rightarrow> cstring list \<Rightarrow> cstring \<Rightarrow> int option \<Rightarrow> int option \<Rightarrow> int option \<Rightarrow>
    int \<times> int option \<times> int option \<times> int option" where
  "fa_strjoker calloc_ok ty filters nom sz flag depth =
     (let st = fa_loop calloc_ok ty nom sz 0 filters
                 \<lparr>fa_verdict = 0, fa_sizelimit = (case sz of None \<Rightarrow> 0 | Some s \<Rightarrow> s),
                  fa_flag = flag, fa_depth = depth\<rparr>
      in (fa_verdict st, map_option (\<lambda>_. fa_sizelimit st) sz, fa_flag st, fa_depth st))"

definition fa_strjoker_dual :: "bool \<Rightarrow> int \<Rightarrow> cstring list \<Rightarrow> cstring \<Rightarrow> cstring \<Rightarrow> int option \<Rightarrow>
    int option \<Rightarrow> int option \<Rightarrow> int \<times> int option \<times> int option \<times> int option" where
  "fa_strjoker_dual calloc_ok ty filters nom1 nom2 sz flag depth =
     (case fa_strjoker calloc_ok ty filters nom1 sz (map_option (\<lambda>_. 0) flag) (Some 0) of
        (jok1, sz1, flag1, depth1) \<Rightarrow>
      case fa_strjoker calloc_ok ty filters nom2 sz (map_option (\<lambda>_. 0) flag) (Some 0) of
        (jok2, sz2, flag2, depth2) \<Rightarrow>
      let use1 = (jok2 = 0 \<or> (jok1 \<noteq> 0 \<and> the depth1 \<ge> the depth2)) in
        (if use1 then jok1 else jok2,
         if use1 then sz1 else sz2,
         if use1 then flag1 else flag2,
         map_option (\<lambda>_. if use1 then the depth1 else the depth2) depth))"

end
