(* ===== verification/FilterMemo.thy ===== *)
theory FilterMemo
  imports Filters
begin

text \<open>
  The failure memo as an interface: a store of failed pairs with a test and a mark, whose laws
  are stated as the locale \<open>failure_memo\<close> and discharged for the bitmap of \<open>strjoker_memo\<close>.
  The second half gives the reference semantics of a pattern: \<open>joker_match\<close> explores the same
  decoded stars (\<open>joker_plan\<close>) with neither memo, nor budget, nor depth cap.
\<close>

section \<open>The memo interface\<close>

locale failure_memo =
  fixes tst :: "'m \<Rightarrow> nat \<Rightarrow> bool"
    and mrk :: "'m \<Rightarrow> nat \<Rightarrow> 'm"
    and room :: "'m \<Rightarrow> nat"
  assumes room_mrk: "room (mrk m b) = room m"
    and tst_mrk: "b < room m \<Longrightarrow> b' < room m \<Longrightarrow> tst (mrk m b) b' \<longleftrightarrow> b' = b \<or> tst m b'"
begin

lemma mark_keeps: "b < room m \<Longrightarrow> b' < room m \<Longrightarrow> tst m b' \<Longrightarrow> tst (mrk m b) b'"
  by (simp add: tst_mrk)

lemma sound_mrk:
  assumes "\<forall>x. idx x < room m \<and> tst m (idx x) \<longrightarrow> P x"
    and "idx y < room m" and "\<And>x. idx x = idx y \<Longrightarrow> P x"
  shows "\<forall>x. idx x < room (mrk m (idx y)) \<and> tst (mrk m (idx y)) (idx x) \<longrightarrow> P x"
  using assms by (metis room_mrk tst_mrk)

end

lemma memo_test_bit: "memo_test bits b \<longleftrightarrow> bit (bits ! (b div 8)) (b mod 8)"
  by (simp add: memo_test_def push_bit_eq_mult and_exp_eq_0_iff_not_bit)

lemma memo_mark_bit:
  "b div 8 < length bits \<Longrightarrow> memo_test (memo_mark bits b) b' \<longleftrightarrow> b' = b \<or> memo_test bits b'"
proof (cases "b' div 8 = b div 8")
  case True
  assume b: "b div 8 < length bits"
  have "b' mod 8 = b mod 8 \<longleftrightarrow> b' = b"
    using True by (metis div_mult_mod_eq)
  moreover have "bit (push_bit (b mod 8) (1 :: byte)) (b' mod 8) \<longleftrightarrow> b' mod 8 = b mod 8"
    by (auto simp: push_bit_eq_mult bit_exp_iff)
  ultimately show ?thesis
    using True b by (simp add: memo_test_bit memo_mark_def bit_or_iff) blast
next
  case False
  then have "b' \<noteq> b" by auto
  with False show ?thesis by (simp add: memo_test_bit memo_mark_def)
qed

interpretation bitmap: failure_memo memo_test memo_mark "\<lambda>bits. 8 * length bits"
  by unfold_locales (auto simp: memo_mark_bit memo_mark_def[symmetric], simp add: memo_mark_def)

section \<open>Where a star continues\<close>

lemma class_digits_suffix: "class_digits v n js = (v', n', rest) \<Longrightarrow> suffix rest js"
  by (induction v n js rule: class_digits.induct) (auto split: if_splits simp: suffix_Cons)

lemma class_item_suffix:
  "class_item sz acc js = (acc', Some rest) \<Longrightarrow> suffix rest js"
  by (auto simp: class_item_def Let_def suffix_drop split: if_splits prod.splits option.splits
      dest!: class_digits_suffix intro: suffix_order.trans[OF _ suffix_drop])

lemma class_sep_suffix: "suffix (class_sep js) js"
  by (simp add: class_sep_def suffix_drop)

lemma class_loop_suffix: "class_loop sz right acc js = (acc', Some rest) \<Longrightarrow> suffix rest js"
proof (induction sz right acc js rule: class_loop.induct)
  case (1 sz right acc js)
  show ?case
  proof (cases "js = [] \<or> cbyte js 0 = right")
    case True
    with "1.prems" show ?thesis by (simp add: class_loop.simps[of sz right acc js])
  next
    case False
    with "1.prems" obtain acc1 rest1 where item: "class_item sz acc js = (acc1, Some rest1)"
      and loop: "class_loop sz right acc1 (class_sep rest1) = (acc', Some rest)"
      by (auto simp: class_loop.simps[of sz right acc js] split: prod.splits option.splits)
    have "suffix rest (class_sep rest1)"
      using "1.IH"[OF False item[symmetric] refl loop] .
    moreover have "suffix (class_sep rest1) rest1" by (rule class_sep_suffix)
    moreover have "suffix rest1 js" using item by (rule class_item_suffix)
    ultimately show ?thesis by (meson suffix_order.trans)
  qed
qed

lemma joker_class_end_suffix: "suffix (joker_class_end joker right) (drop 2 joker)"
  by (simp add: joker_class_end_def suffix_dropWhile)

lemma joker_plan_suffix:
  assumes "joker_plan sz chaine joker = (Search unique pass rest, played, n)" and "joker \<noteq> []"
  shows "suffix rest (drop 1 joker)"
proof -
  have "suffix (drop 2 joker) (drop (Suc 0) joker)"
    using suffix_drop[of 1 "drop (Suc 0) joker"] by (simp add: numeral_2_eq_2)
  then have body: "suffix (drop (Suc 0) e) (drop (Suc 0) joker)" if "suffix e (drop 2 joker)" for e
    using that by (meson suffix_drop suffix_order.trans)
  from assms show ?thesis
    by (auto simp: joker_plan_def named_class_def Let_def after_class_def joker_class_end_suffix
        split: if_splits prod.splits option.splits dest!: class_loop_suffix intro!: body)
qed

lemma joker_plan_shorter:
  assumes "joker_plan sz chaine joker = (Search unique pass rest, played, n)" and "joker \<noteq> []"
  shows "length rest < length joker"
  using suffix_length_le[OF joker_plan_suffix[OF assms]] assms(2) by (cases joker) auto

lemma word_compare_ge: "word_compare k chaine joker = (ok, jmp) \<Longrightarrow> k \<le> jmp"
  by (induction k chaine joker rule: word_compare.induct) (fastforce split: if_splits)+

lemma word_compare_pos:
  "word_compare 0 chaine joker = (ok, jmp) \<Longrightarrow> joker \<noteq> [] \<Longrightarrow> cbyte joker 0 \<noteq> CHR ''*'' \<Longrightarrow> 0 < jmp"
  by (cases joker) (auto split: if_splits dest!: word_compare_ge)

section \<open>Reference semantics\<close>

type_synonym joker_result = "(cstring \<times> int option) option \<times> bool"

definition ref_alt :: "joker_result \<Rightarrow> joker_result \<Rightarrow> joker_result" where
  "ref_alt R1 R2 = (case R1 of (Some x, p) \<Rightarrow> (Some x, p) | (None, p) \<Rightarrow> (fst R2, p \<or> snd R2))"

fun search_first :: "('a \<Rightarrow> joker_result) \<Rightarrow> 'a list \<Rightarrow> joker_result" where
  "search_first f [] = (None, False)"
| "search_first f (x # xs) = ref_alt (f x) (search_first f xs)"

fun star_ends :: "passmap \<Rightarrow> nat \<Rightarrow> cstring \<Rightarrow> cstring list" where
  "star_ends pass 0 s = [s]"
| "star_ends pass (Suc k) s =
     (if pass (cbyte s 0) then drop 1 s # star_ends pass k (drop 1 s) else [])"

definition star_tries :: "bool \<Rightarrow> passmap \<Rightarrow> cstring \<Rightarrow> cstring list" where
  "star_tries unique pass s =
     (if unique then star_ends pass (if s \<noteq> [] then 1 else 0) s
      else s # star_ends pass (length s) s)"

fun joker_ref :: "int option \<Rightarrow> nat \<Rightarrow> cstring \<Rightarrow> cstring \<Rightarrow> joker_result" where
  "joker_ref sz 0 chaine joker = (None, False)"
| "joker_ref sz (Suc n) chaine joker =
     (if joker = [] then
        (if chaine = [] \<or> cbyte chaine 0 = CHR ''?'' then Some (chaine, sz) else None, False)
      else if joker = ''*'' then (Some (chaine, sz), False)
      else if cbyte joker 0 = CHR ''*'' then
        (case joker_plan sz chaine joker of (plan, played, _) \<Rightarrow>
           (case plan of
              Reject \<Rightarrow> (None, played)
            | Accept sz' \<Rightarrow> (Some (chaine, sz'), played)
            | Search unique pass rest \<Rightarrow>
                ref_alt (None, played)
                  (search_first (\<lambda>s. joker_ref sz n s rest) (star_tries unique pass chaine))))
      else if chaine \<noteq> [] then
        (case word_compare 0 chaine joker of (ok, jmp) \<Rightarrow>
           if ok then
             (case joker_ref sz n (drop jmp chaine) (drop jmp joker) of
                (r, p) \<Rightarrow> (map_option (\<lambda>(_, z). (chaine, z)) r, p))
           else (None, False))
      else (None, False))"

definition joker_match :: "int option \<Rightarrow> cstring \<Rightarrow> cstring \<Rightarrow> joker_result" where
  "joker_match sz chaine joker = joker_ref sz (Suc (length joker)) chaine joker"

lemma search_first_cong: "(\<And>x. x \<in> set xs \<Longrightarrow> f x = g x) \<Longrightarrow> search_first f xs = search_first g xs"
  by (induction xs) auto

lemma joker_ref_fuel:
  "length joker < n \<Longrightarrow> length joker < n' \<Longrightarrow> joker_ref sz n chaine joker = joker_ref sz n' chaine joker"
proof (induction n arbitrary: n' chaine joker)
  case 0
  then show ?case by simp
next
  case (Suc n)
  obtain k where n': "n' = Suc k" using Suc.prems(2) by (cases n') auto
  have search: "joker_ref sz n s rest = joker_ref sz k s rest"
    if "joker_plan sz chaine joker = (Search unique pass rest, played, c)" "joker \<noteq> []"
    for unique pass rest played c s
    using joker_plan_shorter[OF that] Suc.prems n' by (intro Suc.IH) auto
  have word: "joker_ref sz n s (drop jmp joker) = joker_ref sz k s (drop jmp joker)"
    if "word_compare 0 chaine joker = (ok, jmp)" "joker \<noteq> []" "cbyte joker 0 \<noteq> CHR ''*''" for s ok jmp
    using word_compare_pos[OF that] that(2) Suc.prems n' by (intro Suc.IH) (cases joker; auto)+
  show ?case
    unfolding n' joker_ref.simps
    by (auto simp: search word split: prod.splits joker_plan.splits intro!: arg_cong2[where f = ref_alt]
        search_first_cong)
qed

lemma joker_match_fuel: "length joker < n \<Longrightarrow> joker_ref sz n chaine joker = joker_match sz chaine joker"
  unfolding joker_match_def by (rule joker_ref_fuel) auto

text \<open>The characteristic equations of the reference, by the shape of the pattern.\<close>

lemma joker_match_Nil:
  "joker_match sz chaine [] =
     (if chaine = [] \<or> cbyte chaine 0 = CHR ''?'' then Some (chaine, sz) else None, False)"
  by (simp add: joker_match_def)

lemma joker_match_star: "joker_match sz chaine ''*'' = (Some (chaine, sz), False)"
  by (simp add: joker_match_def)

lemma joker_match_plan:
  assumes "joker \<noteq> ''*''" and "cbyte joker 0 = CHR ''*''"
    and "joker_plan sz chaine joker = (plan, played, n)"
  shows "joker_match sz chaine joker =
     (case plan of
        Reject \<Rightarrow> (None, played)
      | Accept sz' \<Rightarrow> (Some (chaine, sz'), played)
      | Search unique pass rest \<Rightarrow>
          ref_alt (None, played)
            (search_first (\<lambda>s. joker_match sz s rest) (star_tries unique pass chaine)))"
proof -
  have ne: "joker \<noteq> []" using assms(2) by auto
  show ?thesis
  proof (cases plan)
    case (Search unique pass rest)
    then have "length rest < length joker" using assms(3) ne joker_plan_shorter by blast
    with assms ne Search show ?thesis
      by (simp add: joker_match_def[of sz chaine joker] joker_match_fuel)
  qed (use assms ne in \<open>auto simp: joker_match_def[of sz chaine joker]\<close>)
qed

lemma joker_match_word:
  assumes "joker \<noteq> []" and "cbyte joker 0 \<noteq> CHR ''*''" and "chaine \<noteq> []"
    and "word_compare 0 chaine joker = (ok, jmp)"
  shows "joker_match sz chaine joker =
     (if ok then
        (case joker_match sz (drop jmp chaine) (drop jmp joker) of
           (r, p) \<Rightarrow> (map_option (\<lambda>(_, z). (chaine, z)) r, p))
      else (None, False))"
proof -
  have "length (drop jmp joker) < length joker"
    using word_compare_pos[OF assms(4,1,2)] assms(1) by simp
  then have "joker_ref sz (length joker) (drop jmp chaine) (drop jmp joker) =
      joker_match sz (drop jmp chaine) (drop jmp joker)"
    by (rule joker_match_fuel)
  moreover have "joker \<noteq> ''*''" using assms(2) by auto
  ultimately show ?thesis
    using assms by (simp add: joker_match_def[of sz chaine joker])
qed

lemma joker_match_word_end:
  "joker \<noteq> [] \<Longrightarrow> cbyte joker 0 \<noteq> CHR ''*'' \<Longrightarrow> joker_match sz [] joker = (None, False)"
  by (auto simp: joker_match_def)

end
