(* ===== verification/FilterRefine.thy ===== *)
theory FilterRefine
  imports FilterMemo
begin

text \<open>
  The bounded, memoised matcher against the reference: a run that was cut neither by the work
  budget nor by the depth cap computes the reference's match, size and flag; any run that
  matches does so where the reference matches.  \<open>agrees\<close> is the contract of one call; it is
  proved for the star loop, for \<open>strjoker_impl\<close> and, by induction on the level, for
  \<open>strjoker_rec\<close>.
\<close>

section \<open>The contract of a call\<close>

definition memo_sound :: "joker_run \<Rightarrow> bool" where
  "memo_sound m \<longleftrightarrow> joker_spent m \<or>
     (\<forall>c j. suffix c (chaine0 m) \<and> suffix j (joker0 m) \<and> memo_hit m c j \<longrightarrow>
        fst (joker_match (psize m) c j) = None \<and>
        (snd (joker_match (psize m) c j) \<longrightarrow> play_flag True (pflag m) = pflag m))"

definition memo_shape :: "joker_run \<Rightarrow> bool" where
  "memo_shape m \<longleftrightarrow> len0 m = length (chaine0 m) \<and>
     (case failed m of
        None \<Rightarrow> True
      | Some bits \<Rightarrow> stride m = length (joker0 m) + 1 \<and>
          (length (chaine0 m) + 1) * stride m \<le> 8 * length bits)"

definition run_ok :: "joker_run \<Rightarrow> cstring \<Rightarrow> cstring \<Rightarrow> bool" where
  "run_ok m c j \<longleftrightarrow> memo_shape m \<and> memo_sound m \<and> suffix c (chaine0 m) \<and> suffix j (joker0 m)"

definition exhausted :: "joker_run \<Rightarrow> bool" where
  "exhausted m \<longleftrightarrow> joker_spent m \<or> cut m"

definition agrees :: "joker_run \<Rightarrow> joker_result \<Rightarrow> cstring option \<times> joker_run \<Rightarrow> bool" where
  "agrees m R X \<longleftrightarrow>
     (let r = fst X; m' = snd X in
      (exhausted m \<longrightarrow> exhausted m') \<and>
      (joker_spent m \<longrightarrow> joker_spent m') \<and>
      (r = None \<longrightarrow> memo_shape m' \<and> memo_sound m' \<and> psize m' = psize m \<and>
         chaine0 m' = chaine0 m \<and> joker0 m' = joker0 m) \<and>
      (r \<noteq> None \<longrightarrow> fst R \<noteq> None) \<and>
      (\<not> exhausted m' \<longrightarrow>
         r = map_option fst (fst R) \<and>
         psize m' = (case fst R of None \<Rightarrow> psize m | Some (_, z) \<Rightarrow> z) \<and>
         pflag m' = play_flag (snd R) (pflag m)))"

lemma play_flag_play [simp]:
  "play_flag p (play_flag q f) = play_flag (p \<or> q) f"
  by (cases f) (auto simp: play_flag_def)

lemma play_flag_False [simp]: "play_flag False f = f"
  by (simp add: play_flag_def)

lemma play_flag_fixed: "play_flag True f = f \<Longrightarrow> play_flag p f = f"
  by (cases p) simp_all

lemma agrees_found: "fst R = Some (c, psize m) \<Longrightarrow> snd R = False \<Longrightarrow> agrees m R (Some c, m)"
  by (simp add: agrees_def)

lemma agrees_none: "run_ok m c j \<Longrightarrow> agrees m (None, False) (None, m)"
  by (simp add: agrees_def run_ok_def)

lemma agrees_run_ok:
  "agrees m R (None, m') \<Longrightarrow> run_ok m c j \<Longrightarrow> suffix c' (chaine0 m) \<Longrightarrow> suffix j' (joker0 m) \<Longrightarrow>
     run_ok m' c' j'"
  by (simp add: agrees_def run_ok_def Let_def)

lemma ref_alt_simps [simp]:
  "ref_alt (Some x, p) R = (Some x, p)" "ref_alt (None, p) R = (fst R, p \<or> snd R)"
  by (simp_all add: ref_alt_def)

lemma agrees_first: "agrees m R1 (Some p, m1) \<Longrightarrow> agrees m (ref_alt R1 R2) (Some p, m1)"
  by (cases R1; cases "fst R1") (auto simp: agrees_def Let_def)

lemma agrees_next:
  assumes "agrees m R1 (None, m1)" and "agrees m1 R2 X"
  shows "agrees m (ref_alt R1 R2) X"
proof (cases R1)
  case (Pair r p)
  then show ?thesis
    using assms by (cases R2; cases "fst R2"; cases r) (auto simp: agrees_def Let_def disj_commute)
qed

lemma agrees_alone: "agrees m (ref_alt R (None, False)) X \<longleftrightarrow> agrees m R X"
  by (cases R; cases "fst R") (auto simp: ref_alt_def)

section \<open>Charging, entering and marking\<close>

definition charged :: "joker_run \<Rightarrow> nat \<Rightarrow> bool \<Rightarrow> joker_run" where
  "charged m n played = (strjoker_charge m n)\<lparr>pflag := play_flag played (pflag m)\<rparr>"

lemma strjoker_charge_fields [simp]:
  "chaine0 (strjoker_charge m n) = chaine0 m" "joker0 (strjoker_charge m n) = joker0 m"
  "len0 (strjoker_charge m n) = len0 m" "stride (strjoker_charge m n) = stride m"
  "failed (strjoker_charge m n) = failed m" "maxdepth (strjoker_charge m n) = maxdepth m"
  "cut (strjoker_charge m n) = cut m" "psize (strjoker_charge m n) = psize m"
  "pflag (strjoker_charge m n) = pflag m"
  by (simp_all add: strjoker_charge_def)

lemma joker_spent_charge: "joker_spent m \<Longrightarrow> joker_spent (strjoker_charge m n)"
  by (auto simp: joker_spent_def strjoker_charge_def split: option.splits)

lemma charged_spent: "joker_spent m \<Longrightarrow> joker_spent (charged m n p)"
  using joker_spent_charge[of m n] by (simp add: charged_def joker_spent_def)

lemma charged_fields [simp]:
  "chaine0 (charged m n p) = chaine0 m" "joker0 (charged m n p) = joker0 m"
  "len0 (charged m n p) = len0 m" "cut (charged m n p) = cut m"
  "psize (charged m n p) = psize m" "pflag (charged m n p) = play_flag p (pflag m)"
  "memo_shape (charged m n p) = memo_shape m" "memo_hit (charged m n p) c j = memo_hit m c j"
  by (simp_all add: charged_def memo_shape_def memo_hit_def memo_bit_def cong: option.case_cong)

lemma charged_sound: "memo_sound m \<Longrightarrow> memo_sound (charged m n p)"
  by (auto simp: memo_sound_def charged_spent play_flag_fixed)

lemma charged_run_ok: "run_ok m c j \<Longrightarrow> run_ok (charged m n p) c j"
  by (simp add: run_ok_def charged_sound)

lemma charged_flagless: "strjoker_charge m n = charged m n False"
  by (simp add: charged_def)

lemma agrees_charged:
  assumes "agrees (charged m n p) R X"
  shows "agrees m (ref_alt (None, p) R) X"
  using assms charged_spent[of m n p]
  by (cases R; cases "fst R") (auto simp: agrees_def Let_def exhausted_def disj_commute)

lemma joker_enter_eq: "\<exists>d. joker_enter depth m = (charged m STRJOKER_CALLCOST False)\<lparr>maxdepth := d\<rparr>"
  by (intro exI[of _ "if maxdepth m < depth then depth else maxdepth m"], cases m)
    (simp add: joker_enter_def charged_def strjoker_charge_def)

lemma maxdepth_irrelevant [simp]:
  "joker_spent (m\<lparr>maxdepth := d\<rparr>) = joker_spent m" "memo_sound (m\<lparr>maxdepth := d\<rparr>) = memo_sound m"
  "memo_shape (m\<lparr>maxdepth := d\<rparr>) = memo_shape m" "run_ok (m\<lparr>maxdepth := d\<rparr>) c j = run_ok m c j"
  "memo_hit (m\<lparr>maxdepth := d\<rparr>) c j = memo_hit m c j" "exhausted (m\<lparr>maxdepth := d\<rparr>) = exhausted m"
  "agrees (m\<lparr>maxdepth := d\<rparr>) R X = agrees m R X"
  by (simp_all add: joker_spent_def memo_sound_def memo_shape_def run_ok_def memo_hit_def memo_bit_def
      exhausted_def agrees_def cong: option.case_cong)

lemma cut_irrelevant [simp]:
  "joker_spent (m\<lparr>cut := b\<rparr>) = joker_spent m" "memo_sound (m\<lparr>cut := b\<rparr>) = memo_sound m"
  "memo_shape (m\<lparr>cut := b\<rparr>) = memo_shape m" "exhausted (m\<lparr>cut := True\<rparr>)"
  by (simp_all add: joker_spent_def memo_sound_def memo_shape_def memo_hit_def memo_bit_def
      exhausted_def cong: option.case_cong)

lemma agrees_enter: "agrees (joker_enter depth m) R X \<Longrightarrow> agrees m R X"
proof -
  assume a: "agrees (joker_enter depth m) R X"
  obtain d where "joker_enter depth m = (charged m STRJOKER_CALLCOST False)\<lparr>maxdepth := d\<rparr>"
    using joker_enter_eq by blast
  with a have "agrees (charged m STRJOKER_CALLCOST False) R X" by simp
  from agrees_charged[OF this] show ?thesis by simp
qed

lemma run_ok_enter: "run_ok m c j \<Longrightarrow> run_ok (joker_enter depth m) c j"
  using joker_enter_eq[of depth m] charged_run_ok by auto

lemma memo_bit_less:
  assumes "memo_shape m" "failed m = Some bits" "suffix c (chaine0 m)" "suffix j (joker0 m)"
  shows "memo_bit m c j < 8 * length bits"
proof -
  have "memo_bit m c j < (length (chaine0 m) - length c) * stride m + stride m"
    using assms by (simp add: memo_bit_def memo_shape_def)
  also have "\<dots> = (length (chaine0 m) - length c + 1) * stride m" by simp
  also have "\<dots> \<le> (length (chaine0 m) + 1) * stride m"
    by (rule mult_le_mono1) simp
  also have "\<dots> \<le> 8 * length bits"
    using assms(1) unfolding memo_shape_def assms(2) option.case by blast
  finally show ?thesis .
qed

lemma mixed_radix_inj:
  "a * s + b = a' * s + b' \<Longrightarrow> b < s \<Longrightarrow> b' < s \<Longrightarrow> a = a' \<and> b = (b' :: nat)"
  by (metis add.commute add_left_cancel div_mult_self3 div_less add_0 not_less0)

lemma memo_bit_inj:
  assumes "memo_shape m" "failed m = Some bits" "memo_bit m c j = memo_bit m c' j'"
    and "suffix c (chaine0 m)" "suffix j (joker0 m)" "suffix c' (chaine0 m)" "suffix j' (joker0 m)"
  shows "c = c' \<and> j = j'"
proof -
  have "length (chaine0 m) - length c = length (chaine0 m) - length c' \<and>
      length (joker0 m) - length j = length (joker0 m) - length j'"
    using assms(1-3) by (intro mixed_radix_inj[of _ "stride m"]) (auto simp: memo_bit_def memo_shape_def)
  with assms(4-7) show ?thesis
    by (metis suffix_drop_of_length)
qed

lemma memo_fail_fields [simp]:
  "chaine0 (memo_fail m c j) = chaine0 m" "joker0 (memo_fail m c j) = joker0 m"
  "psize (memo_fail m c j) = psize m" "pflag (memo_fail m c j) = pflag m" "cut (memo_fail m c j) = cut m"
  "joker_spent (memo_fail m c j) = joker_spent m" "memo_bit (memo_fail m c j) = memo_bit m"
  "memo_shape (memo_fail m c j) = memo_shape m"
  by (auto simp: memo_fail_def joker_spent_def memo_bit_def memo_shape_def memo_mark_def fun_eq_iff
      split: option.splits)

lemma memo_hit_fail:
  assumes "memo_shape m" "suffix c (chaine0 m)" "suffix j (joker0 m)"
    and "suffix c' (chaine0 m)" "suffix j' (joker0 m)" "memo_hit (memo_fail m c j) c' j'"
  shows "(c' = c \<and> j' = j) \<or> memo_hit m c' j'"
proof (cases "failed m")
  case None
  with assms(6) show ?thesis by (simp add: memo_hit_def memo_fail_def)
next
  case (Some bits)
  have "memo_test (memo_mark bits (memo_bit m c j)) (memo_bit m c' j')"
    using assms(6) Some by (simp add: memo_hit_def memo_fail_def memo_bit_def)
  moreover have "memo_bit m c j < 8 * length bits" "memo_bit m c' j' < 8 * length bits"
    using memo_bit_less[OF assms(1) Some] assms(2-5) by blast+
  ultimately have "memo_bit m c' j' = memo_bit m c j \<or> memo_test bits (memo_bit m c' j')"
    by (simp add: bitmap.tst_mrk)
  then show ?thesis
    using memo_bit_inj[OF assms(1) Some] assms(2-5) Some by (auto simp: memo_hit_def)
qed

lemma agrees_mark:
  assumes ag: "agrees m (joker_match (psize m) c j) (None, m')" and ok: "run_ok m c j" and "\<not> cut m'"
  shows "agrees m (joker_match (psize m) c j) (None, memo_fail m' c j)"
proof -
  have same: "memo_shape m'" "memo_sound m'" "psize m' = psize m" "chaine0 m' = chaine0 m"
      "joker0 m' = joker0 m"
    using ag by (auto simp: agrees_def)
  have suff: "suffix c (chaine0 m')" "suffix j (joker0 m')" using ok same by (auto simp: run_ok_def)
  have "memo_sound (memo_fail m' c j)"
  proof (cases "joker_spent m'")
    case False
    then have "fst (joker_match (psize m) c j) = None"
      and "snd (joker_match (psize m) c j) \<longrightarrow> play_flag True (pflag m') = pflag m'"
      using ag assms(3) by (auto simp: agrees_def exhausted_def)
    then show ?thesis
      using same False memo_hit_fail[OF same(1) suff] by (fastforce simp: memo_sound_def)
  qed (simp add: memo_sound_def)
  with ag same show ?thesis by (simp add: agrees_def exhausted_def)
qed

section \<open>The star loop and the body\<close>

definition call_ok :: "joker_call \<Rightarrow> cstring \<Rightarrow> bool" where
  "call_ok rec joker \<longleftrightarrow> (\<forall>m c. run_ok m c joker \<longrightarrow>
     agrees m (joker_match (psize m) c joker) (rec m c joker))"

lemma agrees_size: "agrees m R (None, m') \<Longrightarrow> psize m' = psize m"
  by (simp add: agrees_def)

lemma star_loop_agrees:
  assumes "call_ok rec joker" and "run_ok m c joker"
  shows "agrees m (search_first (\<lambda>s. joker_match (psize m) s joker) (star_ends pass k c))
     (star_loop rec pass joker k m c)"
  using assms(2)
proof (induction k arbitrary: m c)
  case 0
  with assms(1) show ?case by (simp add: call_ok_def agrees_alone)
next
  case (Suc k)
  have run: "run_ok m (drop 1 c) joker"
    using Suc.prems by (auto simp: run_ok_def intro: suffix_drop_trans)
  show ?case
  proof (cases "pass (cbyte c 0)")
    case False
    with Suc.prems show ?thesis by (simp add: agrees_none)
  next
    case True
    obtain r m1 where call: "rec m (drop 1 c) joker = (r, m1)" by fastforce
    with assms(1) run have ag: "agrees m (joker_match (psize m) (drop 1 c) joker) (r, m1)"
      by (metis call_ok_def)
    show ?thesis
    proof (cases r)
      case (Some p)
      with True call ag show ?thesis by (simp add: agrees_first)
    next
      case None
      with ag run have "run_ok m1 (drop 1 c) joker"
        using agrees_run_ok run_ok_def by blast
      then have "agrees m1 (search_first (\<lambda>s. joker_match (psize m1) s joker) (star_ends pass k (drop 1 c)))
          (star_loop rec pass joker k m1 (drop 1 c))"
        by (rule Suc.IH)
      with True call ag None show ?thesis
        using agrees_size by (auto intro: agrees_next)
    qed
  qed
qed

lemma search_agrees:
  assumes "call_ok rec rest" and "run_ok m c rest"
  shows "agrees m (search_first (\<lambda>s. joker_match (psize m) s rest) (star_tries unique pass c))
     (case (if \<not> unique then rec m c rest else (None, m)) of
        (Some adr, m1) \<Rightarrow> (Some adr, m1)
      | (None, m1) \<Rightarrow> star_loop rec pass rest (star_max unique m1 c) m1 c)"
proof (cases unique)
  case True
  then show ?thesis
    using star_loop_agrees[OF assms] by (simp add: star_tries_def star_max_def)
next
  case False
  obtain r m1 where call: "rec m c rest = (r, m1)" by fastforce
  with assms have ag: "agrees m (joker_match (psize m) c rest) (r, m1)" by (metis call_ok_def)
  show ?thesis
  proof (cases r)
    case (Some p)
    with False call ag show ?thesis by (simp add: star_tries_def agrees_first)
  next
    case None
    with ag assms(2) have run: "run_ok m1 c rest" using agrees_run_ok run_ok_def by blast
    then have "star_max unique m1 c = length c"
      using False suffix_length_le[of c "chaine0 m1"]
      by (simp add: star_max_def run_ok_def memo_shape_def)
    with False call None show ?thesis
      using agrees_next[OF ag[unfolded None] star_loop_agrees[OF assms(1) run]] agrees_size ag
      by (simp add: star_tries_def)
  qed
qed

lemma strjoker_impl_agrees:
  assumes call: "\<And>rest. length rest < length joker \<Longrightarrow> call_ok rec rest" and run: "run_ok m c joker"
  shows "agrees m (joker_match (psize m) c joker) (strjoker_impl rec m c joker)"
proof -
  consider (nil) "joker = []" | (star) "joker = ''*''"
    | (plan) "joker \<noteq> ''*''" "cbyte joker 0 = CHR ''*''"
    | (word) "joker \<noteq> []" "joker \<noteq> ''*''" "cbyte joker 0 \<noteq> CHR ''*''" by fastforce
  then show ?thesis
  proof cases
    case nil
    with run show ?thesis
      by (auto simp: strjoker_impl_def joker_match_Nil agrees_none intro: agrees_found)
  next
    case star
    then show ?thesis by (simp add: strjoker_impl_def joker_match_star agrees_found)
  next
    case plan
    have ne: "joker \<noteq> []" using plan by auto
    obtain pl played n where p: "joker_plan (psize m) c joker = (pl, played, n)" by (metis prod_cases3)
    have m0: "(strjoker_charge m n)\<lparr>pflag := play_flag played (pflag m)\<rparr> = charged m n played"
      by (simp add: charged_def)
    note run0 = charged_run_ok[OF run, of n played]
    show ?thesis
    proof (cases pl)
      case Reject
      with plan ne p m0 agrees_charged[OF agrees_none[OF run0]] show ?thesis
        by (simp add: strjoker_impl_def joker_match_plan[OF plan p])
    next
      case (Accept z)
      with plan ne p m0 charged_spent[of m n played] show ?thesis
        by (simp add: strjoker_impl_def joker_match_plan[OF plan p] agrees_def Let_def exhausted_def)
          (auto simp: joker_spent_def)
    next
      case (Search unique pass rest)
      with p ne have "length rest < length joker" "suffix rest (drop 1 joker)"
        using joker_plan_shorter joker_plan_suffix by blast+
      then have "call_ok rec rest" and "suffix rest joker"
        using call suffix_drop suffix_order.trans by blast+
      with run0 have "run_ok (charged m n played) c rest"
        by (auto simp: run_ok_def intro: suffix_order.trans)
      from agrees_charged[OF search_agrees[OF \<open>call_ok rec rest\<close> this, of unique pass]]
      show ?thesis
        using plan ne p m0 Search
        by (induct unique) (simp_all add: strjoker_impl_def joker_match_plan[OF plan p] Let_def)
    qed
  next
    case word
    show ?thesis
    proof (cases "c = []")
      case True
      with word run show ?thesis
        by (simp add: strjoker_impl_def joker_match_word_end agrees_none)
    next
      case False
      obtain ok jmp where w: "word_compare 0 c joker = (ok, jmp)" by fastforce
      note run0 = charged_run_ok[OF run, of jmp False]
      show ?thesis
      proof (cases ok)
        case False
        with \<open>c \<noteq> []\<close> word w agrees_charged[OF agrees_none[OF run0]] show ?thesis
          by (simp add: strjoker_impl_def joker_match_word charged_flagless)
      next
        case True
        have "length (drop jmp joker) < length joker"
          using word_compare_pos[OF w] word by (cases joker) auto
        then have "call_ok rec (drop jmp joker)" by (rule call)
        moreover have "run_ok (charged m jmp False) (drop jmp c) (drop jmp joker)"
          using run0 by (auto simp: run_ok_def intro: suffix_drop_trans)
        ultimately have ag: "agrees (charged m jmp False)
            (joker_match (psize m) (drop jmp c) (drop jmp joker))
            (rec (charged m jmp False) (drop jmp c) (drop jmp joker))"
          by (metis call_ok_def charged_fields(5))
        obtain r m1 where rc: "rec (charged m jmp False) (drop jmp c) (drop jmp joker) = (r, m1)"
          by fastforce
        obtain r' p' where jm: "joker_match (psize m) (drop jmp c) (drop jmp joker) = (r', p')" by fastforce
        have "agrees (charged m jmp False) (map_option (\<lambda>(_, z). (c, z)) r', p')
            (case r of Some _ \<Rightarrow> (Some c, m1) | None \<Rightarrow> (None, m1))"
          using ag rc jm by (auto simp: agrees_def Let_def split: option.splits)
        from agrees_charged[OF this] show ?thesis
          using True \<open>c \<noteq> []\<close> word w rc jm
          by (auto simp: strjoker_impl_def joker_match_word charged_flagless split: option.splits)
      qed
    qed
  qed
qed

section \<open>The recursion\<close>

lemma strjoker_rec_agrees:
  "run_ok m c j \<Longrightarrow> agrees m (joker_match (psize m) c j) (strjoker_rec n m c j)"
proof (induction n arbitrary: m c j)
  case 0
  define m1 where "m1 = joker_enter STRJOKER_MAXDEPTH m"
  have "run_ok m1 c j" using 0 by (simp add: m1_def run_ok_enter)
  let ?R = "joker_match (psize m) c j"
  have "agrees m1 ?R (None, m1)" if "joker_spent m1"
    using that \<open>run_ok m1 c j\<close> by (simp add: agrees_def run_ok_def exhausted_def)
  moreover have "agrees m1 ?R (None, m1\<lparr>cut := True\<rparr>)"
    using \<open>run_ok m1 c j\<close> by (simp add: agrees_def run_ok_def)
  ultimately have "agrees m1 ?R (strjoker_rec 0 m c j)"
    by (simp add: m1_def[symmetric] Let_def)
  then show ?case unfolding m1_def by (rule agrees_enter)
next
  case (Suc n)
  define m1 where "m1 = joker_enter (STRJOKER_MAXDEPTH - Suc n) m"
  have run1: "run_ok m1 c j" using Suc.prems by (simp add: m1_def run_ok_enter)
  have sz: "psize m1 = psize m" by (simp add: m1_def joker_enter_def)
  obtain r m' where impl: "strjoker_impl (strjoker_rec n) m1 c j = (r, m')" by fastforce
  have "agrees m1 (joker_match (psize m1) c j) (strjoker_impl (strjoker_rec n) m1 c j)"
    using Suc.IH run1 by (intro strjoker_impl_agrees) (auto simp: call_ok_def)
  with impl have ag: "agrees m1 (joker_match (psize m1) c j) (r, m')" by simp
  have "agrees m1 (joker_match (psize m1) c j) (None, m1)" if "joker_spent m1 \<or> memo_hit m1 c j"
    using that run1 play_flag_fixed[of "pflag m1"]
    by (auto simp: agrees_def run_ok_def exhausted_def memo_sound_def play_flag_def)
  moreover have "agrees m1 (joker_match (psize m1) c j) (None, memo_fail m' c j)" if "r = None" "\<not> cut m'"
    using agrees_mark[OF _ run1 that(2)] ag that(1) by blast
  ultimately have "agrees m1 (joker_match (psize m1) c j) (strjoker_rec (Suc n) m c j)"
    using impl ag by (auto simp: Let_def m1_def[symmetric])
  with sz show ?case unfolding m1_def by (metis agrees_enter)
qed

end
