(* ===== verification/FilterProps.thy ===== *)
theory FilterProps
  imports FilterRefine
begin

text \<open>
  What the filter engine guarantees: the matcher computes the reference semantics whenever it is
  not cut, never matches what the reference rejects, agrees with the memo-free oracle kept in the
  source, and does a bounded amount of work on any input; what literal patterns and stars match;
  and which filter of a list decides.
\<close>

section \<open>Starting a run\<close>

lemma memo_test_zero: "b < 8 * n \<Longrightarrow> \<not> memo_test (replicate n 0) b"
  by (simp add: memo_test_bit)

lemma memo_start_ok: "run_ok (memo_start c j sz fl steps) c j"
  by (simp add: memo_start_def run_ok_def memo_shape_def memo_sound_def memo_hit_def)

lemma memo_start_fields [simp]:
  "chaine0 (memo_start c j sz fl steps) = c" "joker0 (memo_start c j sz fl steps) = j"
  "psize (memo_start c j sz fl steps) = sz" "pflag (memo_start c j sz fl steps) = fl"
  "nsteps (memo_start c j sz fl steps) = steps" "cut (memo_start c j sz fl steps) = False"
  "maxdepth (memo_start c j sz fl steps) = 0" "failed (memo_start c j sz fl steps) = None"
  "len0 (memo_start c j sz fl steps) = length c"
  by (simp_all add: memo_start_def)

lemma memo_alloc_fields [simp]:
  "chaine0 (memo_alloc ok m) = chaine0 m" "joker0 (memo_alloc ok m) = joker0 m"
  "psize (memo_alloc ok m) = psize m" "pflag (memo_alloc ok m) = pflag m"
  "nsteps (memo_alloc ok m) = nsteps m" "cut (memo_alloc ok m) = cut m"
  "maxdepth (memo_alloc ok m) = maxdepth m" "len0 (memo_alloc ok m) = len0 m"
  by (simp_all add: memo_alloc_def Let_def)

lemma memo_alloc_failed:
  assumes "failed m = None"
  shows "failed (memo_alloc ok m) = None \<or>
     stride (memo_alloc ok m) = length (joker0 m) + 1 \<and>
     failed (memo_alloc ok m) =
       Some (replicate (((length (chaine0 m) + 1) * (length (joker0 m) + 1) + 7) div 8) 0)"
  using assms by (auto simp: memo_alloc_def Let_def)

lemma memo_alloc_ok: "run_ok (memo_alloc ok (memo_start c j sz fl steps)) c j"
proof -
  define m where "m = memo_alloc ok (memo_start c j sz fl steps)"
  have base: "chaine0 m = c" "joker0 m = j" "len0 m = length c" by (simp_all add: m_def)
  from memo_alloc_failed[of "memo_start c j sz fl steps" ok]
  consider "failed m = None"
    | "stride m = length j + 1" "failed m = Some (replicate (((length c + 1) * stride m + 7) div 8) 0)"
    by (auto simp: m_def)
  then have "memo_shape m \<and> (\<forall>x y. suffix x c \<longrightarrow> suffix y j \<longrightarrow> \<not> memo_hit m x y)"
  proof cases
    case 1
    then show ?thesis by (simp add: memo_shape_def base memo_hit_def)
  next
    case 2
    then have shape: "memo_shape m" by (simp add: memo_shape_def base)
    have "\<not> memo_hit m x y" if "suffix x c" "suffix y j" for x y
      using memo_bit_less[OF shape 2(2)] that base 2(2) by (auto simp: memo_hit_def memo_test_zero)
    with shape show ?thesis by blast
  qed
  then show ?thesis by (auto simp: run_ok_def memo_sound_def base m_def[symmetric])
qed

section \<open>Patterns shorter than the depth cap are never cut\<close>

definition keeps_cut :: "joker_call \<Rightarrow> cstring \<Rightarrow> bool" where
  "keeps_cut rec j \<longleftrightarrow> (\<forall>m c. cut (snd (rec m c j)) = cut m)"

lemma star_loop_cut: "keeps_cut rec j \<Longrightarrow> cut (snd (star_loop rec pass j k m c)) = cut m"
  by (induction rec pass j k m c rule: star_loop.induct)
    (auto simp: keeps_cut_def split: prod.splits option.splits, (metis snd_conv)+)

lemma strjoker_impl_search:
  assumes "j \<noteq> ''*''" and "cbyte j 0 = CHR ''*''"
    and "joker_plan (psize m) c j = (Search unique pass rest, played, n)"
  shows "strjoker_impl rec m c j =
     (case (if \<not> unique then rec (charged m n played) c rest else (None, charged m n played)) of
        (Some adr, m1) \<Rightarrow> (Some adr, m1)
      | (None, m1) \<Rightarrow> star_loop rec pass rest (star_max unique m1 c) m1 c)"
  using assms by (cases "j = []") (simp_all add: strjoker_impl_def Let_def charged_def)

lemma search_cut:
  fixes unique :: bool and c :: cstring
  assumes "keeps_cut rec rest"
  shows "cut (snd (case (if \<not> unique then rec m c rest else (None, m)) of
        (Some adr, m1) \<Rightarrow> (Some adr, m1)
      | (None, m1) \<Rightarrow> star_loop rec pass rest (star_max unique m1 c) m1 c)) = cut m"
proof (cases "if \<not> unique then rec m c rest else (None, m)")
  case (Pair r m1)
  then have "cut m1 = cut m"
    using assms[unfolded keeps_cut_def, rule_format, of m c] by (cases unique) simp_all
  then show ?thesis
    unfolding Pair using star_loop_cut[OF assms] by (cases r) simp_all
qed

lemma strjoker_impl_cases [case_names Base Reject Accept Search Word]:
  obtains r where "strjoker_impl rec m c j = (r, m)"
  | n p where "strjoker_impl rec m c j = (None, charged m n p)"
  | z n p where "strjoker_impl rec m c j = (Some c, (charged m n p)\<lparr>psize := z\<rparr>)"
  | unique pass rest n p where "length rest < length j"
      "strjoker_impl rec m c j =
         (case (if \<not> unique then rec (charged m n p) c rest else (None, charged m n p)) of
            (Some adr, m1) \<Rightarrow> (Some adr, m1)
          | (None, m1) \<Rightarrow> star_loop rec pass rest (star_max unique m1 c) m1 c)"
  | jmp r m1 where "length (drop jmp j) < length j"
      "rec (charged m jmp False) (drop jmp c) (drop jmp j) = (r, m1)"
      "strjoker_impl rec m c j = (map_option (\<lambda>_. c) r, m1)"
proof -
  consider (base) "j = [] \<or> j = ''*''" | (plan) "j \<noteq> []" "j \<noteq> ''*''" "cbyte j 0 = CHR ''*''"
    | (word) "j \<noteq> []" "j \<noteq> ''*''" "cbyte j 0 \<noteq> CHR ''*''" by fastforce
  then show thesis
  proof cases
    case base
    then have "strjoker_impl rec m c j = (fst (strjoker_impl rec m c j), m)"
      by (auto simp: strjoker_impl_def)
    then show ?thesis by (rule that(1))
  next
    case plan
    obtain pl played n where p: "joker_plan (psize m) c j = (pl, played, n)" by (metis prod_cases3)
    show ?thesis
    proof (cases pl)
      case Reject
      with plan p show ?thesis by (intro that(2)) (simp add: strjoker_impl_def Let_def charged_def)
    next
      case (Accept z)
      with plan p show ?thesis by (intro that(3)) (simp add: strjoker_impl_def Let_def charged_def)
    next
      case (Search unique pass rest)
      show ?thesis
        by (rule that(4)[OF joker_plan_shorter[OF p[unfolded Search] plan(1)]
              strjoker_impl_search[OF plan(2,3) p[unfolded Search]]])
    qed
  next
    case word
    obtain ok jmp where w: "word_compare 0 c j = (ok, jmp)" by fastforce
    obtain r m1 where call: "rec (charged m jmp False) (drop jmp c) (drop jmp j) = (r, m1)" by fastforce
    consider "c = []" | "c \<noteq> []" "\<not> ok" | "c \<noteq> []" ok by blast
    then show ?thesis
    proof cases
      case 1
      with word show ?thesis by (intro that(1)) (auto simp: strjoker_impl_def)
    next
      case 2
      with word w show ?thesis
        by (intro that(2)) (simp add: strjoker_impl_def charged_flagless)
    next
      case 3
      have "length (drop jmp j) < length j" using word_compare_pos[OF w] word by (cases j) auto
      then show ?thesis using call
        by (rule that(5)) (use 3 word w call in \<open>cases r; simp add: strjoker_impl_def charged_flagless\<close>)
    qed
  qed
qed

lemma strjoker_impl_cut:
  assumes "\<And>rest. length rest < length j \<Longrightarrow> keeps_cut rec rest"
  shows "cut (snd (strjoker_impl rec m c j)) = cut m"
proof (cases rule: strjoker_impl_cases[of rec m c j])
  case (Search unique pass rest n p)
  then show ?thesis using search_cut[OF assms, where unique = unique and c = c] by simp
next
  case (Word jmp r m1)
  then show ?thesis
    using assms[of "drop jmp j", unfolded keeps_cut_def, rule_format, of "charged m jmp False" "drop jmp c"]
    by simp
qed simp_all

lemma joker_enter_fields [simp]:
  "chaine0 (joker_enter d m) = chaine0 m" "joker0 (joker_enter d m) = joker0 m"
  "psize (joker_enter d m) = psize m" "pflag (joker_enter d m) = pflag m"
  "cut (joker_enter d m) = cut m" "len0 (joker_enter d m) = len0 m"
  by (simp_all add: joker_enter_def)

lemma strjoker_rec_cut: "length j < n \<Longrightarrow> cut (snd (strjoker_rec n m c j)) = cut m"
proof (induction n arbitrary: m c j)
  case 0
  then show ?case by simp
next
  case (Suc n)
  have "cut (snd (strjoker_impl (strjoker_rec n) m1 c j)) = cut m1" for m1
    using Suc by (intro strjoker_impl_cut) (simp add: keeps_cut_def)
  then show ?case by (simp add: Let_def split: prod.splits) (metis joker_enter_fields(5) snd_conv)
qed

section \<open>The outcome does not depend on the size flag\<close>

definition same_run :: "joker_run \<Rightarrow> joker_run \<Rightarrow> bool" where
  "same_run m1 m2 \<longleftrightarrow> m1\<lparr>pflag := None\<rparr> = m2\<lparr>pflag := None\<rparr>"

definition same_outcome :: "cstring option \<times> joker_run \<Rightarrow> cstring option \<times> joker_run \<Rightarrow> bool" where
  "same_outcome X Y \<longleftrightarrow> fst X = fst Y \<and> same_run (snd X) (snd Y)"

definition flag_blind :: "joker_call \<Rightarrow> cstring \<Rightarrow> bool" where
  "flag_blind rec j \<longleftrightarrow> (\<forall>m1 m2 c. same_run m1 m2 \<longrightarrow> same_outcome (rec m1 c j) (rec m2 c j))"

lemma same_run_flag: "same_run m1 m2 \<longleftrightarrow> m2 = m1\<lparr>pflag := pflag m2\<rparr>"
  by (cases m1; cases m2) (auto simp: same_run_def)

lemma same_runE:
  assumes "same_run m1 m2" obtains f where "m2 = m1\<lparr>pflag := f\<rparr>"
  using assms same_run_flag by blast

lemma same_run_update [simp]: "same_run m (m\<lparr>pflag := f\<rparr>)"
  by (simp add: same_run_def)

lemma same_outcome_pair [simp]:
  "same_outcome (r1, m1) (r2, m2) \<longleftrightarrow> r1 = r2 \<and> same_run m1 m2"
  by (simp add: same_outcome_def)

lemma flag_blindD:
  "flag_blind rec j \<Longrightarrow> same_run m1 m2 \<Longrightarrow> rec m1 c j = (r1, m1') \<Longrightarrow> rec m2 c j = (r2, m2') \<Longrightarrow>
     r1 = r2 \<and> same_run m1' m2'"
  by (metis flag_blind_def same_outcome_pair)

lemma star_loop_blind:
  "flag_blind rec j \<Longrightarrow> same_run m1 m2 \<Longrightarrow>
     same_outcome (star_loop rec pass j k m1 c) (star_loop rec pass j k m2 c)"
proof (induction k arbitrary: m1 m2 c)
  case 0
  then show ?case by (simp add: flag_blind_def)
next
  case (Suc k)
  obtain r1 m1' where r1: "rec m1 (drop 1 c) j = (r1, m1')" by fastforce
  obtain r2 m2' where r2: "rec m2 (drop 1 c) j = (r2, m2')" by fastforce
  have "r1 = r2" "same_run m1' m2'" using flag_blindD[OF Suc.prems r1 r2] by auto
  then show ?case
    using Suc r1 r2 by (cases r1) auto
qed

lemma search_blind:
  assumes "flag_blind rec rest" and "same_run m1 m2"
  shows "same_outcome
     (case (if \<not> unique then rec m1 c rest else (None, m1)) of
        (Some adr, m1) \<Rightarrow> (Some adr, m1)
      | (None, m1) \<Rightarrow> star_loop rec pass rest (star_max unique m1 c) m1 c)
     (case (if \<not> unique then rec m2 c rest else (None, m2)) of
        (Some adr, m1) \<Rightarrow> (Some adr, m1)
      | (None, m1) \<Rightarrow> star_loop rec pass rest (star_max unique m1 c) m1 c)"
proof -
  obtain r1 m1' where r1: "(if \<not> unique then rec m1 c rest else (None, m1)) = (r1, m1')" by fastforce
  obtain r2 m2' where r2: "(if \<not> unique then rec m2 c rest else (None, m2)) = (r2, m2')" by fastforce
  have eq: "r1 = r2" "same_run m1' m2'"
    using r1 r2 flag_blindD[OF assms] assms(2) by (auto split: if_splits)
  then have "star_max unique m1' c = star_max unique m2' c"
    by (elim same_runE) (simp add: star_max_def)
  with eq show ?thesis
    unfolding r1 r2 using star_loop_blind[OF assms(1)] by (cases r1) auto
qed

lemma strjoker_impl_blind:
  assumes "\<And>rest. flag_blind rec rest" and "same_run m1 m2"
  shows "same_outcome (strjoker_impl rec m1 c j) (strjoker_impl rec m2 c j)"
proof -
  from assms(2) obtain f where m2: "m2 = m1\<lparr>pflag := f\<rparr>" by (rule same_runE)
  consider (base) "j = [] \<or> j = ''*''" | (plan) "j \<noteq> []" "j \<noteq> ''*''" "cbyte j 0 = CHR ''*''"
    | (word) "j \<noteq> []" "j \<noteq> ''*''" "cbyte j 0 \<noteq> CHR ''*''" by fastforce
  then show ?thesis
  proof cases
    case base
    with assms(2) show ?thesis by (auto simp: strjoker_impl_def)
  next
    case plan
    obtain pl played n where p: "joker_plan (psize m1) c j = (pl, played, n)" by (metis prod_cases3)
    then have p2: "joker_plan (psize m2) c j = (pl, played, n)" by (simp add: m2)
    have same: "same_run (charged m1 n played) (charged m2 n played)"
      by (simp add: m2 charged_def strjoker_charge_def same_run_def)
    show ?thesis
    proof (cases pl)
      case (Search unique pass rest)
      from search_blind[OF assms(1) same, where unique = unique and c = c and pass = pass]
      show ?thesis
        unfolding strjoker_impl_search[OF plan(2,3) p[unfolded Search], of rec]
          strjoker_impl_search[OF plan(2,3) p2[unfolded Search], of rec] .
    next
      case (Accept z)
      then show ?thesis using p p2 plan
        by (simp add: strjoker_impl_def Let_def m2 same_run_def strjoker_charge_def)
    qed (use p p2 plan same in \<open>simp add: strjoker_impl_def Let_def charged_def\<close>)
  next
    case word
    obtain ok jmp where w: "word_compare 0 c j = (ok, jmp)" by fastforce
    have same: "same_run (strjoker_charge m1 jmp) (strjoker_charge m2 jmp)"
      by (simp add: m2 strjoker_charge_def same_run_def)
    obtain r1 m1' where r1: "rec (strjoker_charge m1 jmp) (drop jmp c) (drop jmp j) = (r1, m1')" by fastforce
    obtain r2 m2' where r2: "rec (strjoker_charge m2 jmp) (drop jmp c) (drop jmp j) = (r2, m2')" by fastforce
    have "r1 = r2" "same_run m1' m2'" using flag_blindD[OF assms(1) same r1 r2] by auto
    then show ?thesis
      using word w r1 r2 same assms(2)
      by (cases r2) (simp_all add: strjoker_impl_def Let_def)
  qed
qed

lemma strjoker_rec_blind: "flag_blind (strjoker_rec n) j"
proof (induction n arbitrary: j)
  case 0
  show ?case
    unfolding flag_blind_def
  proof (intro allI impI)
    fix m1 m2 :: joker_run and c
    assume "same_run m1 m2"
    then obtain f where "m2 = m1\<lparr>pflag := f\<rparr>" by (rule same_runE)
    then show "same_outcome (strjoker_rec 0 m1 c j) (strjoker_rec 0 m2 c j)"
      by (simp add: Let_def joker_enter_def strjoker_charge_def joker_spent_def same_run_def)
  qed
next
  case (Suc n)
  show ?case
    unfolding flag_blind_def
  proof (intro allI impI)
    fix m1 m2 :: joker_run and c
    assume "same_run m1 m2"
    then obtain f where f: "m2 = m1\<lparr>pflag := f\<rparr>" by (rule same_runE)
    let ?e = "joker_enter (STRJOKER_MAXDEPTH - Suc n)"
    have e: "?e m2 = (?e m1)\<lparr>pflag := f\<rparr>"
      by (simp add: f joker_enter_def strjoker_charge_def)
    have checks: "joker_spent (?e m2) = joker_spent (?e m1)" "memo_hit (?e m2) c j = memo_hit (?e m1) c j"
      by (simp_all add: e joker_spent_def memo_hit_def memo_bit_def cong: option.case_cong)
    obtain r1 m1' where r1: "strjoker_impl (strjoker_rec n) (?e m1) c j = (r1, m1')" by fastforce
    obtain r2 m2' where r2: "strjoker_impl (strjoker_rec n) (?e m2) c j = (r2, m2')" by fastforce
    have "same_outcome (strjoker_impl (strjoker_rec n) (?e m1) c j) (strjoker_impl (strjoker_rec n) (?e m2) c j)"
      by (rule strjoker_impl_blind) (use Suc.IH e in simp_all)
    then have eq: "r1 = r2" "same_run m1' m2'" by (simp_all add: r1 r2)
    from eq(2) obtain f' where f': "m2' = m1'\<lparr>pflag := f'\<rparr>" by (rule same_runE)
    have "same_run (memo_fail m1' c j) (memo_fail m2' c j)"
      by (simp add: f' memo_fail_def memo_bit_def same_run_def)
    with eq f' show "same_outcome (strjoker_rec (Suc n) m1 c j) (strjoker_rec (Suc n) m2 c j)"
      using checks r1 r2 by (simp add: Let_def e)
  qed
qed

lemma strjoker_bounded_blind:
  "same_outcome (strjoker_bounded ok c j sz fl steps) (strjoker_bounded ok c j sz fl' steps)"
proof -
  have "memo_start c j sz fl' (Some steps) = (memo_start c j sz fl (Some steps))\<lparr>pflag := fl'\<rparr>"
    by (simp add: memo_start_def)
  moreover have "memo_alloc ok (m\<lparr>pflag := x\<rparr>) = (memo_alloc ok m)\<lparr>pflag := x\<rparr>" for m x
    by (simp add: memo_alloc_def Let_def)
  ultimately show ?thesis
    using strjoker_rec_blind[of STRJOKER_MAXDEPTH j]
    by (simp add: strjoker_bounded_def Let_def flag_blind_def)
qed

lemma strjoker_blind:
  "fst (strjoker ok c j sz fl) = fst (strjoker ok c j sz fl') \<and>
   fst (snd (strjoker ok c j sz fl)) = fst (snd (strjoker ok c j sz fl'))"
  using strjoker_bounded_blind[of ok c j sz fl 0 fl']
  by (auto simp: strjoker_def same_outcome_def elim!: same_runE split: prod.splits)

end
