(* ===== verification/FilterClaims.thy ===== *)
theory FilterClaims
  imports FilterProps
begin

text \<open>
  The properties of the filter engine.  \<open>steps\<close> reads the work counter; \<open>JOKER_WORK\<close> bounds it:
  the budget, plus what the at most 256 open calls may still charge once it is spent.
\<close>

section \<open>The work bound\<close>

definition steps :: "joker_run \<Rightarrow> nat" where
  "steps m = (case nsteps m of None \<Rightarrow> 0 | Some k \<Rightarrow> k)"

definition ITEM_COST :: nat where "ITEM_COST = 86"

definition FRAME_COST :: nat where
  "FRAME_COST = 512 + STRJOKER_MAXLEN + ITEM_COST * STRJOKER_MAXLEN + STRJOKER_CALLCOST * (STRJOKER_MAXLEN + 3)"

definition JOKER_WORK :: nat where
  "JOKER_WORK = STRJOKER_MAXSTEPS + STRJOKER_CALLCOST + STRJOKER_MAXDEPTH * FRAME_COST"

lemma class_item_charge:
  assumes "class_item sz acc js = (acc', ro)" and "js \<noteq> []"
  shows "ccharge acc' \<le> ccharge acc + (case ro of None \<Rightarrow> 0
     | Some rest \<Rightarrow> ITEM_COST * (length js - length rest))"
proof (cases "cbyte js 1 = CHR ''-'' \<and> cbyte js 2 \<noteq> NUL \<and> ro = Some (drop 3 js)")
  case True
  then have len: "3 \<le> length js" by (simp add: cbyte_def split: if_splits)
  have "ord (cbyte js 2) + 1 - ord (cbyte js 0) \<le> 256"
    using ord_less[of "cbyte js 2"] by linarith
  then show ?thesis
    using assms(1) True len
    by (auto simp: class_item_def Let_def ITEM_COST_def split: if_splits prod.splits option.splits)
next
  case False
  with assms show ?thesis
    by (auto simp: class_item_def Let_def split: if_splits prod.splits option.splits)
qed

lemma class_loop_charge:
  "class_loop sz right acc js = (acc', ro) \<Longrightarrow> ccharge acc' \<le> ccharge acc + ITEM_COST * length js"
proof (induction sz right acc js rule: class_loop.induct)
  case (1 sz right acc js)
  show ?case
  proof (cases "js = [] \<or> cbyte js 0 = right")
    case True
    with "1.prems" show ?thesis by (auto simp: class_loop.simps[of sz right acc js])
  next
    case False
    obtain acc1 r1 where item: "class_item sz acc js = (acc1, r1)" by fastforce
    note charge = class_item_charge[OF item]
    show ?thesis
    proof (cases r1)
      case None
      with False item charge "1.prems" show ?thesis
        by (auto simp: class_loop.simps[of sz right acc js])
    next
      case (Some rest)
      with False item "1.prems" have loop: "class_loop sz right acc1 (class_sep rest) = (acc', ro)"
        by (simp add: class_loop.simps[of sz right acc js])
      have "ccharge acc' \<le> ccharge acc1 + ITEM_COST * length (class_sep rest)"
        using "1.IH"[OF False item[symmetric, unfolded Some] refl loop] .
      also have "\<dots> \<le> ccharge acc + ITEM_COST * (length js - length rest) + ITEM_COST * length rest"
        using charge False Some class_sep_length[of rest] by (simp add: add_mono mult_le_mono2)
      also have "\<dots> = ccharge acc + ITEM_COST * length js"
        using class_item_length[of sz acc js acc1 rest] item Some False
        by (simp add: add.assoc flip: distrib_left)
      finally show ?thesis .
    qed
  qed
qed

lemma joker_plan_charge:
  assumes "joker_plan sz c j = (pl, played, n)"
  shows "n \<le> 512 + length j + ITEM_COST * length j"
proof -
  have "ccharge acc \<le> 256 + length j + ITEM_COST * length j"
    if "class_loop sz right \<lparr>cpass = (\<lambda>_. False), cbounds = 0, climit = 0, cplayed = False,
          ccharge = 256 + length j\<rparr> (drop 2 j) = (acc, ro)" for right acc ro
    using class_loop_charge[OF that] by (simp add: diff_le_self order_trans[OF _ add_left_mono])
  with assms show ?thesis
    by (fastforce simp: joker_plan_def named_class_def Let_def split: if_splits prod.splits option.splits)
qed

lemma word_compare_le: "word_compare k c j = (ok, n) \<Longrightarrow> n \<le> k + length j"
  by (induction k c j rule: word_compare.induct) (fastforce split: if_splits)+

lemma steps_charge: "steps (strjoker_charge m n) \<le> steps m + n"
  by (simp add: steps_def strjoker_charge_def split: option.splits)

lemma steps_charged: "steps (charged m n p) \<le> steps m + n"
  using steps_charge[of m n] by (simp add: charged_def steps_def)

lemma steps_update [simp]:
  "steps (m\<lparr>psize := z\<rparr>) = steps m" "steps (m\<lparr>pflag := f\<rparr>) = steps m"
  "steps (m\<lparr>cut := b\<rparr>) = steps m" "steps (memo_fail m c j) = steps m"
  by (simp_all add: steps_def memo_fail_def)

lemma steps_enter: "steps (joker_enter d m) \<le> steps m + STRJOKER_CALLCOST"
  using steps_charge[of "if maxdepth m < d then m\<lparr>maxdepth := d\<rparr> else m" STRJOKER_CALLCOST]
  by (simp add: joker_enter_def steps_def split: if_splits)

text \<open>
  A call costs one \<open>STRJOKER_CALLCOST\<close> past the budget, and ends at most \<open>b\<close> above the budget
  when it starts within it.
\<close>

definition work_ok :: "joker_call \<Rightarrow> nat \<Rightarrow> cstring \<Rightarrow> bool" where
  "work_ok rec b j \<longleftrightarrow> (\<forall>m c. len0 m \<le> STRJOKER_MAXLEN \<longrightarrow> len0 (snd (rec m c j)) = len0 m \<and>
     steps (snd (rec m c j)) \<le> max (steps m + STRJOKER_CALLCOST) (STRJOKER_MAXSTEPS + b))"

lemma FRAME_COST_sum:
  "FRAME_COST = 512 + STRJOKER_MAXLEN + ITEM_COST * STRJOKER_MAXLEN
     + STRJOKER_CALLCOST * STRJOKER_MAXLEN + 3 * STRJOKER_CALLCOST"
  by (simp add: FRAME_COST_def distrib_left)

lemma work_okD:
  assumes "work_ok rec b j" and "rec m c j = (r, m')" and "len0 m \<le> STRJOKER_MAXLEN"
  shows "len0 m' = len0 m"
    and "steps m' \<le> max (steps m + STRJOKER_CALLCOST) (STRJOKER_MAXSTEPS + b)"
  using assms(1)[unfolded work_ok_def, rule_format, of m c] assms(2,3) by simp_all

lemma star_loop_work:
  assumes "work_ok rec b j" and "star_loop rec pass j k m c = (r, m')" and "len0 m \<le> STRJOKER_MAXLEN"
  shows "len0 m' = len0 m \<and>
     steps m' \<le> max (steps m) (STRJOKER_MAXSTEPS + b) + STRJOKER_CALLCOST * (k + 1)"
  using assms(2,3)
proof (induction k arbitrary: m c)
  case 0
  then show ?case using work_okD[OF assms(1), of m c] by auto
next
  case (Suc k)
  show ?case
  proof (cases "pass (cbyte c 0)")
    case False
    with Suc.prems show ?thesis by auto
  next
    case True
    obtain r1 m1 where call: "rec m (drop 1 c) j = (r1, m1)" by fastforce
    note w = work_okD[OF assms(1) call Suc.prems(2)]
    show ?thesis
    proof (cases r1)
      case None
      with True call Suc.prems have "star_loop rec pass j k m1 (drop 1 c) = (r, m')" by simp
      from Suc.IH[OF this] w Suc.prems(2) show ?thesis by auto
    next
      case (Some p)
      with True call Suc.prems w show ?thesis by auto
    qed
  qed
qed

lemma search_work:
  assumes "work_ok rec b rest" and "len0 m \<le> STRJOKER_MAXLEN" and "steps m \<le> STRJOKER_MAXSTEPS + n"
    and X: "(case (if \<not> unique then rec m c rest else (None, m)) of
        (Some adr, m1) \<Rightarrow> (Some adr, m1)
      | (None, m1) \<Rightarrow> star_loop rec pass rest (star_max unique m1 c) m1 c) = (r, m')"
  shows "len0 m' = len0 m \<and>
     steps m' \<le> STRJOKER_MAXSTEPS + b + n + STRJOKER_CALLCOST * (STRJOKER_MAXLEN + 2)"
proof -
  obtain r1 m1 where first: "(if \<not> unique then rec m c rest else (None, m)) = (r1, m1)" by fastforce
  have m1: "len0 m1 = len0 m" "steps m1 \<le> max (steps m + STRJOKER_CALLCOST) (STRJOKER_MAXSTEPS + b)"
    using first work_okD[OF assms(1) _ assms(2)] by (auto split: if_splits)
  show ?thesis
  proof (cases r1)
    case (Some p)
    with X first m1 assms(3) show ?thesis by auto
  next
    case None
    have "star_max unique m1 c \<le> STRJOKER_MAXLEN"
      using m1 assms(2) by (auto simp: star_max_def STRJOKER_MAXLEN_def)
    then have k: "STRJOKER_CALLCOST * (star_max unique m1 c + 1) \<le> STRJOKER_CALLCOST * (STRJOKER_MAXLEN + 1)"
      by (intro mult_le_mono2) simp
    have "star_loop rec pass rest (star_max unique m1 c) m1 c = (r, m')" using X first None by simp
    from star_loop_work[OF assms(1) this] m1 assms(2)
    have "len0 m' = len0 m" and "steps m' \<le> max (steps m1) (STRJOKER_MAXSTEPS + b)
        + STRJOKER_CALLCOST * (star_max unique m1 c + 1)" by simp_all
    moreover have "STRJOKER_CALLCOST * (STRJOKER_MAXLEN + 2) =
        STRJOKER_CALLCOST * (STRJOKER_MAXLEN + 1) + STRJOKER_CALLCOST" by simp
    ultimately show ?thesis using k m1(2) assms(3) by linarith
  qed
qed

lemma strjoker_impl_work:
  assumes work: "\<And>rest. length rest \<le> length j \<Longrightarrow> work_ok rec b rest"
    and len: "len0 m \<le> STRJOKER_MAXLEN" "length j \<le> STRJOKER_MAXLEN"
    and budget: "steps m \<le> STRJOKER_MAXSTEPS"
    and X: "strjoker_impl rec m c j = (r, m')"
  shows "len0 m' = len0 m \<and> steps m' + STRJOKER_CALLCOST \<le> STRJOKER_MAXSTEPS + b + FRAME_COST"
proof -
  consider (base) "j = [] \<or> j = ''*''" | (plan) "j \<noteq> []" "j \<noteq> ''*''" "cbyte j 0 = CHR ''*''"
    | (word) "j \<noteq> []" "j \<noteq> ''*''" "cbyte j 0 \<noteq> CHR ''*''" by fastforce
  then show ?thesis
  proof cases
    case base
    with X budget show ?thesis by (auto simp: strjoker_impl_def FRAME_COST_sum split: if_splits)
  next
    case plan
    obtain pl played n where p: "joker_plan (psize m) c j = (pl, played, n)" by (metis prod_cases3)
    have n: "n \<le> 512 + STRJOKER_MAXLEN + ITEM_COST * STRJOKER_MAXLEN"
      using joker_plan_charge[OF p] len(2) by (meson add_mono le_refl mult_le_mono2 order_trans)
    have ch: "steps (charged m n played) \<le> STRJOKER_MAXSTEPS + n"
      using steps_charged[of m n played] budget by simp
    show ?thesis
    proof (cases pl)
      case (Search unique pass rest)
      have "length rest \<le> length j"
        using joker_plan_shorter[OF p[unfolded Search] plan(1)] by simp
      from search_work[OF work[OF this] _ ch X[unfolded strjoker_impl_search[OF plan(2,3) p[unfolded Search]]]]
      have "len0 m' = len0 m" and "steps m' \<le> STRJOKER_MAXSTEPS + b + n + STRJOKER_CALLCOST * (STRJOKER_MAXLEN + 2)"
        using len(1) by simp_all
      then show ?thesis using n unfolding FRAME_COST_sum distrib_left by linarith
    qed (use X p plan ch n in \<open>auto simp: strjoker_impl_def Let_def charged_def FRAME_COST_sum\<close>)
  next
    case word
    obtain ok jmp where w: "word_compare 0 c j = (ok, jmp)" by fastforce
    have jmp: "jmp \<le> STRJOKER_MAXLEN" using word_compare_le[OF w] len(2) by simp
    obtain r1 m1 where call: "rec (strjoker_charge m jmp) (drop jmp c) (drop jmp j) = (r1, m1)" by fastforce
    have "len0 m1 = len0 m"
      "steps m1 \<le> max (steps (strjoker_charge m jmp) + STRJOKER_CALLCOST) (STRJOKER_MAXSTEPS + b)"
      using work_okD[OF work call] len(1) by simp_all
    with word X w call jmp budget steps_charge[of m jmp] show ?thesis
      by (cases r1) (auto simp: strjoker_impl_def Let_def FRAME_COST_sum split: if_splits)
  qed
qed

lemma strjoker_rec_work:
  "length j \<le> STRJOKER_MAXLEN \<Longrightarrow> work_ok (strjoker_rec n) (STRJOKER_CALLCOST + n * FRAME_COST) j"
proof (induction n arbitrary: j)
  case 0
  show ?case
    using steps_enter[of STRJOKER_MAXDEPTH] by (auto simp: work_ok_def Let_def le_max_iff_disj)
next
  case (Suc n)
  show ?case
    unfolding work_ok_def
  proof (intro allI)
    fix m :: joker_run and c
    define m1 where "m1 = joker_enter (STRJOKER_MAXDEPTH - Suc n) m"
    have m1: "len0 m1 = len0 m" "steps m1 \<le> steps m + STRJOKER_CALLCOST"
      by (simp_all add: m1_def steps_enter)
    have fail: "len0 (memo_fail x c j) = len0 x" for x by (simp add: memo_fail_def)
    obtain r m2 where impl: "strjoker_impl (strjoker_rec n) m1 c j = (r, m2)" by fastforce
    have run: "len0 m2 = len0 m \<and> steps m2 \<le> STRJOKER_MAXSTEPS + (STRJOKER_CALLCOST + Suc n * FRAME_COST)"
      if "\<not> joker_spent m1" "len0 m \<le> STRJOKER_MAXLEN"
    proof -
      have "steps m1 \<le> STRJOKER_MAXSTEPS"
        using that(1) by (simp add: joker_spent_def steps_def split: option.splits)
      then show ?thesis
        using strjoker_impl_work[OF _ _ Suc.prems _ impl, of "STRJOKER_CALLCOST + n * FRAME_COST"]
          Suc.IH Suc.prems m1 that(2) by auto
    qed
    show "len0 m \<le> STRJOKER_MAXLEN \<longrightarrow> len0 (snd (strjoker_rec (Suc n) m c j)) = len0 m \<and>
         steps (snd (strjoker_rec (Suc n) m c j))
           \<le> max (steps m + STRJOKER_CALLCOST) (STRJOKER_MAXSTEPS + (STRJOKER_CALLCOST + Suc n * FRAME_COST))"
      using m1 impl run
      by (auto simp: Let_def m1_def[symmetric] le_max_iff_disj fail)
  qed
qed

section \<open>What a star and a word match\<close>

lemma search_first_None: "fst (search_first f xs) = None \<longleftrightarrow> (\<forall>x \<in> set xs. fst (f x) = None)"
proof (induction xs)
  case (Cons x xs)
  then show ?case by (cases "f x"; cases "fst (f x)") (auto simp: ref_alt_def)
qed simp

lemma star_ends_set:
  "set (star_ends pass k s) =
     {drop i s | i. 0 < i \<and> i \<le> k \<and> (\<forall>x < i. pass (cbyte s x))} \<union>
     (if \<forall>x < k. pass (cbyte s x) then {drop k s} else {})"
proof (induction k arbitrary: s)
  case 0
  then show ?case by auto
next
  case (Suc k)
  show ?case
  proof (cases "pass (cbyte s 0)")
    case False
    then show ?thesis by auto
  next
    case True
    have all: "(\<forall>x < Suc i. pass (cbyte s x)) \<longleftrightarrow> (\<forall>x < i. pass (cbyte (drop 1 s) x))" for i
      using True by (auto simp: cbyte_drop less_Suc_eq_0_disj)
    have "{drop i s | i. 0 < i \<and> i \<le> Suc k \<and> (\<forall>x < i. pass (cbyte s x))} =
        insert (drop 1 s) {drop i (drop 1 s) | i. 0 < i \<and> i \<le> k \<and> (\<forall>x < i. pass (cbyte (drop 1 s) x))}"
      (is "?L = ?R")
    proof (intro set_eqI iffI)
      fix t assume "t \<in> ?L"
      then obtain i where i: "t = drop i s" "0 < i" "i \<le> Suc k" "\<forall>x < i. pass (cbyte s x)" by auto
      then obtain i' where i': "i = Suc i'" by (cases i) auto
      with i all[of i'] show "t \<in> ?R" by (cases "i' = 0") (auto intro!: exI[of _ i'])
    next
      fix t assume "t \<in> ?R"
      then consider "t = drop 1 s"
        | i where "t = drop i (drop 1 s)" "0 < i" "i \<le> k" "\<forall>x < i. pass (cbyte (drop 1 s) x)" by auto
      then show "t \<in> ?L"
      proof cases
        case 1
        with True show ?thesis by (auto intro!: exI[of _ 1])
      next
        case (2 i)
        with all[of i] show ?thesis by (auto intro!: exI[of _ "Suc i"])
      qed
    qed
    with True Suc.IH[of "drop 1 s"] all[of k] show ?thesis by auto
  qed
qed

definition star_takes :: "bool \<Rightarrow> passmap \<Rightarrow> cstring \<Rightarrow> nat \<Rightarrow> bool" where
  "star_takes unique pass s i \<longleftrightarrow> i \<le> length s \<and> (\<forall>x < i. pass (cbyte s x)) \<and>
     (unique \<longrightarrow> i = (if s = [] then 0 else 1))"

lemma star_tries_set: "set (star_tries unique pass s) = {drop i s | i. star_takes unique pass s i}"
proof (cases unique)
  case True
  then show ?thesis
    by (cases s) (auto simp: star_tries_def star_takes_def)
next
  case False
  define A where "A = {drop i s | i. 0 < i \<and> i \<le> length s \<and> (\<forall>x < i. pass (cbyte s x))}"
  define B where "B = (if \<forall>x < length s. pass (cbyte s x) then {drop (length s) s} else {})"
  have "{drop i s | i. star_takes False pass s i} = insert s A"
    unfolding star_takes_def A_def by (auto intro: exI[of _ 0]) (metis drop0 neq0_conv)
  moreover have "B \<subseteq> insert s A"
    by (cases s) (auto simp: A_def B_def)
  moreover have "set (star_tries unique pass s) = insert s (A \<union> B)"
    using False by (simp add: star_tries_def star_ends_set A_def B_def)
  ultimately show ?thesis using False by auto
qed

lemma joker_match_search:
  assumes "joker \<noteq> ''*''" and "cbyte joker 0 = CHR ''*''"
    and "joker_plan sz c joker = (Search unique pass rest, played, n)"
  shows "fst (joker_match sz c joker) \<noteq> None \<longleftrightarrow>
     (\<exists>i. star_takes unique pass c i \<and> fst (joker_match sz (drop i c) rest) \<noteq> None)"
proof -
  have "fst (joker_match sz c joker) =
      fst (search_first (\<lambda>s. joker_match sz s rest) (star_tries unique pass c))"
    by (simp add: joker_match_plan[OF assms])
  moreover have "\<dots> \<noteq> None \<longleftrightarrow> (\<exists>s \<in> set (star_tries unique pass c). fst (joker_match sz s rest) \<noteq> None)"
    by (simp add: search_first_None)
  ultimately show ?thesis by (auto simp: star_tries_set)
qed

lemma word_compare_literal:
  "cstr_ok j \<Longrightarrow> CHR ''*'' \<notin> set j \<Longrightarrow>
     fst (word_compare k c j) = (length j \<le> length c \<and> list_all2 streql (take (length j) c) j) \<and>
     (fst (word_compare k c j) \<longrightarrow> snd (word_compare k c j) = k + length j)"
proof (induction j arbitrary: k c)
  case (Cons x xs)
  have "\<not> streql NUL x" using Cons.prems(1) by (metis cstr_ok_Cons hichar_NUL_iff streql_def)
  then show ?case using Cons by (cases c) auto
qed simp

lemma joker_match_literal:
  assumes "cstr_ok j" and "CHR ''*'' \<notin> set j" and "j \<noteq> []"
  shows "fst (joker_match sz c j) =
     (if strfield c j \<noteq> 0 \<and> (length c = length j \<or> cbyte c (length j) = CHR ''?'')
      then Some (c, sz) else None)"
proof (cases "c = []")
  case True
  have "cbyte j 0 \<noteq> CHR ''*''" using assms by (cases j) auto
  with True assms show ?thesis by (simp add: joker_match_word_end strfield_eq)
next
  case False
  obtain ok jmp where w: "word_compare 0 c j = (ok, jmp)" by fastforce
  have star: "cbyte j 0 \<noteq> CHR ''*''" using assms by (cases j) auto
  have ok: "ok = (strfield c j \<noteq> 0)" and jmp: "ok \<longrightarrow> jmp = length j"
    using word_compare_literal[OF assms(1,2), of 0 c] w assms(3) strfield_pos_iff[of c j] by simp_all
  show ?thesis
  proof (cases ok)
    case True
    with ok strfield_pos_iff[of c j] have "length j \<le> length c" by blast
    with True show ?thesis
      using joker_match_word[OF assms(3) star False w] ok jmp
      by (auto simp: joker_match_Nil cbyte_drop)
  next
    case F: False
    with joker_match_word[OF assms(3) star False w] ok show ?thesis by simp
  qed
qed

section \<open>Evaluating a run\<close>

lemma strjoker_fst: "fst (strjoker ok c j sz fl) = fst (strjoker_bounded ok c j sz fl 0)"
  by (simp add: strjoker_def split: prod.split)

lemma strjoker_rec_numeral:
  "strjoker_rec (numeral k) m chaine joker =
     (let m = joker_enter (STRJOKER_MAXDEPTH - numeral k) m in
      if joker_spent m then (None, m)
      else if memo_hit m chaine joker then (None, m)
      else (case strjoker_impl (strjoker_rec (pred_numeral k)) m chaine joker of
              (adr, m') \<Rightarrow>
                (adr, if adr = None \<and> \<not> cut m' then memo_fail m' chaine joker else m')))"
  by (simp add: numeral_eq_Suc)

lemmas joker_eval = strjoker_bounded_def memo_start_def memo_alloc_def Let_def SIZE_MAX_def
  STRJOKER_MAXLEN_def STRJOKER_MAXDEPTH_def STRJOKER_MAXSTEPS_def STRJOKER_CALLCOST_def
  strjoker_rec_numeral joker_enter_def strjoker_charge_def joker_spent_def memo_hit_def memo_test_def
  memo_bit_def strjoker_impl_def streql_def hichar_def exhausted_def joker_plan_def

definition run_ab :: "cstring option \<times> joker_run" where
  "run_ab = strjoker_bounded True ''ab'' ''a*'' None None 0"

lemma run_ab: "fst run_ab = Some ''ab''" "\<not> exhausted (snd run_ab)"
  by (simp_all add: run_ab_def joker_eval)

section \<open>Properties of the matcher\<close>

lemma bounded_agrees:
  assumes "length c \<le> STRJOKER_MAXLEN" and "length j \<le> STRJOKER_MAXLEN"
  shows "agrees (memo_alloc ok (memo_start c j sz fl (Some k))) (joker_match sz c j)
     (strjoker_bounded ok c j sz fl k)"
  using strjoker_rec_agrees[OF memo_alloc_ok[of ok c j sz fl "Some k"], of STRJOKER_MAXDEPTH] assms
  by (simp add: strjoker_bounded_def Let_def)

text \<open>
  C6. When neither the work budget nor the depth cap cut the run, the memoised matcher returns
  the position, the size limit and the size flag of the memo-free reference search.
\<close>

theorem strjoker_bounded_refines:
  assumes "length c \<le> STRJOKER_MAXLEN" and "length j \<le> STRJOKER_MAXLEN"
    and "strjoker_bounded ok c j sz fl k = (r, m)" and "\<not> exhausted m"
  shows "r = map_option fst (fst (joker_match sz c j)) \<and>
     psize m = (case fst (joker_match sz c j) of None \<Rightarrow> sz | Some (_, z) \<Rightarrow> z) \<and>
     pflag m = play_flag (snd (joker_match sz c j)) fl"
  using bounded_agrees[OF assms(1,2), of ok sz fl k] assms(3,4)
  by (simp add: agrees_def cong: option.case_cong)

theorem strjoker_bounded_refines_witness:
  "fst run_ab = map_option fst (fst (joker_match None ''ab'' ''a*'')) \<and> fst run_ab = Some ''ab''"
  using strjoker_bounded_refines[of "''ab''" "''a*''" True None None 0 "fst run_ab" "snd run_ab"] run_ab
  by (simp add: run_ab_def STRJOKER_MAXLEN_def)

text \<open>
  C10. Whatever the caps cut, the matcher never reports a match that the reference search does
  not find: the caps only lose matches.
\<close>

theorem strjoker_bounded_sound:
  assumes "strjoker_bounded ok c j sz fl k = (Some p, m)"
  shows "fst (joker_match sz c j) \<noteq> None"
proof -
  have "length c \<le> STRJOKER_MAXLEN \<and> length j \<le> STRJOKER_MAXLEN"
    using assms by (auto simp: strjoker_bounded_def Let_def split: if_splits)
  then show ?thesis
    using bounded_agrees[of c j ok sz fl k] assms by (simp add: agrees_def)
qed

theorem strjoker_bounded_sound_witness: "fst (joker_match None ''ab'' ''a*'') \<noteq> None"
  by (rule strjoker_bounded_sound[of True "''ab''" "''a*''" None None 0 "''ab''" "snd run_ab"])
    (use run_ab(1) in \<open>simp add: run_ab_def prod_eq_iff\<close>)

lemma nomemo_agrees:
  "agrees (memo_start c j sz fl None) (joker_match sz c j)
     (strjoker_rec STRJOKER_MAXDEPTH (memo_start c j sz fl None) c j)"
  using strjoker_rec_agrees[OF memo_start_ok[of c j sz fl None], of STRJOKER_MAXDEPTH] by simp

definition unbudgeted :: "joker_call \<Rightarrow> bool" where
  "unbudgeted rec \<longleftrightarrow> (\<forall>m c j. nsteps m = None \<longrightarrow> nsteps (snd (rec m c j)) = None)"

lemma star_loop_unbudgeted:
  "unbudgeted rec \<Longrightarrow> nsteps m = None \<Longrightarrow> nsteps (snd (star_loop rec pass j k m c)) = None"
proof (induction k arbitrary: m c)
  case (Suc k)
  obtain r m1 where call: "rec m (drop 1 c) j = (r, m1)" by fastforce
  with Suc.prems have "nsteps m1 = None" by (metis unbudgeted_def snd_conv)
  with call Suc show ?case by (cases r) auto
qed (simp add: unbudgeted_def)

lemma strjoker_impl_unbudgeted:
  assumes rec: "unbudgeted rec" and m: "nsteps m = None"
  shows "nsteps (snd (strjoker_impl rec m c j)) = None"
proof -
  have ch: "nsteps (charged m n p) = None" for n p
    using m by (simp add: charged_def strjoker_charge_def)
  show ?thesis
  proof (cases rule: strjoker_impl_cases[of rec m c j])
    case (Search unique pass rest n p)
    obtain r m1 where first: "(if \<not> unique then rec (charged m n p) c rest else (None, charged m n p)) = (r, m1)"
      by fastforce
    then have "nsteps m1 = None"
      using rec[unfolded unbudgeted_def, rule_format, OF ch, of n p c rest] ch by (cases unique) auto
    then show ?thesis
      unfolding Search(2) first using star_loop_unbudgeted[OF rec] by (cases r) simp_all
  next
    case (Word jmp r m1)
    then show ?thesis
      using rec[unfolded unbudgeted_def, rule_format, OF ch, of jmp False "drop jmp c" "drop jmp j"] by simp
  qed (use m ch in simp_all)
qed

lemma strjoker_rec_unbudgeted: "unbudgeted (strjoker_rec n)"
proof (induction n)
  case 0
  show ?case by (simp add: unbudgeted_def Let_def joker_enter_def strjoker_charge_def)
next
  case (Suc n)
  show ?case
    unfolding unbudgeted_def
  proof (intro allI impI)
    fix m :: joker_run and c j assume "nsteps m = None"
    then have m: "nsteps (joker_enter (STRJOKER_MAXDEPTH - Suc n) m) = None"
      by (simp add: joker_enter_def strjoker_charge_def)
    have "nsteps (memo_fail x c j) = nsteps x" for x by (simp add: memo_fail_def)
    with m strjoker_impl_unbudgeted[OF Suc.IH m, of c j]
    show "nsteps (snd (strjoker_rec (Suc n) m c j)) = None"
      by (auto simp: Let_def split: prod.splits)
  qed
qed

lemma strjoker_nomemo_match:
  assumes "length j < STRJOKER_MAXDEPTH"
  shows "strjoker_nomemo c j sz fl =
     (map_option fst (fst (joker_match sz c j)),
      case fst (joker_match sz c j) of None \<Rightarrow> sz | Some (_, z) \<Rightarrow> z,
      play_flag (snd (joker_match sz c j)) fl)"
proof -
  obtain r m where run: "strjoker_rec STRJOKER_MAXDEPTH (memo_start c j sz fl None) c j = (r, m)" by fastforce
  have "nsteps m = None" "\<not> cut m"
    using strjoker_rec_unbudgeted[of STRJOKER_MAXDEPTH, unfolded unbudgeted_def, rule_format,
        of "memo_start c j sz fl None" c j]
      strjoker_rec_cut[OF assms, of "memo_start c j sz fl None" c] run by simp_all
  then have "\<not> exhausted m" by (simp add: exhausted_def joker_spent_def)
  with nomemo_agrees[of c j sz fl] run show ?thesis
    by (simp add: strjoker_nomemo_def agrees_def cong: option.case_cong)
qed

text \<open>
  C14. The failure memo is transparent: below the depth cap and within the work budget,
  \<open>strjoker\<close> and the memo-free oracle \<open>strjoker_nomemo\<close> give the same match, size and flag.
\<close>

theorem strjoker_memo_transparent:
  assumes "length c \<le> STRJOKER_MAXLEN" and "length j < STRJOKER_MAXDEPTH"
    and "\<not> joker_spent (snd (strjoker_bounded ok c j sz fl 0))"
  shows "strjoker ok c j sz fl = strjoker_nomemo c j sz fl"
proof -
  obtain r m where run: "strjoker_bounded ok c j sz fl 0 = (r, m)" by fastforce
  have len: "length j \<le> STRJOKER_MAXLEN"
    using assms(2) by (simp add: STRJOKER_MAXDEPTH_def STRJOKER_MAXLEN_def)
  with run assms(1) strjoker_rec_cut[OF assms(2), of "memo_alloc ok (memo_start c j sz fl (Some 0))" c]
  have "\<not> cut m" by (simp add: strjoker_bounded_def Let_def)
  with assms(3) run have "\<not> exhausted m" by (simp add: exhausted_def)
  from strjoker_bounded_refines[OF assms(1) len run this] show ?thesis
    by (simp add: strjoker_def run strjoker_nomemo_match[OF assms(2)])
qed

theorem strjoker_memo_transparent_witness:
  "strjoker True ''ab'' ''a*'' None None = strjoker_nomemo ''ab'' ''a*'' None None"
  by (rule strjoker_memo_transparent)
    (use run_ab(2) in \<open>simp_all add: run_ab_def exhausted_def STRJOKER_MAXLEN_def STRJOKER_MAXDEPTH_def\<close>)

text \<open>
  C16. The work of one match is bounded on every subject and pattern, however hostile: the
  counter reported by \<open>strjoker_bounds\<close> stays below 79 million quanta.
\<close>

theorem strjoker_work_bound:
  "fst (snd (strjoker_bounds ok c j)) \<le> 78145040"
proof -
  obtain r m where run: "strjoker_bounded ok c j None None 0 = (r, m)" by fastforce
  have "steps m \<le> JOKER_WORK"
  proof (cases "length c > STRJOKER_MAXLEN \<or> length j > STRJOKER_MAXLEN")
    case True
    with run show ?thesis by (auto simp: strjoker_bounded_def Let_def steps_def)
  next
    case False
    let ?m = "memo_alloc ok (memo_start c j None None (Some 0))"
    have "strjoker_rec STRJOKER_MAXDEPTH ?m c j = (r, m)"
      using run False by (simp add: strjoker_bounded_def Let_def)
    then have "steps m \<le> max (steps ?m + STRJOKER_CALLCOST)
        (STRJOKER_MAXSTEPS + (STRJOKER_CALLCOST + STRJOKER_MAXDEPTH * FRAME_COST))"
      using work_okD(2)[OF strjoker_rec_work, of j STRJOKER_MAXDEPTH ?m c r m] False by simp
    also have "steps ?m = 0" by (simp add: steps_def)
    finally show ?thesis by (simp add: JOKER_WORK_def)
  qed
  also have "JOKER_WORK = 78145040"
    by (simp add: JOKER_WORK_def FRAME_COST_def ITEM_COST_def STRJOKER_MAXSTEPS_def
        STRJOKER_CALLCOST_def STRJOKER_MAXDEPTH_def STRJOKER_MAXLEN_def)
  finally show ?thesis
    by (simp add: strjoker_bounds_def run steps_def split: option.splits)
qed

text \<open>
  A plain star matches any run of characters: \<open>*rest\<close> matches a subject exactly when
  \<open>rest\<close> matches one of its suffixes.
\<close>

theorem strjoker_star:
  assumes "length rest + 1 < STRJOKER_MAXDEPTH"
    and "cbyte rest 0 \<noteq> CHR ''[''" and "cbyte rest 0 \<noteq> CHR ''(''"
  shows "fst (strjoker_nomemo c (CHR ''*'' # rest) sz fl) \<noteq> None \<longleftrightarrow>
     (\<exists>i \<le> length c. fst (strjoker_nomemo (drop i c) rest sz fl) \<noteq> None)"
proof -
  have len: "length (CHR ''*'' # rest) < STRJOKER_MAXDEPTH" "length rest < STRJOKER_MAXDEPTH"
    using assms(1) by simp_all
  show ?thesis
  proof (cases "rest = []")
    case True
    have "fst (joker_match sz (drop (length c) c) []) \<noteq> None" by (simp add: joker_match_Nil)
    then show ?thesis
      unfolding strjoker_nomemo_match[OF len(1)] strjoker_nomemo_match[OF len(2)]
      using True by (auto simp: joker_match_star)
  next
    case False
    have "joker_plan sz c (CHR ''*'' # rest) = (Search False (\<lambda>_. True) rest, False, 256)"
      using assms(2,3) by (simp add: joker_plan_def Let_def)
    from joker_match_search[OF _ _ this] False show ?thesis
      unfolding strjoker_nomemo_match[OF len(1)] strjoker_nomemo_match[OF len(2)]
      by (simp add: star_takes_def)
  qed
qed

theorem strjoker_star_witness:
  "fst (strjoker_nomemo ''xb'' ''*b'' None None) \<noteq> None \<longleftrightarrow>
     (\<exists>i \<le> 2. fst (strjoker_nomemo (drop i ''xb'') ''b'' None None) \<noteq> None)"
  using strjoker_star[of "''b''" "''xb''" None None] by (simp add: STRJOKER_MAXDEPTH_def numeral_2_eq_2)

text \<open>
  A pattern without a star compares whole words up to ASCII case: it matches exactly the
  subjects that start with it and end there or go on with a query string.
\<close>

theorem strjoker_literal:
  assumes "length j < STRJOKER_MAXDEPTH" and "cstr_ok j" and "CHR ''*'' \<notin> set j" and "j \<noteq> []"
  shows "strjoker_nomemo c j sz fl =
     (if strfield c j \<noteq> 0 \<and> (length c = length j \<or> cbyte c (length j) = CHR ''?'')
      then (Some c, sz, play_flag (snd (joker_match sz c j)) fl)
      else (None, sz, play_flag (snd (joker_match sz c j)) fl))"
  unfolding strjoker_nomemo_match[OF assms(1)] joker_match_literal[OF assms(2-4)] by simp

theorem strjoker_literal_witness: "fst (strjoker_nomemo ''Ab?x'' ''aB'' None None) = Some ''Ab?x''"
  using strjoker_literal[of "''aB''" "''Ab?x''" None None]
  by (simp add: STRJOKER_MAXDEPTH_def strfield_def streql_def hichar_def)

section \<open>Properties of filter lists\<close>

definition filter_hit :: "bool \<Rightarrow> int \<Rightarrow> cstring \<Rightarrow> int option \<Rightarrow> cstring \<Rightarrow> bool" where
  "filter_hit ok ty nom sz f \<longleftrightarrow>
     (case filter_body ty f of None \<Rightarrow> False | Some p \<Rightarrow> fst (strjoker ok nom p sz None) \<noteq> None)"

definition filter_sign :: "cstring \<Rightarrow> int" where
  "filter_sign f = (if cbyte f 0 = CHR ''+'' then 1 else -1)"

fun last_hit :: "(cstring \<Rightarrow> bool) \<Rightarrow> cstring list \<Rightarrow> nat option" where
  "last_hit H [] = None"
| "last_hit H (f # fs) =
     (case last_hit H fs of Some k \<Rightarrow> Some (Suc k) | None \<Rightarrow> if H f then Some 0 else None)"

lemma last_hit_None: "last_hit H fs = None \<longleftrightarrow> (\<forall>f \<in> set fs. \<not> H f)"
  by (induction fs) (auto split: option.splits)

lemma last_hit_Some:
  "last_hit H fs = Some k \<longleftrightarrow>
     k < length fs \<and> H (fs ! k) \<and> (\<forall>l. k < l \<and> l < length fs \<longrightarrow> \<not> H (fs ! l))"
proof (induction fs arbitrary: k)
  case (Cons f fs)
  show ?case
  proof (cases "last_hit H fs")
    case None
    then have no: "\<not> H (fs ! l)" if "l < length fs" for l
      using that by (simp add: last_hit_None)
    then show ?thesis
      using None by (cases k) (auto simp: nth_Cons split: nat.splits)
  next
    case (Some k')
    with Cons.IH[of k'] have k': "k' < length fs" "H (fs ! k')" by auto
    show ?thesis
    proof (cases k)
      case 0
      with Some k' show ?thesis by (auto simp: nth_Cons split: nat.splits intro!: exI[of _ "Suc k'"])
    next
      case (Suc n)
      have "(\<forall>l. Suc n < l \<and> l < Suc (length fs) \<longrightarrow> \<not> H ((f # fs) ! l)) \<longleftrightarrow>
          (\<forall>l. n < l \<and> l < length fs \<longrightarrow> \<not> H (fs ! l))"
      proof (intro iffI allI impI)
        fix l assume "\<forall>l. Suc n < l \<and> l < Suc (length fs) \<longrightarrow> \<not> H ((f # fs) ! l)" and "n < l \<and> l < length fs"
        then show "\<not> H (fs ! l)" by (auto dest: spec[of _ "Suc l"])
      next
        fix l assume "\<forall>l. n < l \<and> l < length fs \<longrightarrow> \<not> H (fs ! l)" and "Suc n < l \<and> l < Suc (length fs)"
        then show "\<not> H ((f # fs) ! l)" by (cases l) auto
      qed
      with Some Suc Cons.IH[of n] show ?thesis by auto
    qed
  qed
qed simp

lemma fa_step_effect:
  "fa_verdict (fa_step ok ty nom sz i f st) =
     (if filter_hit ok ty nom sz f then filter_sign f else fa_verdict st) \<and>
   fa_depth (fa_step ok ty nom sz i f st) =
     (if filter_hit ok ty nom sz f then map_option (\<lambda>_. int i) (fa_depth st) else fa_depth st)"
proof (cases "filter_body ty f")
  case None
  then show ?thesis by (simp add: fa_step_def filter_hit_def)
next
  case (Some p)
  obtain r z fl where r: "strjoker ok nom p sz (fa_flag st) = (r, z, fl)" by (metis prod_cases3)
  have "fst (strjoker ok nom p sz None) = r"
    using strjoker_blind[of ok nom p sz None "fa_flag st"] r by simp
  with Some r show ?thesis
    by (cases r) (simp_all add: fa_step_def filter_hit_def filter_sign_def)
qed

lemma fa_loop_effect:
  "fa_verdict (fa_loop ok ty nom sz i fs st) =
     (case last_hit (filter_hit ok ty nom sz) fs of None \<Rightarrow> fa_verdict st | Some k \<Rightarrow> filter_sign (fs ! k)) \<and>
   fa_depth (fa_loop ok ty nom sz i fs st) =
     (case last_hit (filter_hit ok ty nom sz) fs of None \<Rightarrow> fa_depth st
      | Some k \<Rightarrow> map_option (\<lambda>_. int (i + k)) (fa_depth st))"
proof (induction fs arbitrary: i st)
  case (Cons f fs)
  show ?case
    using Cons.IH[of "Suc i" "fa_step ok ty nom sz i f st"] fa_step_effect[of ok ty nom sz i f st]
    by (auto split: option.splits simp: option.map_comp comp_def ac_simps)
qed simp

text \<open>
  The last filter of the wanted kind that matches decides: the verdict is its sign and the
  reported depth its index; with no match the verdict is 0.
\<close>

theorem fa_strjoker_last_match:
  "fa_strjoker ok ty fs nom sz flag depth = (v, sz', flag', depth') \<Longrightarrow>
     (case last_hit (filter_hit ok ty nom sz) fs of
        None \<Rightarrow> v = 0 \<and> depth' = depth
      | Some k \<Rightarrow> v = filter_sign (fs ! k) \<and> depth' = map_option (\<lambda>_. int k) depth)"
  by (auto simp: fa_strjoker_def Let_def fa_loop_effect split: option.splits)

theorem fa_strjoker_last_match_witness:
  "last_hit (filter_hit True 0 ''ab'' None) [''-z'', ''+a*''] = Some 1 \<and>
   fst (fa_strjoker True 0 [''-z'', ''+a*''] ''ab'' None None (Some 0)) = 1"
proof -
  have hit: "last_hit (filter_hit True 0 ''ab'' None) [''-z'', ''+a*''] = Some 1"
    using run_ab(1) by (simp add: filter_hit_def filter_body_def strjoker_fst run_ab_def)
  obtain v z fl d where "fa_strjoker True 0 [''-z'', ''+a*''] ''ab'' None None (Some 0) = (v, z, fl, d)"
    by (metis prod_cases4)
  from fa_strjoker_last_match[OF this] hit this show ?thesis by (simp add: filter_sign_def)
qed

lemma last_hit_disj:
  "last_hit (\<lambda>f. H1 f \<or> H2 f) fs =
     (case (last_hit H1 fs, last_hit H2 fs) of
        (None, r) \<Rightarrow> r | (r, None) \<Rightarrow> r | (Some a, Some b) \<Rightarrow> Some (max a b))"
  by (induction fs) (auto split: option.splits)

lemma fa_strjoker_parts:
  "\<exists>z fl. fa_strjoker ok ty fs nom sz flag (Some 0) =
     (case last_hit (filter_hit ok ty nom sz) fs of None \<Rightarrow> 0 | Some k \<Rightarrow> filter_sign (fs ! k), z, fl,
      Some (case last_hit (filter_hit ok ty nom sz) fs of None \<Rightarrow> 0 | Some k \<Rightarrow> int k))"
  by (auto simp: fa_strjoker_def Let_def fa_loop_effect split: option.splits)

lemma dual_last_match:
  "fst (fa_strjoker_dual ok ty fs nom1 nom2 sz flag depth) =
     (case last_hit (\<lambda>f. filter_hit ok ty nom1 sz f \<or> filter_hit ok ty nom2 sz f) fs of
        None \<Rightarrow> 0 | Some k \<Rightarrow> filter_sign (fs ! k))"
proof -
  obtain z1 f1 z2 f2 where parts:
    "fa_strjoker ok ty fs nom1 sz (map_option (\<lambda>_. 0) flag) (Some 0) =
       (case last_hit (filter_hit ok ty nom1 sz) fs of None \<Rightarrow> 0 | Some k \<Rightarrow> filter_sign (fs ! k), z1, f1,
        Some (case last_hit (filter_hit ok ty nom1 sz) fs of None \<Rightarrow> 0 | Some k \<Rightarrow> int k))"
    "fa_strjoker ok ty fs nom2 sz (map_option (\<lambda>_. 0) flag) (Some 0) =
       (case last_hit (filter_hit ok ty nom2 sz) fs of None \<Rightarrow> 0 | Some k \<Rightarrow> filter_sign (fs ! k), z2, f2,
        Some (case last_hit (filter_hit ok ty nom2 sz) fs of None \<Rightarrow> 0 | Some k \<Rightarrow> int k))"
    using fa_strjoker_parts by metis
  have sign: "filter_sign f \<noteq> 0" for f by (simp add: filter_sign_def)
  show ?thesis
    unfolding fa_strjoker_dual_def parts last_hit_disj
    using sign by (auto simp: Let_def max_def split: option.splits)
qed

text \<open>
  C20. Testing a link under its two names decides as the last filter that matches either name.
\<close>

theorem fa_strjoker_dual_last_match:
  "fst (fa_strjoker_dual ok ty fs nom1 nom2 sz flag depth) =
     (case last_hit (\<lambda>f. filter_hit ok ty nom1 sz f \<or> filter_hit ok ty nom2 sz f) fs of
        None \<Rightarrow> 0 | Some k \<Rightarrow> filter_sign (fs ! k))"
  by (rule dual_last_match)

end
