(* ===== verification/Lines.thy ===== *)
theory Lines
  imports CStrings
begin

text \<open>
  The line readers: \<open>binput\<close> and \<open>binput_line\<close> of \<open>htslib.c\<close> over a memory buffer, and
  \<open>htslines.c\<close> over a stream.  A stream is the list of the bytes not yet read, so \<open>fgetc\<close> takes
  its head and an empty list is EOF; every reader returns the stream it leaves.  A destination
  buffer of \<open>max\<close> bytes is the string stored in it.  The allocation failures of \<open>String\<close> and the
  opening of files (\<open>fopen_private\<close>) are not modelled.
\<close>

section \<open>Lines of a memory buffer\<close>

definition line_stop :: "char \<Rightarrow> bool" where
  "line_stop c \<longleftrightarrow> c = NUL \<or> c = LF"

fun binput_loop :: "nat \<Rightarrow> nat \<Rightarrow> cstring \<Rightarrow> cstring \<times> nat" where
  "binput_loop mx dest [] = ([], 0)"
| "binput_loop mx dest (c # cs) =
     (if c = NUL \<or> c = LF then ([], 0)
      else if c \<noteq> CR \<and> dest < mx then
        (case binput_loop mx (Suc dest) cs of (s, n) \<Rightarrow> (c # s, Suc n))
      else (case binput_loop mx dest cs of (s, n) \<Rightarrow> (s, Suc n)))"

definition binput :: "cstring \<Rightarrow> nat \<Rightarrow> cstring \<times> nat" where
  "binput buff mx = (case binput_loop mx 0 buff of (s, count) \<Rightarrow> (s, count + 1))"

fun binput_line_loop :: "nat \<Rightarrow> nat \<Rightarrow> cstring \<Rightarrow> cstring \<times> nat \<times> bool" where
  "binput_line_loop mx j [] = ([], 0, False)"
| "binput_line_loop mx j (c # cs) =
     (if c = NUL \<or> c = LF then ([], 0, False)
      else if c = CR then
        (case binput_line_loop mx j cs of (s, n, ct) \<Rightarrow> (s, Suc n, ct))
      else if j + 1 < mx then
        (case binput_line_loop mx (Suc j) cs of (s, n, ct) \<Rightarrow> (c # s, Suc n, ct))
      else
        (case binput_line_loop mx j cs of (s, n, ct) \<Rightarrow> (s, Suc n, True)))"

text \<open>\<open>buff\<close> holds the bytes up to \<open>end\<close>; the result is the line, the advance and the cut flag.\<close>

definition binput_line :: "cstring \<Rightarrow> nat \<Rightarrow> cstring \<times> nat \<times> bool" where
  "binput_line buff mx =
     (if buff = [] then ([], 0, False)
      else (case binput_line_loop mx 0 buff of (s, n, ct) \<Rightarrow> (s, n + 1, ct)))"

lemma binput_loop_eq:
  "binput_loop mx dest cs =
     (let raw = takeWhile (\<lambda>c. \<not> line_stop c) cs in
      (take (mx - dest) (filter (\<lambda>c. c \<noteq> CR) raw), length raw))"
  by (induction mx dest cs rule: binput_loop.induct)
    (auto simp: Let_def line_stop_def take_Cons' Suc_diff_Suc)

lemma binput_line_loop_eq:
  "binput_line_loop mx j cs =
     (let raw = takeWhile (\<lambda>c. \<not> line_stop c) cs; kept = filter (\<lambda>c. c \<noteq> CR) raw in
      (take (mx - 1 - j) kept, length raw, mx - 1 - j < length kept))"
  by (induction mx j cs rule: binput_line_loop.induct)
    (auto simp: Let_def line_stop_def take_Cons' Suc_diff_Suc)

lemma binput_line_eq:
  "buff \<noteq> [] \<Longrightarrow> binput_line buff mx =
     (let raw = takeWhile (\<lambda>c. \<not> line_stop c) buff; kept = filter (\<lambda>c. c \<noteq> CR) raw in
      (take (mx - 1) kept, length raw + 1, mx - 1 < length kept))"
  by (simp add: binput_line_def binput_line_loop_eq Let_def)

lemma binput_line_advance [scan]: "binput_line buff mx = (s, n, c) \<Longrightarrow> buff \<noteq> [] \<Longrightarrow> 0 < n"
  by (auto simp: binput_line_eq Let_def)

section \<open>Lines of a stream\<close>

definition HTS_LINE_DROP_TAB :: nat where "HTS_LINE_DROP_TAB = 1"
definition HTS_LINE_DROP_NUL :: nat where "HTS_LINE_DROP_NUL = 2"
definition HTS_LINE_DROP_FF :: nat where "HTS_LINE_DROP_FF = 4"
definition LINE_RAW :: nat where "LINE_RAW = 256"

definition line_drops :: "char \<Rightarrow> nat \<Rightarrow> bool" where
  "line_drops c flags \<longleftrightarrow> flags AND LINE_RAW = 0 \<and>
     (c = CR \<or> (flags AND HTS_LINE_DROP_TAB \<noteq> 0 \<and> c = TAB) \<or>
      (flags AND HTS_LINE_DROP_FF \<noteq> 0 \<and> c = FF) \<or> (flags AND HTS_LINE_DROP_NUL \<noteq> 0 \<and> c = NUL))"

record line_end =
  run :: nat
  other :: bool

record line_scan = line_end +
  lead :: bool
  gap :: bool

definition scan_init :: line_scan where
  "scan_init = \<lparr>run = 0, other = False, lead = True, gap = False\<rparr>"

definition scan_byte :: "char \<Rightarrow> line_scan \<Rightarrow> line_scan" where
  "scan_byte c e =
     (if is_realspace c then
        (if \<not> lead e \<or> (c \<noteq> CHR '' '' \<and> c \<noteq> TAB) then e\<lparr>lead := False, gap := True\<rparr> else e)
      else
        (let e1 = (if gap e then e\<lparr>other := True, run := 0\<rparr> else e);
             e2 = e1\<lparr>lead := False, gap := False\<rparr>
         in if c = BACKSLASH then e2\<lparr>run := Suc (run e2)\<rparr> else e2\<lparr>other := True, run := 0\<rparr>))"

fun readline_loop :: "nat \<Rightarrow> nat \<Rightarrow> nat \<Rightarrow> line_scan \<Rightarrow> cstring \<Rightarrow>
    cstring \<times> bool \<times> line_scan \<times> cstring" where
  "readline_loop mx flags j e [] = ([], False, e, [])"
| "readline_loop mx flags j e (c # cs) =
     (if c = LF then ([], False, e, cs)
      else if line_drops c flags then readline_loop mx flags j e cs
      else if j + 1 < mx then
        (case readline_loop mx flags (Suc j) (scan_byte c e) cs of
           (s, ct, e', rest) \<Rightarrow> (c # s, ct, e', rest))
      else
        (case readline_loop mx flags j (scan_byte c e) cs of
           (s, ct, e', rest) \<Rightarrow>
             (s, (flags AND LINE_RAW \<noteq> 0 \<or> \<not> is_realspace c) \<or> ct, e', rest)))"

definition readline_end :: "nat \<Rightarrow> nat \<Rightarrow> cstring \<Rightarrow> cstring \<times> bool \<times> line_scan \<times> cstring" where
  "readline_end mx flags fp = readline_loop mx flags 0 scan_init fp"

definition hts_readline :: "nat \<Rightarrow> nat \<Rightarrow> cstring \<Rightarrow> cstring \<times> bool \<times> cstring" where
  "hts_readline mx flags fp = (case readline_end mx flags fp of (s, ct, e, rest) \<Rightarrow> (s, ct, rest))"

definition hts_readline_raw :: "nat \<Rightarrow> cstring \<Rightarrow> cstring \<times> bool \<times> nat \<times> cstring" where
  "hts_readline_raw mx fp =
     (case readline_end mx LINE_RAW fp of (s, ct, e, rest) \<Rightarrow> (s, ct, length s, rest))"

definition trim_line :: "cstring \<Rightarrow> cstring" where
  "trim_line s = dropWhile is_taborspace (rev (dropWhile is_realspace (rev s)))"

definition readline_trim :: "nat \<Rightarrow> nat \<Rightarrow> cstring \<Rightarrow> cstring \<times> bool \<times> line_scan \<times> cstring" where
  "readline_trim mx flags fp =
     (case readline_end mx flags fp of (s, ct, e, rest) \<Rightarrow> (trim_line s, ct, e, rest))"

lemma readline_loop_rest: "readline_loop mx flags j e fp = (s, ct, e', rest) \<Longrightarrow> length rest \<le> length fp"
  by (induction mx flags j e fp arbitrary: s ct e' rest rule: readline_loop.induct)
    (fastforce split: if_splits prod.splits)+

lemma readline_end_rest: "readline_end mx flags fp = (s, ct, e, rest) \<Longrightarrow> length rest \<le> length fp"
  by (simp add: readline_end_def readline_loop_rest)

lemma readline_loop_progress:
  "fp \<noteq> [] \<Longrightarrow> readline_loop mx flags j e fp = (s, ct, e', rest) \<Longrightarrow> length rest < length fp"
  by (cases fp) (auto split: if_splits prod.splits dest!: readline_loop_rest)

text \<open>
  One round of the \<open>do\<close>/\<open>while\<close> of \<open>hts_readline_cpp\<close>: \<open>s\<close> is what is stored so far and \<open>r\<close> the
  trailing backslashes of the joined line.  A pending backslash is dropped before the next line.
\<close>

definition cpp_drop :: "cstring \<Rightarrow> nat \<Rightarrow> cstring \<times> nat" where
  "cpp_drop s r = (if r > 0 then (if length s > 0 then butlast s else s, r - 1) else (s, r))"

definition cpp_round :: "nat \<Rightarrow> nat \<Rightarrow> cstring \<Rightarrow> nat \<Rightarrow> cstring \<Rightarrow> cstring \<times> bool \<times> nat \<times> cstring" where
  "cpp_round mx flags s r fp =
     (case cpp_drop s r of (s, r) \<Rightarrow>
      case readline_trim (mx - length s) flags fp of (t, ct, e, rest) \<Rightarrow>
        (s @ t, ct, if other e then run e else r + run e, rest))"

lemma readline_end_Nil [simp]: "readline_end mx flags [] = ([], False, scan_init, [])"
  by (simp add: readline_end_def)

lemma cpp_round_progress:
  "cpp_round mx flags s r fp = (s', ct, r', rest) \<Longrightarrow>
     length rest < length fp \<or> (fp = [] \<and> rest = [] \<and> r' = r - 1)"
  by (cases "fp = []")
    (auto simp: cpp_round_def cpp_drop_def readline_trim_def readline_end_def trim_line_def scan_init_def
      split: prod.splits if_splits dest!: readline_loop_progress)

function cpp_loop :: "nat \<Rightarrow> nat \<Rightarrow> cstring \<Rightarrow> nat \<Rightarrow> bool \<Rightarrow> cstring \<Rightarrow> cstring \<times> bool \<times> cstring" where
  "cpp_loop mx flags s r ct fp =
     (case cpp_round mx flags s r fp of (s', c, r', rest) \<Rightarrow>
        if r' > 0 then cpp_loop mx flags s' r' (ct \<or> c) rest else (s', ct \<or> c, rest))"
  by pat_completeness auto
termination
  by (relation "measures [\<lambda>(mx, flags, s, r, ct, fp). length fp, \<lambda>(mx, flags, s, r, ct, fp). r]")
    (auto dest!: cpp_round_progress[OF sym])

declare cpp_loop.simps [simp del]

definition hts_readline_cpp :: "nat \<Rightarrow> nat \<Rightarrow> cstring \<Rightarrow> cstring \<times> bool \<times> cstring" where
  "hts_readline_cpp mx flags fp = cpp_loop mx flags [] 0 False fp"

fun hts_readline_alloc_loop :: "nat \<Rightarrow> nat \<Rightarrow> cstring \<Rightarrow> bool \<Rightarrow> cstring \<Rightarrow> cstring \<times> bool \<times> cstring" where
  "hts_readline_alloc_loop limit flags line ct [] = (line, ct, [])"
| "hts_readline_alloc_loop limit flags line ct (c # cs) =
     (if c = LF then (line, ct, cs)
      else if line_drops c flags then hts_readline_alloc_loop limit flags line ct cs
      else if length line < limit then hts_readline_alloc_loop limit flags (line @ [c]) ct cs
      else hts_readline_alloc_loop limit flags line True cs)"

definition hts_readline_alloc :: "nat \<Rightarrow> nat \<Rightarrow> cstring \<Rightarrow> cstring \<times> bool \<times> cstring" where
  "hts_readline_alloc limit flags fp = hts_readline_alloc_loop limit flags [] False fp"

section \<open>What the readers guarantee\<close>

lemma readline_loop_spaces:
  assumes "\<not> j + 1 < mx" and "readline_loop mx flags j e fp = (s, False, e', rest)"
  shows "\<exists>w. list_all is_realspace w \<and> readline_loop mx' flags j' e fp = (w, False, e', rest)"
  using assms
proof (induction fp arbitrary: j' e s)
  case (Cons c cs)
  show ?case
  proof (cases "c = LF \<or> line_drops c flags")
    case True
    with Cons show ?thesis by (auto split: if_splits)
  next
    case False
    with Cons.prems obtain t where
      tail: "readline_loop mx flags j (scan_byte c e) cs = (t, False, e', rest)" and sp: "is_realspace c"
        "flags AND LINE_RAW = 0"
      by (auto split: prod.splits)
    from Cons.IH[OF Cons.prems(1) tail, of j'] Cons.IH[OF Cons.prems(1) tail, of "Suc j'"] False sp
    show ?thesis by auto
  qed
qed auto

lemma readline_loop_wider:
  assumes "readline_loop mx flags j e fp = (s, False, e', rest)" and "mx \<le> mx'"
  shows "\<exists>w. list_all is_realspace w \<and> readline_loop mx' flags j e fp = (s @ w, False, e', rest)"
  using assms(1)
proof (induction fp arbitrary: j e s)
  case (Cons c cs)
  consider "c = LF \<or> line_drops c flags" | "c \<noteq> LF" "\<not> line_drops c flags" "j + 1 < mx"
    | "c \<noteq> LF" "\<not> line_drops c flags" "\<not> j + 1 < mx" by blast
  then show ?case
  proof cases
    case 1
    with Cons show ?thesis by (auto split: if_splits)
  next
    case 2
    with Cons.prems obtain t where
      tail: "readline_loop mx flags (Suc j) (scan_byte c e) cs = (t, False, e', rest)" and "s = c # t"
      by (auto split: prod.splits)
    with Cons.IH[OF tail] 2 assms(2) show ?thesis by auto
  next
    case 3
    have "s = []" if "readline_loop mx flags j e1 fp = (s, ct, e2, r)" for e1 fp s ct e2 r
      using that 3(3) by (induction fp arbitrary: e1 s ct) (auto split: if_splits prod.splits)
    with Cons.prems have "s = []" by blast
    with readline_loop_spaces[OF 3(3) Cons.prems] show ?thesis by simp
  qed
qed auto

lemma readline_loop_skeleton:
  "readline_loop mx flags j e fp = (s, ct, e', rest) \<Longrightarrow>
     \<exists>t ct'. readline_loop mx' flags j' e fp = (t, ct', e', rest)"
proof (induction fp arbitrary: j j' e s ct)
  case (Cons c cs)
  have step: "\<exists>t ct'. readline_loop mx' flags k (scan_byte c e) cs = (t, ct', e', rest)"
    if "\<not> c = LF" "\<not> line_drops c flags" for k
    using that Cons.prems by (cases "j + 1 < mx") (auto split: prod.splits dest: Cons.IH)
  show ?case
  proof (cases "c = LF \<or> line_drops c flags")
    case True
    then show ?thesis using Cons by (auto split: if_splits)
  next
    case False
    with step[of j'] step[of "Suc j'"] show ?thesis by auto
  qed
qed auto

lemma readline_loop_bound:
  "readline_loop mx flags j e fp = (s, ct, e', rest) \<Longrightarrow> length s \<le> mx - 1 - j"
proof (induction mx flags j e fp arbitrary: s ct e' rest rule: readline_loop.induct)
  case (2 mx flags j e c cs)
  then show ?case by (fastforce split: if_splits prod.splits)
qed simp

lemma trim_line_spaces: "list_all is_realspace w \<Longrightarrow> trim_line (s @ w) = trim_line s"
  using dropWhile_append2[of "rev w" is_realspace "rev s"] by (simp add: trim_line_def list_all_iff)

lemma trim_line_length: "length (trim_line s) \<le> length s"
  unfolding trim_line_def
  by (metis length_dropWhile_le length_rev order_trans)

lemma cpp_round_wider:
  assumes "cpp_round mx flags s r fp = (s', False, r', rest)" and "mx \<le> mx'"
  shows "cpp_round mx' flags s r fp = (s', False, r', rest)"
proof -
  obtain s1 r1 where d: "cpp_drop s r = (s1, r1)" by fastforce
  obtain t ct e where line: "readline_loop (mx - length s1) flags 0 scan_init fp = (t, ct, e, rest)"
    using assms(1) d by (auto simp: cpp_round_def readline_trim_def readline_end_def split: prod.splits)
  with assms(1) d have "ct = False" "s' = s1 @ trim_line t"
    by (auto simp: cpp_round_def readline_trim_def readline_end_def)
  moreover from readline_loop_wider[OF line[unfolded \<open>ct = False\<close>] diff_le_mono[OF assms(2)]]
  obtain w where "list_all is_realspace w"
    "readline_loop (mx' - length s1) flags 0 scan_init fp = (t @ w, False, e, rest)" by blast
  ultimately show ?thesis
    using assms(1) d line by (simp add: cpp_round_def readline_trim_def readline_end_def trim_line_spaces)
qed

lemma cpp_round_skeleton:
  assumes "cpp_round mx flags s r fp = (s', ct, r', rest)"
  shows "\<exists>t ct'. cpp_round mx' flags s2 r fp = (t, ct', r', rest)"
proof -
  obtain s1 r1 where d: "cpp_drop s r = (s1, r1)" by fastforce
  obtain s3 where d2: "cpp_drop s2 r = (s3, r1)" using d by (auto simp: cpp_drop_def split: if_splits)
  obtain t ct1 e where line: "readline_loop (mx - length s1) flags 0 scan_init fp = (t, ct1, e, rest)"
    using assms d by (auto simp: cpp_round_def readline_trim_def readline_end_def split: prod.splits)
  from readline_loop_skeleton[OF this, of "mx' - length s3" 0] assms d d2 line show ?thesis
    by (auto simp: cpp_round_def readline_trim_def readline_end_def)
qed

lemma cpp_round_bound:
  assumes "cpp_round mx flags s r fp = (s', ct, r', rest)" and "length s < mx"
  shows "length s' < mx"
proof -
  obtain s1 r1 where d: "cpp_drop s r = (s1, r1)" by fastforce
  then have "length s1 \<le> length s" by (auto simp: cpp_drop_def split: if_splits)
  moreover obtain t ct1 e where line: "readline_loop (mx - length s1) flags 0 scan_init fp = (t, ct1, e, rest)"
    and "s' = s1 @ trim_line t"
    using assms(1) d by (auto simp: cpp_round_def readline_trim_def readline_end_def split: prod.splits)
  ultimately show ?thesis
    using readline_loop_bound[OF line] trim_line_length[of t] assms(2) by simp
qed

lemma cpp_loop_flag: "ct \<Longrightarrow> fst (snd (cpp_loop mx flags s r ct fp))"
proof (induction mx flags s r ct fp rule: cpp_loop.induct)
  case (1 mx flags s r ct fp)
  obtain s1 c1 r1 rest1 where rd: "cpp_round mx flags s r fp = (s1, c1, r1, rest1)" by (metis prod_cases4)
  show ?case
    using "1.IH"[OF rd[symmetric] refl refl] "1.prems" rd by (simp add: cpp_loop.simps[of mx flags s r])
qed

lemma cpp_loop_wider:
  "cpp_loop mx flags s r ct fp = (s', False, rest) \<Longrightarrow> mx \<le> mx' \<Longrightarrow>
     cpp_loop mx' flags s r ct fp = (s', False, rest)"
proof (induction mx flags s r ct fp rule: cpp_loop.induct)
  case (1 mx flags s r ct fp)
  obtain s1 c1 r1 rest1 where rd: "cpp_round mx flags s r fp = (s1, c1, r1, rest1)" by (metis prod_cases4)
  show ?case
  proof (cases "r1 > 0")
    case True
    with rd "1.prems"(1) have loop: "cpp_loop mx flags s1 r1 (ct \<or> c1) rest1 = (s', False, rest)"
      by (simp add: cpp_loop.simps[of mx flags s r])
    then have "\<not> (ct \<or> c1)" using cpp_loop_flag[of "ct \<or> c1" mx flags s1 r1 rest1] by auto
    with rd have "cpp_round mx' flags s r fp = (s1, c1, r1, rest1)"
      using cpp_round_wider[OF _ "1.prems"(2), of flags s r fp s1 r1 rest1] by simp
    with True "1.IH"[OF rd[symmetric] refl refl True loop "1.prems"(2)] show ?thesis
      by (simp add: cpp_loop.simps[of mx' flags s r])
  next
    case False
    with rd "1.prems"(1) have "s' = s1" "\<not> ct" "\<not> c1" "rest = rest1"
      by (auto simp: cpp_loop.simps[of mx flags s r])
    with rd cpp_round_wider[OF _ "1.prems"(2), of flags s r fp s1 r1 rest1] False show ?thesis
      by (simp add: cpp_loop.simps[of mx' flags s r])
  qed
qed

lemma cpp_loop_skeleton:
  "snd (snd (cpp_loop mx flags s r ct fp)) = snd (snd (cpp_loop mx' flags s2 r ct2 fp))"
proof (induction mx flags s r ct fp arbitrary: s2 ct2 rule: cpp_loop.induct)
  case (1 mx flags s r ct fp)
  obtain s1 c1 r1 rest1 where rd: "cpp_round mx flags s r fp = (s1, c1, r1, rest1)" by (metis prod_cases4)
  then obtain t1 d1 where rd2: "cpp_round mx' flags s2 r fp = (t1, d1, r1, rest1)"
    using cpp_round_skeleton by blast
  show ?case
  proof (cases "r1 > 0")
    case True
    from "1.IH"[OF rd[symmetric] refl refl True, of t1 "ct2 \<or> d1"] True rd rd2 show ?thesis
      by (simp add: cpp_loop.simps[of mx flags s r] cpp_loop.simps[of mx' flags s2 r])
  next
    case False
    with rd rd2 show ?thesis
      by (simp add: cpp_loop.simps[of mx flags s r] cpp_loop.simps[of mx' flags s2 r])
  qed
qed

lemma cpp_loop_bound: "length s < mx \<Longrightarrow> length (fst (cpp_loop mx flags s r ct fp)) < mx"
proof (induction mx flags s r ct fp rule: cpp_loop.induct)
  case (1 mx flags s r ct fp)
  obtain s1 c1 r1 rest1 where rd: "cpp_round mx flags s r fp = (s1, c1, r1, rest1)" by (metis prod_cases4)
  note b = cpp_round_bound[OF rd "1.prems"]
  show ?case
    using "1.IH"[OF rd[symmetric] refl refl _ b] b rd
    by (simp add: cpp_loop.simps[of mx flags s r])
qed

text \<open>
  C37. \<open>binput_line\<close> stores the first \<open>max - 1\<close> bytes of the line that are not CR, steps over
  the whole line and its terminator whatever was stored, and reports a cut exactly when a byte
  was left out.
\<close>

theorem binput_line_spec:
  assumes "buff \<noteq> []" and "raw = takeWhile (\<lambda>c. c \<noteq> NUL \<and> c \<noteq> LF) buff"
  shows "binput_line buff mx =
     (take (mx - 1) (filter (\<lambda>c. c \<noteq> CR) raw), length raw + 1,
      mx - 1 < length (filter (\<lambda>c. c \<noteq> CR) raw))"
  using assms by (simp add: binput_line_eq Let_def line_stop_def)

theorem binput_line_spec_witness:
  "binput_line [CHR ''a'', CHR ''b'', CR, CHR ''c'', LF, CHR ''x''] 3 = (''ab'', 5, True)"
  by (subst binput_line_spec[OF _ refl]) simp_all

text \<open>
  A joined line that \<open>hts_readline_cpp\<close> does not report as cut is read whole: any larger
  buffer gives the same text and leaves the same rest of the file.
\<close>

theorem hts_readline_cpp_uncut:
  assumes "hts_readline_cpp mx flags fp = (s, False, rest)" and "mx \<le> mx'"
  shows "hts_readline_cpp mx' flags fp = (s, False, rest)"
  using assms unfolding hts_readline_cpp_def by (rule cpp_loop_wider)

theorem hts_readline_cpp_uncut_witness:
  "hts_readline_cpp 9 0 [CHR ''a'', BACKSLASH, LF, CHR '' '', CHR ''b'', LF] = (''ab'', False, [])"
  by (rule hts_readline_cpp_uncut[of 5])
    (simp_all add: hts_readline_cpp_def cpp_loop.simps cpp_round_def cpp_drop_def readline_trim_def
      readline_end_def scan_init_def scan_byte_def line_drops_def is_realspace_def is_taborspace_def
      trim_line_def Let_def)

text \<open>
  \<open>hts_readline_cpp\<close> stays inside its buffer, and how much of the file it consumes does not
  depend on the size of that buffer: the tail of a long line never becomes another line.
\<close>

theorem hts_readline_cpp_consumes:
  "(0 < mx \<longrightarrow> length (fst (hts_readline_cpp mx flags fp)) < mx) \<and>
   snd (snd (hts_readline_cpp mx flags fp)) = snd (snd (hts_readline_cpp mx' flags fp))"
  unfolding hts_readline_cpp_def using cpp_loop_bound[of "[]" mx] cpp_loop_skeleton by simp

theorem hts_readline_cpp_consumes_witness: "length (fst (hts_readline_cpp 3 0 ''abcdef'')) < 3"
  using hts_readline_cpp_consumes[of 3 0 "''abcdef''" 9] by simp

end
