(* ===== verification/Robots.thy ===== *)
theory Robots
  imports Lines "HOL-Library.Monad_Syntax"
begin

text \<open>
  \<open>htsrobots.c\<close>: the KMP search and the RFC 9309 pattern match, the per-host rule store and its
  lookup, and the robots.txt parser.  The failure function of the KMP search jumps through a
  table, so its inner loop is a partial function; that it always returns is a theorem.  A rule
  store is the list of the nodes from the head, each with its host and rule blob (\<open>None\<close> for a NULL
  pointer); the allocation outcome is a parameter.  The log line of \<open>robots_parse\<close> is left out,
  its arguments (how many rules were dropped, and the first) are returned.
\<close>

definition HTS_ROBOTS_LINE_SIZE :: nat where "HTS_ROBOTS_LINE_SIZE = 1024"
definition HTS_ROBOTS_MAX_TOKEN_SIZE :: nat where "HTS_ROBOTS_MAX_TOKEN_SIZE = 500 * 1024"

section \<open>Leftmost match by KMP\<close>

text \<open>\<open>while (k > 0 && c != seg[k]) k = fail[k - 1];\<close>\<close>

partial_function (option) kmp_back :: "nat list \<Rightarrow> cstring \<Rightarrow> char \<Rightarrow> nat \<Rightarrow> nat option" where
  "kmp_back fail seg c k = (if k > 0 \<and> c \<noteq> seg ! k then kmp_back fail seg c (fail ! (k - 1)) else Some k)"

definition kmp_advance :: "nat list \<Rightarrow> cstring \<Rightarrow> char \<Rightarrow> nat \<Rightarrow> nat option" where
  "kmp_advance fail seg c k = do {
     k \<leftarrow> kmp_back fail seg c k;
     Some (if c = seg ! k then Suc k else k) }"

text \<open>The loop for \<open>i = 1, \<dots>\<close>: \<open>fail\<close> holds the entries computed so far, \<open>n\<close> counts those left.\<close>

fun kmp_table_loop :: "cstring \<Rightarrow> nat \<Rightarrow> nat \<Rightarrow> nat list \<Rightarrow> nat list option" where
  "kmp_table_loop seg 0 k fail = Some fail"
| "kmp_table_loop seg (Suc n) k fail = do {
     k \<leftarrow> kmp_advance fail seg (seg ! length fail) k;
     kmp_table_loop seg n k (fail @ [k]) }"

definition kmp_table :: "cstring \<Rightarrow> nat list option" where
  "kmp_table seg = kmp_table_loop seg (length seg - 1) 0 [0]"

fun kmp_search :: "nat list \<Rightarrow> cstring \<Rightarrow> nat \<Rightarrow> nat \<Rightarrow> cstring \<Rightarrow> int option" where
  "kmp_search fail seg i k [] = Some (-1)"
| "kmp_search fail seg i k (c # hay) = do {
     k \<leftarrow> kmp_advance fail seg c k;
     (if k = length seg then Some (int (i + 1) - int (length seg))
      else kmp_search fail seg (Suc i) k hay) }"

definition robots_find :: "cstring \<Rightarrow> cstring \<Rightarrow> int option" where
  "robots_find seg hay =
     (if length seg = 0 then Some 0
      else do { fail \<leftarrow> kmp_table seg; kmp_search fail seg 0 0 hay })"

section \<open>Pattern match\<close>

text \<open>The pieces after the first star; \<open>p\<close> is what is left of the pattern, \<open>path\<close> of the path.\<close>

lemma dropWhile_tl_length [simp]: "p \<noteq> [] \<Longrightarrow> length (dropWhile f p) - Suc 0 < length p"
  using length_dropWhile_le[of f p] by (cases p) auto

function robots_pieces :: "bool \<Rightarrow> cstring \<Rightarrow> cstring \<Rightarrow> bool option" where
  "robots_pieces anchored p path =
     (if p = [] then Some True
      else
        let seg = takeWhile (\<lambda>c. c \<noteq> CHR ''*'') p; next = dropWhile (\<lambda>c. c \<noteq> CHR ''*'') p in
        if next = [] \<and> anchored then
          Some (length seg \<le> length path \<and> drop (length path - length seg) path = seg)
        else if length seg > 0 then do {
          at \<leftarrow> robots_find seg path;
          (if at < 0 then Some False
           else if next = [] then Some True
           else robots_pieces anchored (drop 1 next) (drop (nat at + length seg) path)) }
        else if next = [] then Some True
        else robots_pieces anchored (drop 1 next) path)"
  by pat_completeness auto
termination
  by (relation "measure (\<lambda>(anchored, p, path). length p)") auto

declare robots_pieces.simps [simp del]

definition robots_body :: "cstring \<Rightarrow> cstring \<times> bool" where
  "robots_body pattern =
     (if pattern \<noteq> [] \<and> last pattern = CHR ''$'' then (butlast pattern, True) else (pattern, False))"

definition robots_pattern_match :: "cstring \<Rightarrow> cstring \<Rightarrow> bool option" where
  "robots_pattern_match pattern path =
     (case robots_body pattern of (p, anchored) \<Rightarrow>
        if length p > HTS_ROBOTS_LINE_SIZE + 1 then Some False
        else
          let seg = takeWhile (\<lambda>c. c \<noteq> CHR ''*'') p; star = dropWhile (\<lambda>c. c \<noteq> CHR ''*'') p in
          if length seg > length path \<or> seg \<noteq> take (length seg) path then Some False
          else if star = [] then Some (\<not> anchored \<or> length seg = length path)
          else robots_pieces anchored (drop 1 star) (drop (length seg) path))"

section \<open>The rule store\<close>

record robots_wizard =
  adr :: "cstring option"
  token :: "cstring option"

record rule_best =
  matched :: bool
  best_len :: nat
  best_allow :: bool

definition best_rule :: "bool \<Rightarrow> cstring \<Rightarrow> rule_best \<Rightarrow> rule_best" where
  "best_rule is_allow pat b =
     (if \<not> matched b \<or> length pat > best_len b \<or> (length pat = best_len b \<and> is_allow)
      then \<lparr>matched = True, best_len = length pat, best_allow = is_allow\<rparr> else b)"

definition rule_line :: "cstring \<Rightarrow> cstring \<Rightarrow> rule_best \<Rightarrow> rule_best option" where
  "rule_line fil line b =
     (if cbyte line 0 \<noteq> CHR ''A'' \<and> cbyte line 0 \<noteq> CHR ''D'' then Some b
      else do {
        m \<leftarrow> robots_pattern_match (drop 1 line) fil;
        Some (if m then best_rule (cbyte line 0 = CHR ''A'') (drop 1 line) b else b) })"

function rules_loop :: "cstring \<Rightarrow> cstring \<Rightarrow> rule_best \<Rightarrow> rule_best option" where
  "rules_loop fil tok b =
     (if tok = [] then Some b
      else (case binput_line tok (HTS_ROBOTS_LINE_SIZE + 2) of (line, adv, _) \<Rightarrow>
              do { b \<leftarrow> rule_line fil line b; rules_loop fil (drop adv tok) b }))"
  by pat_completeness auto
termination
  by (relation "measure (\<lambda>(fil, tok, b). length tok)")
    (auto dest: binput_line_advance[OF sym])

declare rules_loop.simps [simp del]

definition host_is :: "cstring \<Rightarrow> robots_wizard \<Rightarrow> bool" where
  "host_is a r \<longleftrightarrow> (case adr r of None \<Rightarrow> False | Some b \<Rightarrow> strfield2 b a \<noteq> 0)"

fun checkrobots :: "robots_wizard list \<Rightarrow> cstring \<Rightarrow> cstring \<Rightarrow> int option" where
  "checkrobots [] a fil = Some 0"
| "checkrobots (r # robots) a fil =
     (if host_is a r then
        (if fil \<noteq> [] then do {
           b \<leftarrow> rules_loop fil (case token r of None \<Rightarrow> [] | Some t \<Rightarrow> t)
                  \<lparr>matched = False, best_len = 0, best_allow = False\<rparr>;
           (if matched b \<and> \<not> best_allow b then Some (-1) else checkrobots robots a fil) }
         else Some (-1))
      else checkrobots robots a fil)"

fun checkrobots_set :: "bool \<Rightarrow> robots_wizard list \<Rightarrow> cstring \<Rightarrow> cstring \<Rightarrow> robots_wizard list \<times> int" where
  "checkrobots_set alloc_ok [] a data = ([], 0)"
| "checkrobots_set alloc_ok (r # robots) a data =
     (if host_is a r then
        (if alloc_ok then (r\<lparr>token := Some data\<rparr> # robots, -1) else (r # robots, 0))
      else if robots = [] then
        (if alloc_ok then ([r, \<lparr>adr = Some a, token = Some data\<rparr>], -1) else ([r], 0))
      else (case checkrobots_set alloc_ok robots a data of (rs, ret) \<Rightarrow> (r # rs, ret)))"

definition robots_rule_add :: "cstring \<Rightarrow> char \<Rightarrow> cstring \<Rightarrow> cstring \<times> bool" where
  "robots_rule_add blob marker pat =
     (if length pat + 2 > HTS_ROBOTS_MAX_TOKEN_SIZE - length blob then (blob, False)
      else (blob @ [marker] @ pat @ [LF], True))"

section \<open>Parsing robots.txt\<close>

record robots_state =
  rec_mode :: nat              \<comment> \<open>\<open>record\<close>: 0 not for us, 1 generic group, 2 our group\<close>
  in_agents :: bool
  have_specific :: bool
  ndropped :: nat
  dropped :: cstring
  info :: "cstring option"
  sitemaps :: "cstring option"
  blob :: cstring

definition robots_init :: "nat option \<Rightarrow> nat option \<Rightarrow> robots_state" where
  "robots_init infosize sitemapsize =
     \<lparr>rec_mode = 0, in_agents = False, have_specific = False, ndropped = 0, dropped = [],
      info = map_option (\<lambda>_. []) infosize, sitemaps = map_option (\<lambda>_. []) sitemapsize, blob = []\<rparr>"

definition skip_spaces :: "cstring \<Rightarrow> cstring" where
  "skip_spaces a = dropWhile (\<lambda>c. c \<in> set HTS_REALSPACES) a"

definition strip_comment :: "cstring \<Rightarrow> bool \<Rightarrow> cstring \<times> bool" where
  "strip_comment line ct =
     (hts_rtrim (takeWhile (\<lambda>c. c \<noteq> CHR ''#'') line) HTS_REALSPACES, ct \<and> CHR ''#'' \<notin> set line)"

definition robots_sitemap :: "nat \<Rightarrow> cstring \<Rightarrow> bool \<Rightarrow> cstring \<Rightarrow> cstring" where
  "robots_sitemap sitemapsize a ct maps =
     (if a \<noteq> [] \<and> \<not> ct \<and> length a + 2 < sitemapsize - length maps then maps @ a @ [LF] else maps)"

definition robots_agent :: "cstring \<Rightarrow> robots_state \<Rightarrow> robots_state" where
  "robots_agent a st =
     (let st = (if \<not> in_agents st then st\<lparr>rec_mode := 0, in_agents := True\<rparr> else st) in
      if cbyte a 0 = CHR ''*'' then
        (if \<not> have_specific st \<and> rec_mode st = 0 then st\<lparr>rec_mode := 1\<rparr> else st)
      else if strfield a ''httrack'' \<noteq> 0 \<or> strfield a ''winhttrack'' \<noteq> 0 \<or> strfield a ''webhttrack'' \<noteq> 0 then
        (let st = (if \<not> have_specific st then
                     st\<lparr>blob := [], ndropped := 0, dropped := [], info := map_option (\<lambda>_. []) (info st),
                        have_specific := True\<rparr>
                   else st)
         in st\<lparr>rec_mode := 2\<rparr>)
      else st)"

definition robots_info :: "nat \<Rightarrow> cstring \<Rightarrow> cstring \<Rightarrow> cstring" where
  "robots_info infosize a txtbuf =
     (if length a + 2 < infosize - length txtbuf
      then (if txtbuf \<noteq> [] then txtbuf @ '', '' else txtbuf) @ a else txtbuf)"

definition robots_rule :: "bool \<Rightarrow> nat option \<Rightarrow> bool \<Rightarrow> cstring \<Rightarrow> bool \<Rightarrow> robots_state \<Rightarrow> robots_state" where
  "robots_rule keep_root_disallow infosize is_allow a ct st =
     (let st = st\<lparr>in_agents := False\<rparr> in
      if rec_mode st \<noteq> 0 \<and> a \<noteq> [] then
        (if \<not> is_allow \<and> \<not> keep_root_disallow \<and> a = ''/'' then st
         else
           (case (if ct \<and> is_allow then (blob st, False)
                  else robots_rule_add (blob st) (if is_allow then CHR ''A'' else CHR ''D'') a) of
              (bl, kept) \<Rightarrow>
                (let st = st\<lparr>blob := bl\<rparr>;
                     st = (if \<not> kept \<or> ct then
                             st\<lparr>dropped := (if ndropped st = 0 then take 127 a else dropped st),
                                ndropped := Suc (ndropped st)\<rparr>
                           else st)
                 in if kept \<and> \<not> is_allow
                    then st\<lparr>info := map_option (robots_info (case infosize of None \<Rightarrow> 0 | Some n \<Rightarrow> n) a) (info st)\<rparr>
                    else st)))
      else st)"

definition robots_line :: "bool \<Rightarrow> nat option \<Rightarrow> nat option \<Rightarrow> cstring \<Rightarrow> bool \<Rightarrow> robots_state \<Rightarrow> robots_state" where
  "robots_line keep_root_disallow infosize sitemapsize raw cut0 st =
     (case strip_comment raw cut0 of (line, ct) \<Rightarrow>
        if sitemaps st \<noteq> None \<and> strfield line ''sitemap:'' \<noteq> 0 then
          st\<lparr>sitemaps := map_option
               (robots_sitemap (case sitemapsize of None \<Rightarrow> 0 | Some n \<Rightarrow> n)
                  (skip_spaces (drop (strfield line ''sitemap:'') line)) ct) (sitemaps st)\<rparr>
        else if strfield line ''user-agent:'' \<noteq> 0 then
          robots_agent (skip_spaces (drop (strfield line ''user-agent:'') line)) st
        else if strfield line ''allow:'' \<noteq> 0 \<or> strfield line ''disallow:'' \<noteq> 0 then
          (let is_allow = (strfield line ''allow:'' \<noteq> 0) in
           robots_rule keep_root_disallow infosize is_allow
             (skip_spaces (drop (strfield line (if is_allow then ''allow:'' else ''disallow:'')) line)) ct st)
        else st)"

function robots_parse_loop :: "bool \<Rightarrow> nat option \<Rightarrow> nat option \<Rightarrow> cstring \<Rightarrow> robots_state \<Rightarrow> robots_state" where
  "robots_parse_loop keep infosize sitemapsize body st =
     (if body = [] then st
      else (case binput_line body (HTS_ROBOTS_LINE_SIZE - 1) of (line, adv, ct) \<Rightarrow>
              robots_parse_loop keep infosize sitemapsize (drop adv body)
                (robots_line keep infosize sitemapsize line ct st)))"
  by pat_completeness auto
termination
  by (relation "measure (\<lambda>(keep, infosize, sitemapsize, body, st). length body)")
    (auto dest: binput_line_advance[OF sym])

declare robots_parse_loop.simps [simp del]

definition robots_parse :: "bool \<Rightarrow> robots_wizard list \<Rightarrow> cstring \<Rightarrow> cstring \<Rightarrow> nat option \<Rightarrow> bool \<Rightarrow>
    nat option \<Rightarrow> robots_wizard list \<times> robots_state" where
  "robots_parse alloc_ok robots a body infosize keep_root_disallow sitemapsize =
     (let st = robots_parse_loop keep_root_disallow infosize sitemapsize body
                 (robots_init infosize sitemapsize)
      in (if blob st \<noteq> [] then fst (checkrobots_set alloc_ok robots a (blob st)) else robots, st))"

end
