(* ===== verification/RobotsMatch.thy ===== *)
theory RobotsMatch
  imports Robots
begin

text \<open>
  The matcher of \<open>htsrobots.c\<close>.  The state of the KMP automaton after a text is the longest
  prefix of the needle that ends the text (\<open>overlap\<close>); a failure table is right when its entry
  \<open>i\<close> is that state after \<open>seg[1 .. i]\<close>.  The search is then leftmost and total, and the greedy
  walk over the pieces of a pattern decides the declarative reading of RFC 9309 (\<open>rmatch\<close>).
\<close>

section \<open>The KMP automaton\<close>

definition overlap :: "cstring \<Rightarrow> cstring \<Rightarrow> nat \<Rightarrow> bool" where
  "overlap seg t k \<longleftrightarrow> k \<le> length seg \<and> suffix (take k seg) t \<and>
     (\<forall>j \<le> length seg. suffix (take j seg) t \<longrightarrow> j \<le> k)"

definition fail_ok :: "cstring \<Rightarrow> nat list \<Rightarrow> bool" where
  "fail_ok seg fail \<longleftrightarrow> (\<forall>i < length fail. overlap seg (tl (take (Suc i) seg)) (fail ! i))"

lemma suffix_tl_take:
  assumes "k < m" and "m \<le> length seg" and "suffix (take k seg) (take m seg)"
  shows "suffix (take k seg) (tl (take m seg))"
proof -
  obtain a t where m: "take m seg = a # t" using assms by (cases "take m seg") auto
  have "take k seg \<noteq> take m seg" using assms(1,2) by (auto dest!: arg_cong[of _ _ length])
  with assms(3) m show ?thesis by (simp add: suffix_Cons)
qed

lemma overlap_length: "overlap seg t k \<Longrightarrow> k \<le> length t"
  by (auto simp: overlap_def dest: suffix_length_le)

lemma overlap_tl_less: "overlap seg (tl (take (Suc i) seg)) k \<Longrightarrow> i < length seg \<Longrightarrow> k \<le> i"
  by (drule overlap_length) simp

lemma suffix_take_snoc:
  assumes "j < length seg"
  shows "suffix (take (Suc j) seg) (t @ [c]) \<longleftrightarrow> seg ! j = c \<and> suffix (take j seg) t"
  using assms by (simp add: take_Suc_conv_app_nth)

declare suffix_snoc [simp del]

lemma kmp_back_overlap:
  assumes "fail_ok seg fail" and "k < length seg" and "k \<le> length fail"
    and "suffix (take k seg) t"
    and "\<And>j. j \<le> length seg \<Longrightarrow> suffix (take j seg) (t @ [c]) \<Longrightarrow> j \<le> Suc k"
  shows "\<exists>k'. kmp_back fail seg c k = Some k' \<and> overlap seg (t @ [c]) (if c = seg ! k' then Suc k' else k')"
  using assms(2-)
proof (induction k rule: less_induct)
  case (less k)
  show ?case
  proof (cases "k > 0 \<and> c \<noteq> seg ! k")
    case False
    have no: "c = seg ! k" if "suffix (take (Suc k) seg) (t @ [c])"
      using that less.prems(1) by (simp add: suffix_take_snoc)
    have "overlap seg (t @ [c]) (if c = seg ! k then Suc k else k)"
    proof (cases "c = seg ! k")
      case True
      with less.prems show ?thesis by (simp add: overlap_def suffix_take_snoc)
    next
      case ne: False
      with False have k0: "k = 0" by simp
      have "j \<le> 0" if "j \<le> length seg" "suffix (take j seg) (t @ [c])" for j
        using less.prems(4)[OF that] that(2) no ne k0 by (cases j) auto
      with ne k0 show ?thesis by (simp add: overlap_def)
    qed
    with False show ?thesis by (subst kmp_back.simps) auto
  next
    case True
    let ?k = "fail ! (k - 1)"
    have o: "overlap seg (tl (take k seg)) ?k"
      using assms(1) True less.prems(2) by (auto simp: fail_ok_def dest!: spec[of _ "k - 1"])
    have lt: "?k < k"
      using overlap_tl_less[of seg "k - 1" ?k] o True less.prems(1) by fastforce
    have sfx: "suffix (take ?k seg) t"
      using o less.prems(3) unfolding overlap_def
      by (meson suffix_order.trans suffix_tl)
    have bound: "j \<le> Suc ?k" if j: "j \<le> length seg" "suffix (take j seg) (t @ [c])" for j
    proof (cases j)
      case (Suc i)
      with j have i: "seg ! i = c" "suffix (take i seg) t" "i < length seg"
        by (simp_all add: suffix_take_snoc)
      with less.prems(4)[OF j] Suc True have "i < k" by (cases "i = k") auto
      moreover from this i less.prems(1) have "suffix (take i seg) (take k seg)"
        by (intro suffix_length_suffix[OF i(2) less.prems(3)]) simp
      ultimately have "suffix (take i seg) (tl (take k seg))"
        using less.prems(1) by (intro suffix_tl_take) auto
      with o i(3) Suc show ?thesis by (simp add: overlap_def)
    qed simp
    from less.IH[OF lt _ _ sfx bound] lt less.prems(1,2) True show ?thesis
      by (subst kmp_back.simps) auto
  qed
qed

lemma kmp_advance_overlap:
  assumes "fail_ok seg fail" and "overlap seg t k" and "k < length seg" and "k \<le> length fail"
  shows "\<exists>k'. kmp_advance fail seg c k = Some k' \<and> overlap seg (t @ [c]) k'"
proof -
  have "j \<le> Suc k" if "j \<le> length seg" "suffix (take j seg) (t @ [c])" for j
    using that assms(2) by (cases j) (auto simp: suffix_take_snoc overlap_def)
  with kmp_back_overlap[OF assms(1,3,4), of t c] assms(2)
  obtain k' where "kmp_back fail seg c k = Some k'" "overlap seg (t @ [c]) (if c = seg ! k' then Suc k' else k')"
    by (auto simp: overlap_def)
  then show ?thesis by (simp add: kmp_advance_def)
qed

lemma kmp_table_loop_ok:
  assumes "fail_ok seg fail" and "length fail + n = length seg" and "fail \<noteq> []"
    and "overlap seg (tl (take (length fail) seg)) k"
  shows "\<exists>f. kmp_table_loop seg n k fail = Some f \<and> length f = length seg \<and> fail_ok seg f"
  using assms
proof (induction n arbitrary: k fail)
  case (Suc n)
  have k: "k < length fail" using overlap_length[OF Suc.prems(4)] Suc.prems(2,3) by (cases fail) auto
  let ?m = "length fail"
  have snoc: "tl (take ?m seg) @ [seg ! ?m] = tl (take (Suc ?m) seg)"
    using Suc.prems(2,3) by (cases "take ?m seg") (auto simp: take_Suc_conv_app_nth)
  from k Suc.prems obtain k' where k': "kmp_advance fail seg (seg ! ?m) k = Some k'"
    "overlap seg (tl (take (Suc ?m) seg)) k'"
    using kmp_advance_overlap[OF Suc.prems(1) Suc.prems(4), of "seg ! ?m"] snoc by auto
  have "fail_ok seg (fail @ [k'])"
    using Suc.prems(1) k'(2) by (auto simp: fail_ok_def nth_append less_Suc_eq)
  from Suc.IH[OF this] Suc.prems k' show ?case by simp
qed simp

lemma kmp_table_ok:
  "seg \<noteq> [] \<Longrightarrow> \<exists>f. kmp_table seg = Some f \<and> length f = length seg \<and> fail_ok seg f"
  unfolding kmp_table_def
  by (rule kmp_table_loop_ok) (auto simp: fail_ok_def overlap_def take_Suc neq_Nil_conv le_Suc_eq)

section \<open>Leftmost occurrence\<close>

text \<open>\<open>leftmost seg hay r\<close>: \<open>r\<close> is the first offset of \<open>seg\<close> in \<open>hay\<close>, or -1 when there is none.\<close>

definition occurs_at :: "cstring \<Rightarrow> cstring \<Rightarrow> nat \<Rightarrow> bool" where
  "occurs_at seg hay p \<longleftrightarrow> prefix seg (drop p hay)"

definition leftmost :: "cstring \<Rightarrow> cstring \<Rightarrow> int \<Rightarrow> bool" where
  "leftmost seg hay r \<longleftrightarrow>
     (if r < 0 then r = -1 \<and> (\<forall>p \<le> length hay. \<not> occurs_at seg hay p)
      else occurs_at seg hay (nat r) \<and> (\<forall>p < nat r. \<not> occurs_at seg hay p))"

lemma occurs_at_append:
  "p + length seg \<le> length t \<Longrightarrow> occurs_at seg (t @ u) p \<longleftrightarrow> occurs_at seg t p"
  by (auto simp: occurs_at_def prefix_def) (metis append_eq_append_conv_if append_take_drop_id length_drop le_add_diff_inverse2 diff_le_mono2 add.commute add_le_imp_le_diff append.assoc)

lemma occurs_at_end: "occurs_at seg t p \<Longrightarrow> seg \<noteq> [] \<Longrightarrow> p + length seg \<le> length t"
  by (auto simp: occurs_at_def dest!: prefix_length_le) (metis leD le_diff_conv linear neq_Nil_conv length_greater_0_conv list.distinct(1) diff_is_0_eq le_zero_eq le_add_diff_inverse2 add.commute)

lemma overlap_full: "overlap seg t k \<Longrightarrow> k < length seg \<Longrightarrow> \<not> suffix seg t"
  by (auto simp: overlap_def dest!: spec[of _ "length seg"])

lemma occurs_at_suffix:
  "p + length seg \<le> length t \<Longrightarrow> occurs_at seg t p \<longleftrightarrow> suffix seg (take (p + length seg) t)"
  by (auto simp: occurs_at_def prefix_def suffix_def take_add)
    (metis append_eq_append_conv append_eq_conv_conj length_drop length_take min.absorb2 le_add_diff_inverse2 add_le_imp_le_diff add.commute append_take_drop_id)+

lemma kmp_search_leftmost:
  assumes "fail_ok seg fail" and "length fail = length seg" and "seg \<noteq> []"
    and "overlap seg t k" and "k < length seg"
    and "\<forall>p. p + length seg \<le> length t \<longrightarrow> \<not> occurs_at seg t p"
  shows "\<exists>r. kmp_search fail seg (length t) k hay = Some r \<and> leftmost seg (t @ hay) r"
  using assms(4-)
proof (induction hay arbitrary: t k)
  case Nil
  then show ?case using occurs_at_end[of seg t] assms(3) by (auto simp: leftmost_def)
next
  case (Cons c hay)
  from kmp_advance_overlap[OF assms(1) Cons.prems(1,2), of c] Cons.prems(2) assms(2)
  obtain k' where k': "kmp_advance fail seg c k = Some k'" "overlap seg (t @ [c]) k'" by auto
  have early: "\<not> occurs_at seg (t @ c # hay) p" if "p + length seg \<le> length t" for p
    using Cons.prems(3) that by (simp add: occurs_at_append)
  show ?case
  proof (cases "k' = length seg")
    case True
    with k' have s: "suffix seg (t @ [c])" by (simp add: overlap_def)
    then have len: "length seg \<le> Suc (length t)" by (auto dest: suffix_length_le)
    let ?p = "Suc (length t) - length seg"
    have "occurs_at seg (t @ [c]) ?p" using s len by (subst occurs_at_suffix) auto
    then have "occurs_at seg (t @ c # hay) ?p"
      using occurs_at_append[of ?p seg "t @ [c]" hay] len by simp
    moreover have "\<not> occurs_at seg (t @ c # hay) p" if "p < ?p" for p
      using that early by simp
    moreover have "int (length t + 1) - int (length seg) = int ?p" using len by simp
    ultimately have "leftmost seg (t @ c # hay) (int (length t + 1) - int (length seg))"
      unfolding leftmost_def by (metis nat_int not_le of_nat_0_le_iff)
    with True k' show ?thesis by simp
  next
    case False
    with k' have lt: "k' < length seg" by (auto simp: overlap_def)
    have "\<not> occurs_at seg (t @ [c]) p" if "p + length seg \<le> length (t @ [c])" for p
    proof (cases "p + length seg \<le> length t")
      case True
      with Cons.prems(3) show ?thesis by (simp add: occurs_at_append)
    next
      case False
      with that have "p + length seg = length (t @ [c])" by simp
      with overlap_full[OF k'(2) lt] show ?thesis by (simp add: occurs_at_suffix)
    qed
    with Cons.IH[OF k'(2) lt] k' False show ?thesis by auto
  qed
qed

lemma robots_find_leftmost: "\<exists>r. robots_find seg hay = Some r \<and> leftmost seg hay r"
proof (cases "seg = []")
  case True
  then show ?thesis by (simp add: robots_find_def leftmost_def occurs_at_def)
next
  case False
  then obtain f where f: "kmp_table seg = Some f" "length f = length seg" "fail_ok seg f"
    using kmp_table_ok by blast
  have "overlap seg [] 0" by (auto simp: overlap_def)
  from kmp_search_leftmost[OF f(3,2) False this, of hay] False f(1) show ?thesis
    by (auto simp: robots_find_def)
qed

section \<open>The pattern language\<close>

text \<open>
  RFC 9309: a star stands for any run of bytes, every other byte for itself; the pattern has to
  match a prefix of the path, or all of it when it is anchored.
\<close>

fun rmatch :: "bool \<Rightarrow> cstring \<Rightarrow> cstring \<Rightarrow> bool" where
  "rmatch anchored [] path = (\<not> anchored \<or> path = [])"
| "rmatch anchored (c # p) path =
     (if c = CHR ''*'' then (\<exists>q \<in> set (suffixes path). rmatch anchored p q)
      else path \<noteq> [] \<and> hd path = c \<and> rmatch anchored p (tl path))"

definition gmatch :: "bool \<Rightarrow> cstring \<Rightarrow> cstring \<Rightarrow> bool" where
  "gmatch anchored p path \<longleftrightarrow> (\<exists>q. suffix q path \<and> rmatch anchored p q)"

lemma rmatch_star: "rmatch anchored (CHR ''*'' # p) path \<longleftrightarrow> gmatch anchored p path"
  by (auto simp: gmatch_def)

lemma gmatch_mono: "suffix a b \<Longrightarrow> gmatch anchored p a \<Longrightarrow> gmatch anchored p b"
  unfolding gmatch_def by (meson suffix_order.trans)

lemma rmatch_literal:
  "CHR ''*'' \<notin> set seg \<Longrightarrow>
     rmatch anchored (seg @ p) path \<longleftrightarrow> prefix seg path \<and> rmatch anchored p (drop (length seg) path)"
proof (induction seg arbitrary: path)
  case (Cons c seg)
  then show ?case by (cases path) auto
qed simp

lemma rmatch_plain:
  "CHR ''*'' \<notin> set seg \<Longrightarrow>
     rmatch anchored seg path \<longleftrightarrow> prefix seg path \<and> (anchored \<longrightarrow> length path \<le> length seg)"
  using rmatch_literal[of seg anchored "[]" path] by auto

lemma gmatch_Nil [simp]: "gmatch anchored [] path"
  unfolding gmatch_def by (rule exI[of _ "[]"]) simp

lemma gmatch_plain_anchored:
  "CHR ''*'' \<notin> set seg \<Longrightarrow> gmatch True seg path \<longleftrightarrow> suffix seg path"
  by (auto simp: gmatch_def rmatch_plain prefix_def)

lemma gmatch_leftmost:
  assumes "CHR ''*'' \<notin> set seg" and "leftmost seg path r" and "p = [] \<or> hd p = CHR ''*''"
    and "p = [] \<Longrightarrow> \<not> anchored"
  shows "gmatch anchored (seg @ p) path \<longleftrightarrow>
     0 \<le> r \<and> gmatch anchored (drop 1 p) (drop (nat r + length seg) path)"
proof -
  have tail: "rmatch anchored p q \<longleftrightarrow> gmatch anchored (drop 1 p) q" for q
    using assms(3,4) by (cases p) (auto simp: gmatch_def)
  show ?thesis
  proof
    assume "gmatch anchored (seg @ p) path"
    then obtain q where q: "suffix q path" "prefix seg q" "gmatch anchored (drop 1 p) (drop (length seg) q)"
      by (auto simp: gmatch_def rmatch_literal[OF assms(1)] tail)
    let ?n = "length path - length q"
    have qd: "q = drop ?n path" using q(1) by (rule suffix_drop_of_length)
    with q(2) have occ: "occurs_at seg path ?n" by (simp add: occurs_at_def)
    have r: "0 \<le> r" using assms(2) occ by (auto simp: leftmost_def split: if_splits)
    with assms(2) occ have "nat r \<le> ?n" by (auto simp: leftmost_def intro!: leI)
    then have "suffix (drop (length seg) q) (drop (nat r + length seg) path)"
      by (subst qd) (metis add.commute add_le_cancel_right drop_drop le_add_diff_inverse suffix_drop)
    with gmatch_mono q(3) r show "0 \<le> r \<and> gmatch anchored (drop 1 p) (drop (nat r + length seg) path)"
      by blast
  next
    assume *: "0 \<le> r \<and> gmatch anchored (drop 1 p) (drop (nat r + length seg) path)"
    with assms(2) have "prefix seg (drop (nat r) path)" by (simp add: leftmost_def occurs_at_def)
    with * tail have "rmatch anchored (seg @ p) (drop (nat r) path)"
      by (simp add: rmatch_literal[OF assms(1)] add.commute)
    then show "gmatch anchored (seg @ p) path" unfolding gmatch_def using suffix_drop by blast
  qed
qed

lemma star_split:
  "p = takeWhile (\<lambda>c. c \<noteq> CHR ''*'') p @ dropWhile (\<lambda>c. c \<noteq> CHR ''*'') p"
  "CHR ''*'' \<notin> set (takeWhile (\<lambda>c. c \<noteq> CHR ''*'') p)"
  "dropWhile (\<lambda>c. c \<noteq> CHR ''*'') p = [] \<or> hd (dropWhile (\<lambda>c. c \<noteq> CHR ''*'') p) = CHR ''*''"
  by (auto dest: set_takeWhileD) (use hd_dropWhile[of "\<lambda>c. c \<noteq> CHR ''*''" p] in auto)

lemma robots_pieces_gmatch: "robots_pieces anchored p path = Some (gmatch anchored p path)"
proof (induction anchored p path rule: robots_pieces.induct)
  case (1 anchored p path)
  define seg where "seg = takeWhile (\<lambda>c. c \<noteq> CHR ''*'') p"
  define rest where "rest = dropWhile (\<lambda>c. c \<noteq> CHR ''*'') p"
  have p: "p = seg @ rest" and seg: "CHR ''*'' \<notin> set seg" and rest: "rest = [] \<or> hd rest = CHR ''*''"
    unfolding seg_def rest_def by (rule star_split)+
  obtain r where r: "robots_find seg path = Some r" "leftmost seg path r"
    using robots_find_leftmost by blast
  note unfold = robots_pieces.simps[of anchored p path, folded seg_def rest_def, unfolded Let_def]
  consider "p = []" | "p \<noteq> []" "rest = []" "anchored" | "p \<noteq> []" "rest = [] \<Longrightarrow> \<not> anchored" by blast
  then show ?case
  proof cases
    case 2
    then show ?thesis
      using unfold p seg by (auto simp: gmatch_plain_anchored suffix_def)
        (metis append_take_drop_id)
  next
    case 3
    note g = gmatch_leftmost[OF seg r(2) rest 3(2)]
    show ?thesis
    proof (cases "seg = []")
      case True
      then have "r = 0"
        using r(2) by (auto simp: leftmost_def occurs_at_def split: if_splits dest: spec[of _ 0])
      with True g p "1.IH"(2)[OF 3(1) seg_def rest_def] 3 rest unfold show ?thesis
        by (cases "rest = []") auto
    next
      case False
      with g p "1.IH"(1)[OF 3(1) seg_def rest_def _ _ r(1)] 3 r unfold show ?thesis
        by (cases "rest = []"; cases "r < 0") auto
    qed
  qed (use unfold in simp)
qed

lemma robots_body_eq:
  "robots_body pattern = (p, anchored) \<Longrightarrow> pattern = p @ (if anchored then ''$'' else [])"
  by (auto simp: robots_body_def split: if_splits) (metis append_butlast_last_id)

text \<open>The declarative reading of a whole pattern.\<close>

definition rfc9309_match :: "cstring \<Rightarrow> cstring \<Rightarrow> bool" where
  "rfc9309_match pattern path = (case robots_body pattern of (p, anchored) \<Rightarrow> rmatch anchored p path)"

lemma robots_pattern_match_eq:
  assumes "length pattern \<le> HTS_ROBOTS_LINE_SIZE + 1"
  shows "robots_pattern_match pattern path = Some (rfc9309_match pattern path)"
proof -
  obtain p anchored where b: "robots_body pattern = (p, anchored)" by fastforce
  have len: "length p \<le> HTS_ROBOTS_LINE_SIZE + 1" using assms robots_body_eq[OF b] by simp
  define seg where "seg = takeWhile (\<lambda>c. c \<noteq> CHR ''*'') p"
  define rest where "rest = dropWhile (\<lambda>c. c \<noteq> CHR ''*'') p"
  have p: "p = seg @ rest" and seg: "CHR ''*'' \<notin> set seg" and rest: "rest = [] \<or> hd rest = CHR ''*''"
    unfolding seg_def rest_def by (rule star_split)+
  have pre: "length seg \<le> length path \<and> seg = take (length seg) path \<longleftrightarrow> prefix seg path"
    by (metis append_eq_conv_conj prefix_def prefix_length_le take_is_prefix)
  have m: "rmatch anchored p path \<longleftrightarrow> prefix seg path \<and>
      (if rest = [] then \<not> anchored \<or> length seg = length path
       else gmatch anchored (drop 1 rest) (drop (length seg) path))"
  proof (cases rest)
    case Nil
    with p seg show ?thesis by (auto simp: rmatch_plain dest: prefix_length_le)
  next
    case (Cons c cs)
    with p rest show ?thesis by (auto simp: rmatch_literal[OF seg] gmatch_def)
  qed
  show ?thesis
    unfolding robots_pattern_match_def b prod.case Let_def rfc9309_match_def m pre[symmetric]
    using len by (auto simp: robots_pieces_gmatch simp flip: seg_def rest_def)
qed

end
