(* ===== verification/RobotsRules.thy ===== *)
theory RobotsRules
  imports RobotsMatch
begin

text \<open>
  The rule blob and the host store of \<open>htsrobots.c\<close>.  A blob is the concatenation of the bytes
  of its rules (\<open>rule_blob\<close>); reading it back visits exactly those rules, and the best one decides
  what RFC 9309 forbids (\<open>forbids\<close>).  The store is used through the contract \<open>host_store\<close>: what a
  lookup returns after any sequence of updates.
\<close>

section \<open>Rules\<close>

type_synonym rule = "bool \<times> cstring"   \<comment> \<open>is it an Allow, and its pattern\<close>

definition rule_bytes :: "rule \<Rightarrow> cstring" where
  "rule_bytes r = (if fst r then CHR ''A'' else CHR ''D'') # snd r @ [LF]"

definition rule_blob :: "rule list \<Rightarrow> cstring" where
  "rule_blob rs = concat (map rule_bytes rs)"

definition rule_ok :: "rule \<Rightarrow> bool" where
  "rule_ok r \<longleftrightarrow> snd r \<noteq> [] \<and> length (snd r) \<le> HTS_ROBOTS_LINE_SIZE \<and>
     list_all (\<lambda>c. c \<noteq> NUL \<and> c \<noteq> LF \<and> c \<noteq> CR) (snd r)"

definition forbids :: "rule list \<Rightarrow> cstring \<Rightarrow> bool" where
  "forbids rs fil \<longleftrightarrow>
     (\<exists>d \<in> set rs. \<not> fst d \<and> rfc9309_match (snd d) fil \<and>
        (\<forall>a \<in> set rs. fst a \<and> rfc9309_match (snd a) fil \<longrightarrow> length (snd a) < length (snd d)))"

lemma rule_blob_simps [simp]:
  "rule_blob [] = []" "rule_blob (r # rs) = rule_bytes r @ rule_blob rs"
  "rule_blob (rs @ ss) = rule_blob rs @ rule_blob ss"
  by (simp_all add: rule_blob_def)

lemma rule_blob_Nil_iff [simp]: "rule_blob rs = [] \<longleftrightarrow> rs = []"
  by (cases rs) (simp_all add: rule_bytes_def)

text \<open>Reading one rule of a blob back.\<close>

lemma binput_line_rule:
  assumes "rule_ok r"
  shows "binput_line (rule_bytes r @ rest) (HTS_ROBOTS_LINE_SIZE + 2) =
    (butlast (rule_bytes r), length (rule_bytes r), False)"
proof -
  let ?mark = "if fst r then CHR ''A'' else CHR ''D''"
  have all: "\<forall>c \<in> set (?mark # snd r). \<not> line_stop c \<and> c \<noteq> CR"
    using assms by (auto simp: rule_ok_def line_stop_def list_all_iff)
  have raw: "takeWhile (\<lambda>c. \<not> line_stop c) (rule_bytes r @ rest) = ?mark # snd r"
    using takeWhile_append2[of "?mark # snd r" "\<lambda>c. \<not> line_stop c" "LF # rest"] all
    by (simp add: rule_bytes_def line_stop_def)
  have "filter (\<lambda>c. c \<noteq> CR) (?mark # snd r) = ?mark # snd r"
    using all by (intro filter_True) auto
  with raw assms show ?thesis
    by (subst binput_line_eq) (auto simp: rule_bytes_def rule_ok_def Let_def)
qed

definition rule_step :: "cstring \<Rightarrow> rule \<Rightarrow> rule_best \<Rightarrow> rule_best" where
  "rule_step fil r b = (if rfc9309_match (snd r) fil then best_rule (fst r) (snd r) b else b)"

lemma rule_line_step:
  "rule_ok r \<Longrightarrow> rule_line fil (butlast (rule_bytes r)) b = Some (rule_step fil r b)"
  by (auto simp: rule_line_def rule_bytes_def rule_ok_def rule_step_def robots_pattern_match_eq butlast_append)

lemma rules_loop_blob:
  "list_all rule_ok rs \<Longrightarrow> rules_loop fil (rule_blob rs) b = Some (fold (rule_step fil) rs b)"
proof (induction rs arbitrary: b)
  case Nil
  show ?case by (simp add: rules_loop.simps[of _ "[]"])
next
  case (Cons r rs)
  then have ok: "rule_ok r" and rest: "list_all rule_ok rs" by simp_all
  have ne: "rule_bytes r \<noteq> []" by (simp add: rule_bytes_def)
  show ?case
    using Cons.IH[OF rest] binput_line_rule[OF ok, of "rule_blob rs"] rule_line_step[OF ok, of fil b] ne
    by (simp add: rules_loop.simps[of fil "rule_bytes r @ rule_blob rs"])
qed

text \<open>What the scan has settled after the rules \<open>rs\<close>.\<close>

definition best_inv :: "cstring \<Rightarrow> rule list \<Rightarrow> rule_best \<Rightarrow> bool" where
  "best_inv fil rs b \<longleftrightarrow>
     (matched b \<longrightarrow> (\<exists>p. (best_allow b, p) \<in> set rs \<and> rfc9309_match p fil \<and> length p = best_len b)) \<and>
     (\<forall>(al, p) \<in> set rs. rfc9309_match p fil \<longrightarrow>
        matched b \<and> length p \<le> best_len b \<and> (al \<and> length p = best_len b \<longrightarrow> best_allow b))"

lemma best_inv_step: "best_inv fil rs b \<Longrightarrow> best_inv fil (rs @ [r]) (rule_step fil r b)"
proof -
  assume inv: "best_inv fil rs b"
  obtain al p where r: "r = (al, p)" by fastforce
  let ?win = "rfc9309_match p fil \<and> (\<not> matched b \<or> length p > best_len b \<or> (length p = best_len b \<and> al))"
  show ?thesis
  proof (cases ?win)
    case True
    then have "rule_step fil r b = \<lparr>matched = True, best_len = length p, best_allow = al\<rparr>"
      by (simp add: rule_step_def best_rule_def r)
    with True inv show ?thesis unfolding best_inv_def r by fastforce
  next
    case False
    then have "rule_step fil r b = b" by (auto simp: rule_step_def best_rule_def r)
    with False inv show ?thesis unfolding best_inv_def r by fastforce
  qed
qed

lemma best_inv_fold: "best_inv fil ss b \<Longrightarrow> best_inv fil (ss @ rs) (fold (rule_step fil) rs b)"
proof (induction rs arbitrary: ss b)
  case (Cons r rs)
  from Cons.IH[OF best_inv_step[OF Cons.prems]] show ?case by simp
qed simp

lemma best_inv_forbids:
  assumes "best_inv fil rs b"
  shows "matched b \<and> \<not> best_allow b \<longleftrightarrow> forbids rs fil"
proof
  assume "matched b \<and> \<not> best_allow b"
  with assms obtain p where p: "(False, p) \<in> set rs" "rfc9309_match p fil" "length p = best_len b"
    by (auto simp: best_inv_def)
  have "length q < length p" if "(True, q) \<in> set rs" "rfc9309_match q fil" for q
    using assms that p(3) \<open>matched b \<and> \<not> best_allow b\<close> by (fastforce simp: best_inv_def)
  with p show "forbids rs fil" unfolding forbids_def by (intro bexI[OF _ p(1)]) auto
next
  assume "forbids rs fil"
  then obtain d where d: "d \<in> set rs" "\<not> fst d" "rfc9309_match (snd d) fil"
    "\<forall>a \<in> set rs. fst a \<and> rfc9309_match (snd a) fil \<longrightarrow> length (snd a) < length (snd d)"
    by (auto simp: forbids_def)
  obtain p where "d = (False, p)" using d(2) by (cases d) auto
  with d have p: "(False, p) \<in> set rs" "rfc9309_match p fil"
    "\<And>q. (True, q) \<in> set rs \<Longrightarrow> rfc9309_match q fil \<Longrightarrow> length q < length p" by auto
  with assms show "matched b \<and> \<not> best_allow b" by (fastforce simp: best_inv_def)
qed

definition no_best :: rule_best where
  "no_best = \<lparr>matched = False, best_len = 0, best_allow = False\<rparr>"

lemma rules_loop_forbids:
  "list_all rule_ok rs \<Longrightarrow>
     \<exists>b. rules_loop fil (rule_blob rs) no_best = Some b \<and> (matched b \<and> \<not> best_allow b \<longleftrightarrow> forbids rs fil)"
  using best_inv_forbids[OF best_inv_fold[of fil "[]" no_best rs]] rules_loop_blob[of rs fil no_best]
  by (auto simp: best_inv_def no_best_def)

section \<open>The host store\<close>

locale host_store =
  fixes lookup :: "'s \<Rightarrow> 'k \<Rightarrow> 'v option" and put :: "'s \<Rightarrow> 'k \<Rightarrow> 'v \<Rightarrow> 's"
    and same :: "'k \<Rightarrow> 'k \<Rightarrow> bool" and key :: "'k \<Rightarrow> bool" and valid :: "'s \<Rightarrow> bool"
  assumes valid_put: "valid s \<Longrightarrow> key k \<Longrightarrow> valid (put s k v)"
    and lookup_put: "valid s \<Longrightarrow> key k \<Longrightarrow> key j \<Longrightarrow>
      lookup (put s k v) j = (if same k j then Some v else lookup s j)"
begin

definition puts :: "'s \<Rightarrow> ('k \<times> 'v) list \<Rightarrow> 's" where
  "puts s kvs = foldl (\<lambda>s (k, v). put s k v) s kvs"

lemma puts_snoc: "puts s (kvs @ [(k, v)]) = put (puts s kvs) k v"
  by (simp add: puts_def)

lemma valid_puts: "valid s \<Longrightarrow> \<forall>kv \<in> set kvs. key (fst kv) \<Longrightarrow> valid (puts s kvs)"
proof (induction kvs rule: rev_induct)
  case (snoc kv kvs)
  then show ?case by (cases kv) (simp add: puts_snoc valid_put)
qed (simp add: puts_def)

lemma lookup_puts:
  "valid s \<Longrightarrow> \<forall>kv \<in> set kvs. key (fst kv) \<Longrightarrow> key j \<Longrightarrow>
     lookup (puts s kvs) j =
       (case filter (\<lambda>kv. same (fst kv) j) kvs of [] \<Rightarrow> lookup s j | hit # hits \<Rightarrow> Some (snd (last (hit # hits))))"
proof (induction kvs rule: rev_induct)
  case (snoc kv kvs)
  obtain k v where kv: "kv = (k, v)" by fastforce
  have v: "valid (puts s kvs)" and k: "key k" using snoc.prems kv by (auto intro: valid_puts)
  have IH: "lookup (puts s kvs) j =
      (case filter (\<lambda>kv. same (fst kv) j) kvs of [] \<Rightarrow> lookup s j | hit # hits \<Rightarrow> Some (snd (last (hit # hits))))"
    using snoc by simp
  show ?case
    unfolding kv puts_snoc lookup_put[OF v k snoc.prems(3)] IH
    by (cases "filter (\<lambda>kv. same (fst kv) j) kvs") auto
qed (simp add: puts_def)

end

section \<open>The robots list is a host store\<close>

definition same_host :: "cstring \<Rightarrow> cstring \<Rightarrow> bool" where
  "same_host a b \<longleftrightarrow> list_all2 streql a b"

definition node_token :: "robots_wizard \<Rightarrow> cstring" where
  "node_token r = (case token r of None \<Rightarrow> [] | Some t \<Rightarrow> t)"

definition host_token :: "robots_wizard list \<Rightarrow> cstring \<Rightarrow> cstring option" where
  "host_token robots a = map_option node_token (find (host_is a) robots)"

definition apart :: "robots_wizard \<Rightarrow> robots_wizard \<Rightarrow> bool" where
  "apart r s \<longleftrightarrow> (\<forall>a b. adr r = Some a \<and> adr s = Some b \<longrightarrow> \<not> same_host a b)"

definition store_ok :: "robots_wizard list \<Rightarrow> bool" where
  "store_ok robots \<longleftrightarrow> robots \<noteq> [] \<and> sorted_wrt apart robots"

lemma same_host_sym: "same_host a b \<Longrightarrow> same_host b a"
  unfolding same_host_def by (rule list_all2_conv_all_nth[THEN iffD2]) (auto simp: list_all2_conv_all_nth intro: streql_sym)

lemma same_host_trans: "same_host a b \<Longrightarrow> same_host b c \<Longrightarrow> same_host a c"
  unfolding same_host_def by (rule list_all2_trans[of streql streql streql]) (auto intro: streql_trans)

lemma same_host_refl [simp]: "same_host a a"
  by (simp add: same_host_def list_all2_refl)

lemma host_is_iff: "a \<noteq> [] \<Longrightarrow> host_is a r \<longleftrightarrow> (\<exists>b. adr r = Some b \<and> same_host b a)"
  by (auto simp: host_is_def strfield2_eq same_host_def split: option.splits)

lemma same_host_Nil: "same_host a b \<Longrightarrow> a = [] \<longleftrightarrow> b = []"
  by (auto simp: same_host_def dest: list_all2_lengthD)

lemma host_is_cong:
  assumes "same_host a b" and "a \<noteq> []"
  shows "host_is a r \<longleftrightarrow> host_is b r"
  using same_host_trans[OF _ assms(1)] same_host_trans[OF _ same_host_sym[OF assms(1)]]
    same_host_Nil[OF assms(1)] assms(2)
  by (auto simp: host_is_iff)

lemma apart_not_host: "apart r s \<Longrightarrow> a \<noteq> [] \<Longrightarrow> host_is a r \<Longrightarrow> \<not> host_is a s"
  by (auto simp: host_is_iff apart_def dest: same_host_trans[OF _ same_host_sym])

lemma not_host_apart: "a \<noteq> [] \<Longrightarrow> \<not> host_is a r \<Longrightarrow> adr s = Some a \<Longrightarrow> apart r s"
  by (auto simp: host_is_iff apart_def)

text \<open>An update rewrites the node of the host, or appends one.\<close>

lemma checkrobots_set_eq:
  "robots \<noteq> [] \<Longrightarrow> checkrobots_set True robots a d =
     (if find (host_is a) robots = None then robots @ [\<lparr>adr = Some a, token = Some d\<rparr>]
      else takeWhile (\<lambda>r. \<not> host_is a r) robots @
        (hd (dropWhile (\<lambda>r. \<not> host_is a r) robots))\<lparr>token := Some d\<rparr> #
        tl (dropWhile (\<lambda>r. \<not> host_is a r) robots), -1)"
proof (induction robots)
  case (Cons r robots)
  then show ?case by (cases "robots = []") auto
qed simp

lemma checkrobots_set_no_memory: "checkrobots_set False robots a d = (robots, 0)"
  by (induction robots) auto

lemma find_split:
  "find P xs = Some x \<Longrightarrow> \<exists>us vs. xs = us @ x # vs \<and> P x \<and> (\<forall>u \<in> set us. \<not> P u)"
proof (induction xs)
  case (Cons y xs)
  show ?case
  proof (cases "P y")
    case False
    with Cons obtain us vs where "xs = us @ x # vs" "P x" "\<forall>u \<in> set us. \<not> P u" by auto
    with False have "y # xs = (y # us) @ x # vs \<and> P x \<and> (\<forall>u \<in> set (y # us). \<not> P u)" by simp
    then show ?thesis by blast
  next
    case True
    with Cons.prems have "y # xs = [] @ x # xs \<and> P x" by auto
    then show ?thesis by fastforce
  qed
qed simp

lemma find_skip: "\<forall>u \<in> set us. \<not> P u \<Longrightarrow> find P (us @ xs) = find P xs"
  by (induction us) auto

lemma find_other: "\<not> P r \<Longrightarrow> find P (us @ r # xs) = find P (us @ xs)"
  by (induction us) auto

lemma store_split:
  assumes "find (host_is a) robots = Some r"
  obtains xs ys where "robots = xs @ r # ys" "host_is a r" "\<forall>x \<in> set xs. \<not> host_is a x"
    "fst (checkrobots_set True robots a d) = xs @ r\<lparr>token := Some d\<rparr> # ys"
proof -
  from find_split[OF assms] obtain xs ys where s: "robots = xs @ r # ys" "host_is a r"
    "\<forall>x \<in> set xs. \<not> host_is a x" by blast
  moreover from s have "takeWhile (\<lambda>r. \<not> host_is a r) robots = xs"
    "dropWhile (\<lambda>r. \<not> host_is a r) robots = r # ys" by (simp_all add: takeWhile_append2 dropWhile_append2)
  ultimately show thesis using that assms by (simp add: checkrobots_set_eq)
qed

lemma host_is_token [simp]: "host_is a (r\<lparr>token := t\<rparr>) = host_is a r"
  by (simp add: host_is_def)

lemma apart_token [simp]:
  "apart (r\<lparr>token := t\<rparr>) s = apart r s" "apart s (r\<lparr>token := t\<rparr>) = apart s r"
  by (simp_all add: apart_def)

lemma checkrobots_set_new:
  "robots \<noteq> [] \<Longrightarrow> find (host_is a) robots = None \<Longrightarrow>
     fst (checkrobots_set True robots a d) = robots @ [\<lparr>adr = Some a, token = Some d\<rparr>]"
  by (simp add: checkrobots_set_eq)

lemma store_ok_set:
  assumes "store_ok robots" and "a \<noteq> []"
  shows "store_ok (fst (checkrobots_set True robots a d))"
proof (cases "find (host_is a) robots")
  case None
  then have "\<forall>r \<in> set robots. apart r \<lparr>adr = Some a, token = Some d\<rparr>"
    using assms(2) by (auto simp: find_None_iff intro: not_host_apart)
  with None assms show ?thesis by (simp add: checkrobots_set_new store_ok_def sorted_wrt_append)
next
  case (Some r)
  then obtain xs ys where "robots = xs @ r # ys"
    "fst (checkrobots_set True robots a d) = xs @ r\<lparr>token := Some d\<rparr> # ys"
    by (rule store_split)
  with assms show ?thesis by (simp add: store_ok_def sorted_wrt_append)
qed

lemma host_token_set:
  assumes "store_ok robots" and "a \<noteq> []" and "b \<noteq> []"
  shows "host_token (fst (checkrobots_set True robots a d)) b =
    (if same_host a b then Some d else host_token robots b)"
proof (cases "find (host_is a) robots")
  case None
  have new: "host_is b \<lparr>adr = Some a, token = Some d\<rparr> \<longleftrightarrow> same_host a b" using assms(3) by (simp add: host_is_iff)
  have set: "fst (checkrobots_set True robots a d) = robots @ [\<lparr>adr = Some a, token = Some d\<rparr>]"
    using assms(1) None by (simp add: checkrobots_set_new store_ok_def)
  show ?thesis
  proof (cases "same_host a b")
    case True
    with None host_is_cong[OF True assms(2)] have "\<forall>r \<in> set robots. \<not> host_is b r"
      by (simp add: find_None_iff)
    with True new show ?thesis unfolding set by (simp add: host_token_def find_skip node_token_def)
  next
    case False
    with new show ?thesis unfolding set host_token_def by (simp add: find_other)
  qed
next
  case (Some r)
  then obtain xs ys where r: "robots = xs @ r # ys" "host_is a r" "\<forall>x \<in> set xs. \<not> host_is a x"
    and set: "fst (checkrobots_set True robots a d) = xs @ r\<lparr>token := Some d\<rparr> # ys"
    by (rule store_split)
  show ?thesis
  proof (cases "same_host a b")
    case True
    with r host_is_cong[OF True assms(2)] show ?thesis
      unfolding set by (simp add: host_token_def find_skip node_token_def)
  next
    case False
    then have "\<not> host_is b r" using r(2) assms(2,3)
      by (auto simp: host_is_iff dest: same_host_trans[OF same_host_sym])
    with False r(1) show ?thesis
      unfolding set by (simp add: host_token_def find_other)
  qed
qed

interpretation robots: host_store host_token "\<lambda>s a d. fst (checkrobots_set True s a d)" same_host
  "\<lambda>a. a \<noteq> []" store_ok
  by unfold_locales (auto simp: store_ok_set host_token_set)

text \<open>With one node per host, a check reads the rules of that node.\<close>

lemma checkrobots_other: "\<forall>r \<in> set robots. \<not> host_is a r \<Longrightarrow> checkrobots robots a fil = Some 0"
  by (induction robots) auto

lemma checkrobots_skip:
  "\<forall>r \<in> set xs. \<not> host_is a r \<Longrightarrow> checkrobots (xs @ robots) a fil = checkrobots robots a fil"
  by (induction xs) auto

lemma checkrobots_token:
  assumes "store_ok robots" and "a \<noteq> []"
  shows "checkrobots robots a fil =
    (case host_token robots a of None \<Rightarrow> Some 0
     | Some t \<Rightarrow> if fil = [] then Some (-1)
                 else map_option (\<lambda>b. if matched b \<and> \<not> best_allow b then -1 else 0) (rules_loop fil t no_best))"
proof (cases "find (host_is a) robots")
  case None
  then have "\<forall>r \<in> set robots. \<not> host_is a r" by (auto simp: find_None_iff)
  with None show ?thesis by (simp add: host_token_def checkrobots_other)
next
  case (Some r)
  then obtain xs ys where r: "robots = xs @ r # ys" "host_is a r" "\<forall>x \<in> set xs. \<not> host_is a x"
    by (rule store_split)
  have "\<forall>y \<in> set ys. \<not> host_is a y"
    using assms r(1,2) by (auto simp: store_ok_def sorted_wrt_append dest: apart_not_host[OF _ assms(2) r(2)])
  then have "checkrobots ys a fil = Some 0" by (rule checkrobots_other)
  with r Some show ?thesis
    by (auto simp: checkrobots_skip host_token_def node_token_def no_best_def
        split: option.splits Option.bind_splits)
qed

end
