(* ===== verification/RobotsParse.thy ===== *)
theory RobotsParse
  imports RobotsRules
begin

text \<open>
  The parser of \<open>htsrobots.c\<close> against RFC 9309.  A body is a list of lines, each an event: a
  user-agent, a rule, or neither.  The reference reading cuts the events into groups, a run of
  user-agents followed by a run of rules, and keeps the rules of the groups that name httrack, or
  of the generic groups when no group does.  The state of the code after any number of lines is
  tied to that reading by an invariant on whole groups.
\<close>

section \<open>Lines and events\<close>

datatype event = Agent cstring | Rule bool cstring bool | Other

definition event_of :: "cstring \<Rightarrow> bool \<Rightarrow> event" where
  "event_of raw cut0 =
     (case strip_comment raw cut0 of (line, ct) \<Rightarrow>
        if strfield line ''sitemap:'' \<noteq> 0 then Other
        else if strfield line ''user-agent:'' \<noteq> 0 then
          Agent (skip_spaces (drop (strfield line ''user-agent:'') line))
        else if strfield line ''allow:'' \<noteq> 0 then
          Rule True (skip_spaces (drop (strfield line ''allow:'') line)) ct
        else if strfield line ''disallow:'' \<noteq> 0 then
          Rule False (skip_spaces (drop (strfield line ''disallow:'') line)) ct
        else Other)"

function body_lines :: "cstring \<Rightarrow> (cstring \<times> bool) list" where
  "body_lines body =
     (if body = [] then []
      else (case binput_line body (HTS_ROBOTS_LINE_SIZE - 1) of (line, adv, ct) \<Rightarrow>
              (line, ct) # body_lines (drop adv body)))"
  by pat_completeness auto
termination
  by (relation "measure length") (auto dest: binput_line_advance[OF sym])

declare body_lines.simps [simp del]

lemma robots_parse_loop_lines:
  "robots_parse_loop keep infosize sitemapsize body st =
     fold (\<lambda>(line, ct). robots_line keep infosize sitemapsize line ct) (body_lines body) st"
proof (induction body arbitrary: st rule: body_lines.induct)
  case (1 body)
  show ?case
  proof (cases "body = []")
    case False
    obtain line adv ct where l: "binput_line body (HTS_ROBOTS_LINE_SIZE - 1) = (line, adv, ct)" by (metis prod_cases3)
    from "1.IH"[OF False l[symmetric] refl] l False show ?thesis
      by (simp add: robots_parse_loop.simps[of _ _ _ body] body_lines.simps[of body])
  qed (simp add: robots_parse_loop.simps[of _ _ _ "[]"] body_lines.simps[of "[]"])
qed

definition names_us :: "cstring \<Rightarrow> bool" where
  "names_us a \<longleftrightarrow> cbyte a 0 \<noteq> CHR ''*'' \<and>
     (strfield a ''httrack'' \<noteq> 0 \<or> strfield a ''winhttrack'' \<noteq> 0 \<or> strfield a ''webhttrack'' \<noteq> 0)"

definition names_all :: "cstring \<Rightarrow> bool" where
  "names_all a \<longleftrightarrow> cbyte a 0 = CHR ''*''"

text \<open>The rules a rule line contributes: an empty one none, a cut Allow none, and \<open>Disallow: /\<close>
  only when the option keeps it.\<close>

definition line_rules :: "bool \<Rightarrow> bool \<Rightarrow> cstring \<Rightarrow> bool \<Rightarrow> rule list" where
  "line_rules keep is_allow a ct =
     (if a = [] \<or> (\<not> is_allow \<and> \<not> keep \<and> a = ''/'') \<or> (ct \<and> is_allow) then [] else [(is_allow, a)])"

section \<open>The reference reading\<close>

fun is_agent :: "event \<Rightarrow> bool" where
  "is_agent (Agent a) = True" | "is_agent _ = False"

fun is_rule :: "event \<Rightarrow> bool" where
  "is_rule (Rule al a ct) = True" | "is_rule _ = False"

fun agent_name :: "event \<Rightarrow> cstring" where
  "agent_name (Agent a) = a" | "agent_name _ = []"

fun event_rules :: "bool \<Rightarrow> event \<Rightarrow> rule list" where
  "event_rules keep (Rule al a ct) = line_rules keep al a ct" | "event_rules keep _ = []"

text \<open>A group: the values of its user-agent lines and its rules.\<close>

type_synonym group = "cstring list \<times> rule list"

function groups :: "bool \<Rightarrow> event list \<Rightarrow> group list" where
  "groups keep [] = []"
| "groups keep (e # es) =
     (if is_agent e then
        (map agent_name (takeWhile is_agent (e # es)),
         concat (map (event_rules keep) (takeWhile is_rule (dropWhile is_agent es))))
        # groups keep (dropWhile is_rule (dropWhile is_agent es))
      else groups keep es)"
  by pat_completeness auto
termination
  by (relation "measure (\<lambda>(keep, es). length es)")
    (auto intro: le_imp_less_Suc order_trans[OF length_dropWhile_le] length_dropWhile_le)

definition group_rules :: "group list \<Rightarrow> rule list" where
  "group_rules gs =
     (let us = filter (\<lambda>g. \<exists>a \<in> set (fst g). names_us a) gs in
      if us \<noteq> [] then concat (map snd us)
      else concat (map snd (filter (\<lambda>g. \<exists>a \<in> set (fst g). names_all a) gs)))"

section \<open>The code as a machine on events\<close>

record machine =
  mode :: nat
  agents :: bool
  specific :: bool
  rules :: "rule list"

definition step_agent :: "cstring \<Rightarrow> machine \<Rightarrow> machine" where
  "step_agent a m =
     (let m = (if \<not> agents m then m\<lparr>mode := 0, agents := True\<rparr> else m) in
      if names_all a then (if \<not> specific m \<and> mode m = 0 then m\<lparr>mode := 1\<rparr> else m)
      else if names_us a then
        (if \<not> specific m then m\<lparr>rules := [], specific := True, mode := 2\<rparr> else m\<lparr>mode := 2\<rparr>)
      else m)"

fun step :: "bool \<Rightarrow> event \<Rightarrow> machine \<Rightarrow> machine" where
  "step keep (Agent a) m = step_agent a m"
| "step keep (Rule al a ct) m =
     m\<lparr>agents := False, rules := (if mode m \<noteq> 0 then rules m @ line_rules keep al a ct else rules m)\<rparr>"
| "step keep Other m = m"

definition abs :: "robots_state \<Rightarrow> machine \<Rightarrow> bool" where
  "abs st m \<longleftrightarrow> rec_mode st = mode m \<and> in_agents st = agents m \<and> have_specific st = specific m \<and>
     blob st = rule_blob (rules m)"

lemma robots_agent_abs: "abs st m \<Longrightarrow> abs (robots_agent a st) (step_agent a m)"
  by (auto simp: abs_def robots_agent_def step_agent_def names_us_def names_all_def Let_def)

lemma robots_rule_abs:
  assumes "abs st m" and "length (blob st) + length a + 2 \<le> HTS_ROBOTS_MAX_TOKEN_SIZE"
  shows "abs (robots_rule keep infosize is_allow a ct st) (step keep (Rule is_allow a ct) m)"
  using assms
  by (auto simp: abs_def robots_rule_def robots_rule_add_def line_rules_def rule_bytes_def Let_def)

lemma line_kinds:
  "strfield line ''sitemap:'' \<noteq> 0 \<Longrightarrow> strfield line ''user-agent:'' = 0 \<and>
     strfield line ''allow:'' = 0 \<and> strfield line ''disallow:'' = 0"
  by (cases line) (auto simp: strfield_eq streql_def hichar_def)

lemma strip_comment_length: "strip_comment raw c0 = (line, ct) \<Longrightarrow> length line \<le> length raw"
  using length_dropWhile_le[of "\<lambda>c. c \<in> set HTS_REALSPACES" "rev (takeWhile (\<lambda>c. c \<noteq> CHR ''#'') raw)"]
    length_takeWhile_le[of "\<lambda>c. c \<noteq> CHR ''#''" raw]
  by (auto simp: strip_comment_def hts_rtrim_eq)

lemma field_value_length:
  "strfield line f \<noteq> 0 \<Longrightarrow> length (skip_spaces (drop (strfield line f) line)) + length f \<le> length line"
  using length_dropWhile_le[of "\<lambda>c. c \<in> set HTS_REALSPACES" "drop (length f) line"]
  by (auto simp: skip_spaces_def strfield_eq split: if_splits)

lemma robots_line_abs:
  assumes "abs st m" and "length (blob st) + length raw \<le> HTS_ROBOTS_MAX_TOKEN_SIZE"
  shows "abs (robots_line keep infosize sitemapsize raw ct st) (step keep (event_of raw ct) m)"
proof -
  obtain line ct' where s: "strip_comment raw ct = (line, ct')" by fastforce
  have cap: "length (blob st) + length (skip_spaces (drop (strfield line f) line)) + 2 \<le> HTS_ROBOTS_MAX_TOKEN_SIZE"
    if "strfield line f \<noteq> 0" "2 \<le> length f" for f
    using field_value_length[OF that(1)] strip_comment_length[OF s] assms(2) that(2) by simp
  show ?thesis
  proof (cases "strfield line ''sitemap:'' = 0")
    case False
    with line_kinds[OF False] assms(1) s show ?thesis
      by (simp add: robots_line_def event_of_def abs_def)
  next
    case True
    with s robots_agent_abs[OF assms(1)] robots_rule_abs[OF assms(1) cap] assms(1) show ?thesis
      by (auto simp: robots_line_def event_of_def Let_def)
  qed
qed

lemma robots_rule_blob: "length (blob (robots_rule keep infosize al a ct st)) \<le> length (blob st) + length a + 2"
  by (auto simp: robots_rule_def robots_rule_add_def Let_def)

lemma robots_line_blob:
  "length (blob (robots_line keep infosize sitemapsize raw ct st)) \<le> length (blob st) + length raw"
proof -
  obtain line ct' where s: "strip_comment raw ct = (line, ct')" by fastforce
  have r: "length (blob (robots_rule keep infosize al (skip_spaces (drop (strfield line f) line)) ct' st))
      \<le> length (blob st) + length raw" if "strfield line f \<noteq> 0" "2 \<le> length f" for f al
    using robots_rule_blob[of keep infosize al "skip_spaces (drop (strfield line f) line)" ct' st]
      field_value_length[OF that(1)] strip_comment_length[OF s] that(2) by linarith
  show ?thesis
    using s by (auto simp: robots_line_def robots_agent_def Let_def intro!: r)
qed

section \<open>Machine and groups\<close>

lemma body_lines_length: "sum_list (map (length \<circ> fst) (body_lines body)) \<le> length body"
proof (induction body rule: body_lines.induct)
  case (1 body)
  show ?case
  proof (cases "body = []")
    case False
    let ?raw = "takeWhile (\<lambda>c. \<not> line_stop c) body"
    obtain line adv ct where l: "binput_line body (HTS_ROBOTS_LINE_SIZE - 1) = (line, adv, ct)" by (metis prod_cases3)
    then have la: "line = take (HTS_ROBOTS_LINE_SIZE - 2) (filter (\<lambda>c. c \<noteq> CR) ?raw)" "adv = length ?raw + 1"
      using False by (simp_all add: binput_line_eq Let_def numeral_2_eq_2)
    then have "length line \<le> length ?raw"
      using length_filter_le[of "\<lambda>c. c \<noteq> CR" ?raw] by (simp add: min.coboundedI1)
    note la(2) this
    moreover have "length ?raw \<le> length body" by (rule length_takeWhile_le)
    ultimately show ?thesis
      using "1.IH"[OF False l[symmetric] refl] l False by (simp add: body_lines.simps[of body])
  qed (simp add: body_lines.simps[of "[]"])
qed

lemma parse_lines_abs:
  assumes "abs st m" and "length (blob st) + sum_list (map (length \<circ> fst) lines) \<le> HTS_ROBOTS_MAX_TOKEN_SIZE"
  shows "abs (fold (\<lambda>(line, ct). robots_line keep infosize sitemapsize line ct) lines st)
    (fold (step keep) (map (\<lambda>(line, ct). event_of line ct) lines) m)"
  using assms
proof (induction lines arbitrary: st m)
  case (Cons l lines)
  obtain line ct where l: "l = (line, ct)" by fastforce
  show ?case
    using Cons.IH[OF robots_line_abs[OF Cons.prems(1)]]
      robots_line_blob[of keep infosize sitemapsize line ct st] Cons.prems(2)
    by (simp add: l)
qed simp

lemma fold_step_Other: "fold (step keep) es m = fold (step keep) (filter (\<lambda>e. e \<noteq> Other) es) m"
  by (induction es arbitrary: m) auto

lemma step_agents_run:
  "list_all is_agent es \<Longrightarrow> agents m \<Longrightarrow>
     fold (step keep) es m =
       (let names = map agent_name es; us = (\<exists>a \<in> set names. names_us a) in
        m\<lparr>mode := (if us then 2 else if \<not> specific m \<and> mode m = 0 \<and> (\<exists>a \<in> set names. names_all a) then 1
                  else mode m),
          specific := specific m \<or> us,
          rules := (if us \<and> \<not> specific m then [] else rules m)\<rparr>)"
proof (induction es arbitrary: m)
  case (Cons e es)
  then obtain a where e: "e = Agent a" by (cases e) auto
  have x: "\<not> names_us a" if "names_all a" using that by (simp add: names_us_def names_all_def)
  show ?case
    using Cons x by (auto simp: e step_agent_def Let_def)
qed (simp add: Let_def)

lemma step_rules_run:
  "list_all is_rule es \<Longrightarrow> es \<noteq> [] \<Longrightarrow>
     fold (step keep) es m =
       m\<lparr>agents := False,
         rules := (if mode m \<noteq> 0 then rules m @ concat (map (event_rules keep) es) else rules m)\<rparr>"
proof (induction es arbitrary: m)
  case (Cons e es)
  then obtain al a ct where e: "e = Rule al a ct" by (cases e) auto
  show ?case using Cons by (cases "es = []") (auto simp: e)
qed simp

definition group_us :: "group \<Rightarrow> bool" where
  "group_us g \<longleftrightarrow> (\<exists>a \<in> set (fst g). names_us a)"

definition group_all :: "group \<Rightarrow> bool" where
  "group_all g \<longleftrightarrow> (\<exists>a \<in> set (fst g). names_all a)"

lemma group_rules_snoc:
  "group_rules (gs @ [g]) =
     (if group_us g then (if \<exists>h \<in> set gs. group_us h then group_rules gs else []) @ snd g
      else if (\<exists>h \<in> set gs. group_us h) \<or> \<not> group_all g then group_rules gs
      else group_rules gs @ snd g)"
  by (auto simp: group_rules_def group_us_def[abs_def] group_all_def[abs_def] Let_def filter_empty_conv)

definition boundary :: "group list \<Rightarrow> machine \<Rightarrow> bool" where
  "boundary gs m \<longleftrightarrow> \<not> agents m \<and> (specific m \<longleftrightarrow> (\<exists>g \<in> set gs. group_us g)) \<and> rules m = group_rules gs"

lemma machine_group:
  fixes keep :: bool
  assumes "boundary gs m" and "list_all is_agent as" and "as \<noteq> []" and "list_all is_rule rs"
  defines "g \<equiv> (map agent_name as, concat (map (event_rules keep) rs))"
  shows "rules (fold (step keep) (as @ rs) m) = group_rules (gs @ [g])"
    and "rs \<noteq> [] \<Longrightarrow> boundary (gs @ [g]) (fold (step keep) (as @ rs) m)"
proof -
  obtain a as' where as: "as = Agent a # as'" using assms(2,3) by (cases as; cases "hd as") auto
  let ?m0 = "m\<lparr>mode := 0, agents := True\<rparr>"
  have first: "fold (step keep) as m = fold (step keep) as ?m0"
    using assms(1) by (simp add: as step_agent_def boundary_def)
  have run: "fold (step keep) as m =
      ?m0\<lparr>mode := (if group_us g then 2 else if \<not> specific m \<and> group_all g then 1 else 0),
          specific := specific m \<or> group_us g,
          rules := (if group_us g \<and> \<not> specific m then [] else rules m)\<rparr>"
    unfolding first using step_agents_run[OF assms(2), of ?m0 keep]
    by (simp add: Let_def g_def group_us_def group_all_def)
  have all: "fold (step keep) (as @ rs) m = fold (step keep) rs (fold (step keep) as m)" by simp
  show "rules (fold (step keep) (as @ rs) m) = group_rules (gs @ [g])"
    using assms(1) step_rules_run[OF assms(4), of keep "fold (step keep) as m"]
    unfolding all by (cases "rs = []") (auto simp: run group_rules_snoc boundary_def g_def)
  then show "boundary (gs @ [g]) (fold (step keep) (as @ rs) m)" if "rs \<noteq> []"
    using assms(1) step_rules_run[OF assms(4) that, of keep "fold (step keep) as m"]
    unfolding all boundary_def by (auto simp: run)
qed

lemma empty_run: "r = [] \<or> P (hd r) \<Longrightarrow> takeWhile P r = [] \<Longrightarrow> dropWhile P r = []"
  by (cases r) auto

lemma after_agents: "Other \<notin> set es \<Longrightarrow> dropWhile is_agent es = [] \<or> is_rule (hd (dropWhile is_agent es))"
proof (induction es)
  case (Cons e es)
  then show ?case by (cases e) auto
qed simp

lemma after_rules: "Other \<notin> set es \<Longrightarrow> dropWhile is_rule es = [] \<or> is_agent (hd (dropWhile is_rule es))"
proof (induction es)
  case (Cons e es)
  then show ?case by (cases e) auto
qed simp

lemma machine_groups:
  "boundary gs m \<Longrightarrow> Other \<notin> set es \<Longrightarrow> mode m = 0 \<or> es = [] \<or> is_agent (hd es) \<Longrightarrow>
     rules (fold (step keep) es m) = group_rules (gs @ groups keep es)"
proof (induction keep es arbitrary: gs m rule: groups.induct)
  case (1 keep)
  then show ?case by (simp add: boundary_def)
next
  case (2 keep e es)
  show ?case
  proof (cases "is_agent e")
    case False
    with "2.prems" obtain al a ct where e: "e = Rule al a ct" by (cases e) auto
    have m0: "mode m = 0" using "2.prems"(3) False by simp
    have same: "step keep e m = m\<lparr>agents := False\<rparr>" using m0 by (simp add: e)
    have b: "boundary gs (m\<lparr>agents := False\<rparr>)" using "2.prems"(1) by (simp add: boundary_def)
    have es: "Other \<notin> set es" using "2.prems"(2) by simp
    have "rules (fold (step keep) es (m\<lparr>agents := False\<rparr>)) = group_rules (gs @ groups keep es)"
      by (rule "2.IH"(2)[OF False b es]) (simp add: m0)
    with same False show ?thesis by simp
  next
    case True
    let ?as = "e # takeWhile is_agent es" and ?rest = "dropWhile is_agent es"
    let ?rs = "takeWhile is_rule ?rest" and ?tl = "dropWhile is_rule ?rest"
    let ?g = "(map agent_name ?as, concat (map (event_rules keep) ?rs))"
    let ?m = "fold (step keep) (?as @ ?rs) m"
    have la: "list_all is_agent ?as" using True by (simp add: list_all_takeWhile)
    have lr: "list_all is_rule ?rs" by (rule list_all_takeWhile)
    note g = machine_group[OF "2.prems"(1) la list.distinct(2) lr]
    have split: "e # es = (?as @ ?rs) @ ?tl" by simp
    have tl_set: "set ?tl \<subseteq> set es" by (meson set_dropWhileD subsetI)
    have rest: "?rest = [] \<or> is_rule (hd ?rest)"
      by (rule after_agents) (use "2.prems"(2) in simp)
    have run: "fold (step keep) (e # es) m = fold (step keep) ?tl ?m"
      by (subst split) (simp only: fold_append comp_apply)
    have gr: "groups keep (e # es) = ?g # groups keep ?tl" using True by simp
    show ?thesis
    proof (cases "?rs = []")
      case True
      with rest have "?tl = []" by (rule empty_run)
      then show ?thesis using g(1)[of keep] unfolding gr run by (simp only: fold_Nil id_apply groups.simps(1))
    next
      case False
      have "?tl = [] \<or> is_agent (hd ?tl)"
        by (rule after_rules) (use "2.prems"(2) in \<open>auto dest: set_dropWhileD\<close>)
      moreover have "Other \<notin> set ?tl" using tl_set "2.prems"(2) by auto
      ultimately have "rules (fold (step keep) ?tl ?m) = group_rules ((gs @ [?g]) @ groups keep ?tl)"
        using "2.IH"(1)[OF True g(2)[OF False, of keep]] by blast
      then show ?thesis unfolding gr run by (simp only: append_assoc append.simps)
    qed
  qed
qed

text \<open>The events of a body, and the rules the reference reading keeps of it.\<close>

definition body_events :: "cstring \<Rightarrow> event list" where
  "body_events body = filter (\<lambda>e. e \<noteq> Other) (map (\<lambda>(line, ct). event_of line ct) (body_lines body))"

definition body_rules :: "bool \<Rightarrow> cstring \<Rightarrow> rule list" where
  "body_rules keep body = group_rules (groups keep (body_events body))"

lemma robots_parse_loop_rules:
  assumes "length body \<le> HTS_ROBOTS_MAX_TOKEN_SIZE"
  shows "blob (robots_parse_loop keep infosize sitemapsize body (robots_init infosize sitemapsize)) =
    rule_blob (body_rules keep body)"
proof -
  let ?m = "\<lparr>mode = 0, agents = False, specific = False, rules = []\<rparr>"
  have a: "abs (robots_init infosize sitemapsize) ?m" by (simp add: abs_def robots_init_def)
  have "boundary [] ?m" by (simp add: boundary_def group_rules_def)
  from machine_groups[OF this, of "body_events body" keep]
  have "rules (fold (step keep) (body_events body) ?m) = body_rules keep body"
    by (simp add: body_rules_def body_events_def)
  moreover have "length (blob (robots_init infosize sitemapsize)) = 0" by (simp add: robots_init_def)
  ultimately show ?thesis
    using parse_lines_abs[OF a, of "body_lines body" keep infosize sitemapsize] body_lines_length[of body] assms
      fold_step_Other[of keep "map (\<lambda>(line, ct). event_of line ct) (body_lines body)" ?m]
    by (simp add: robots_parse_loop_lines abs_def body_events_def)
qed

end
