(* ===== verification/RobotsClaims.thy ===== *)
theory RobotsClaims
  imports RobotsParse
begin

text \<open>
  The properties of \<open>htsrobots.c\<close>: the search is leftmost and total, the pattern match is RFC 9309,
  the parser keeps the rules of the right groups, the store answers with the last rules set for a
  host, and a parse followed by a check forbids what the body forbids.
\<close>

section \<open>The rules of a body are well formed\<close>

lemma body_lines_clean:
  "(line, ct) \<in> set (body_lines body) \<Longrightarrow>
     length line \<le> HTS_ROBOTS_LINE_SIZE \<and> list_all (\<lambda>c. c \<noteq> NUL \<and> c \<noteq> LF \<and> c \<noteq> CR) line"
proof (induction body arbitrary: line ct rule: body_lines.induct)
  case (1 body)
  show ?case
  proof (cases "body = []")
    case False
    obtain l adv c where l: "binput_line body (HTS_ROBOTS_LINE_SIZE - 1) = (l, adv, c)" by (metis prod_cases3)
    then have "l = take (HTS_ROBOTS_LINE_SIZE - 2) (filter (\<lambda>c. c \<noteq> CR) (takeWhile (\<lambda>c. \<not> line_stop c) body))"
      using False by (simp add: binput_line_eq Let_def numeral_2_eq_2)
    then have "length l \<le> HTS_ROBOTS_LINE_SIZE \<and> list_all (\<lambda>c. c \<noteq> NUL \<and> c \<noteq> LF \<and> c \<noteq> CR) l"
      by (auto simp: list_all_iff line_stop_def dest!: in_set_takeD set_takeWhileD)
    with "1.IH"[OF False l[symmetric] refl] "1.prems" l False show ?thesis
      by (auto simp: body_lines.simps[of body])
  qed (use "1.prems" in \<open>simp add: body_lines.simps[of "[]"]\<close>)
qed

lemma strip_comment_set: "strip_comment raw c0 = (line, ct) \<Longrightarrow> set line \<subseteq> set raw"
  unfolding strip_comment_def hts_rtrim_def by (auto dest!: in_set_takeD set_takeWhileD)

lemma skip_spaces_set: "set (skip_spaces (drop n line)) \<subseteq> set line"
  unfolding skip_spaces_def by (meson in_set_dropD set_dropWhileD subsetI)

lemma skip_spaces_length: "length (skip_spaces (drop n line)) \<le> length line"
  using length_dropWhile_le[of "\<lambda>c. c \<in> set HTS_REALSPACES" "drop n line"] by (simp add: skip_spaces_def)

lemma event_of_value:
  assumes "event_of raw c0 = Rule al a ct"
  shows "length a \<le> length raw \<and> set a \<subseteq> set raw"
proof -
  obtain line c1 where s: "strip_comment raw c0 = (line, c1)" by fastforce
  with assms obtain n where "a = skip_spaces (drop n line)" by (auto simp: event_of_def split: if_splits)
  then show ?thesis
    using skip_spaces_set[of n line] skip_spaces_length[of n line]
      strip_comment_set[OF s] strip_comment_length[OF s] by auto
qed

lemma groups_subset:
  "g \<in> set (groups keep es) \<Longrightarrow> r \<in> set (snd g) \<Longrightarrow> \<exists>e \<in> set es. r \<in> set (event_rules keep e)"
proof (induction keep es rule: groups.induct)
  case (2 keep e es)
  show ?case
  proof (cases "is_agent e")
    case True
    let ?rest = "dropWhile is_agent es"
    have sub: "set (takeWhile is_rule ?rest) \<subseteq> set es" "set (dropWhile is_rule ?rest) \<subseteq> set es"
      by (meson set_dropWhileD set_takeWhileD subsetI)+
    consider "r \<in> set (concat (map (event_rules keep) (takeWhile is_rule ?rest)))"
      | "g \<in> set (groups keep (dropWhile is_rule ?rest))" using "2.prems" True by auto
    then show ?thesis
    proof cases
      case 1
      then obtain e' where "e' \<in> set (takeWhile is_rule ?rest)" "r \<in> set (event_rules keep e')"
        unfolding set_concat set_map by blast
      then show ?thesis using sub(1) by auto
    next
      case 2
      from "2.IH"(1)[OF True this "2.prems"(2)] sub(2) show ?thesis by auto
    qed
  next
    case False
    with "2.IH"(2)[OF False _ "2.prems"(2)] "2.prems"(1) show ?thesis by auto
  qed
qed simp

lemma group_rules_subset: "r \<in> set (group_rules gs) \<Longrightarrow> \<exists>g \<in> set gs. r \<in> set (snd g)"
  by (auto simp: group_rules_def Let_def split: if_splits) (metis snd_conv)+

lemma body_rules_ok: "list_all rule_ok (body_rules keep body)"
  unfolding list_all_iff
proof
  fix r assume "r \<in> set (body_rules keep body)"
  then obtain e where e: "e \<in> set (body_events body)" "r \<in> set (event_rules keep e)"
    unfolding body_rules_def using group_rules_subset groups_subset by blast
  obtain line c0 where l: "(line, c0) \<in> set (body_lines body)" "e = event_of line c0"
    using e(1) by (auto simp: body_events_def)
  obtain al a ct where rule: "e = Rule al a ct" using e(2) by (cases e) auto
  then have r: "r = (al, a)" "a \<noteq> []" using e(2) by (auto simp: line_rules_def split: if_splits)
  have "event_of line c0 = Rule al a ct" using l(2) rule by simp
  note v = event_of_value[OF this] and clean = body_lines_clean[OF l(1)]
  have "list_all (\<lambda>c. c \<noteq> NUL \<and> c \<noteq> LF \<and> c \<noteq> CR) a"
    using v clean unfolding list_all_iff by blast
  with v clean r show "rule_ok r" by (simp add: rule_ok_def)
qed

section \<open>Buffers\<close>

definition robots_bounds :: "nat option \<Rightarrow> nat option \<Rightarrow> robots_state \<Rightarrow> bool" where
  "robots_bounds infosize sitemapsize st \<longleftrightarrow>
     length (blob st) \<le> HTS_ROBOTS_MAX_TOKEN_SIZE \<and> length (dropped st) \<le> 127 \<and>
     (case (info st, infosize) of (Some i, Some n) \<Rightarrow> length i < n | (None, None) \<Rightarrow> True | _ \<Rightarrow> False) \<and>
     (case (sitemaps st, sitemapsize) of (Some s, Some n) \<Rightarrow> length s < n | (None, None) \<Rightarrow> True | _ \<Rightarrow> False)"

lemma robots_rule_add_cap [inv]:
  "length b \<le> HTS_ROBOTS_MAX_TOKEN_SIZE \<Longrightarrow> length (fst (robots_rule_add b m p)) \<le> HTS_ROBOTS_MAX_TOKEN_SIZE"
  by (auto simp: robots_rule_add_def)

lemma robots_info_bound [inv]: "length i < n \<Longrightarrow> length (robots_info n a i) < n"
  by (auto simp: robots_info_def)

lemma robots_sitemap_bound [inv]: "length s < n \<Longrightarrow> length (robots_sitemap n a ct s) < n"
  by (auto simp: robots_sitemap_def)

lemma robots_init_bounds:
  "infosize \<noteq> Some 0 \<Longrightarrow> sitemapsize \<noteq> Some 0 \<Longrightarrow>
     robots_bounds infosize sitemapsize (robots_init infosize sitemapsize)"
  by (auto simp: robots_bounds_def robots_init_def split: option.splits)

lemma robots_agent_bounds [inv]:
  "robots_bounds infosize sitemapsize st \<Longrightarrow> robots_bounds infosize sitemapsize (robots_agent a st)"
  by (auto simp: robots_bounds_def robots_agent_def Let_def split: option.splits)

lemma robots_bounds_if:
  "robots_bounds i s x \<Longrightarrow> robots_bounds i s y \<Longrightarrow> robots_bounds i s (if c then x else y)"
  by simp

lemma robots_bounds_in_agents:
  "robots_bounds i s st \<Longrightarrow> robots_bounds i s (st\<lparr>in_agents := v\<rparr>)"
  by (simp add: robots_bounds_def)

lemma robots_bounds_blob:
  "robots_bounds i s st \<Longrightarrow> length bl \<le> HTS_ROBOTS_MAX_TOKEN_SIZE \<Longrightarrow> robots_bounds i s (st\<lparr>blob := bl\<rparr>)"
  by (simp add: robots_bounds_def)

lemma robots_bounds_dropped:
  "robots_bounds i s st \<Longrightarrow>
     robots_bounds i s (st\<lparr>dropped := (if c then take 127 a else dropped st), ndropped := n\<rparr>)"
  by (simp add: robots_bounds_def)

lemma robots_bounds_info:
  "robots_bounds i s st \<Longrightarrow>
     robots_bounds i s (st\<lparr>info := map_option (robots_info (case i of None \<Rightarrow> 0 | Some n \<Rightarrow> n) a) (info st)\<rparr>)"
  by (cases i; cases "info st") (simp_all add: robots_bounds_def robots_info_bound)

lemmas robots_bounds_set = robots_bounds_in_agents robots_bounds_blob robots_bounds_dropped robots_bounds_info

lemma robots_rule_bounds [inv]:
  assumes "robots_bounds infosize sitemapsize st"
  shows "robots_bounds infosize sitemapsize (robots_rule keep infosize al a ct st)"
proof -
  obtain bl kept where r: "(if ct \<and> al then (blob st, False)
      else robots_rule_add (blob st) (if al then CHR ''A'' else CHR ''D'') a) = (bl, kept)" by fastforce
  have bl: "length bl \<le> HTS_ROBOTS_MAX_TOKEN_SIZE"
    using assms r robots_rule_add_cap[of "blob st" "if al then CHR ''A'' else CHR ''D''" a]
    by (auto simp: robots_bounds_def split: if_splits)
  have same: "blob (st\<lparr>in_agents := False\<rparr>) = blob st" by simp
  have r': "(if ct \<and> al then (blob (st\<lparr>in_agents := False\<rparr>), False)
      else robots_rule_add (blob (st\<lparr>in_agents := False\<rparr>)) (if al then CHR ''A'' else CHR ''D'') a) = (bl, kept)"
    using r unfolding same .
  show ?thesis
    unfolding robots_rule_def Let_def r' prod.case
    by (intro robots_bounds_if robots_bounds_set bl assms)
qed

lemma robots_bounds_sitemap [inv]:
  "robots_bounds infosize sitemapsize st \<Longrightarrow>
     robots_bounds infosize sitemapsize
       (st\<lparr>sitemaps := map_option (robots_sitemap (case sitemapsize of None \<Rightarrow> 0 | Some n \<Rightarrow> n) a ct) (sitemaps st)\<rparr>)"
  by (cases sitemapsize; cases "sitemaps st") (simp_all add: robots_bounds_def robots_sitemap_bound)

lemma robots_line_bounds [inv]:
  assumes "robots_bounds infosize sitemapsize st"
  shows "robots_bounds infosize sitemapsize (robots_line keep infosize sitemapsize line ct st)"
proof (cases "strip_comment line ct")
  case (Pair l c)
  show ?thesis
    unfolding robots_line_def Pair prod.case Let_def
    by (intro robots_bounds_if robots_bounds_sitemap robots_agent_bounds robots_rule_bounds assms)
qed

lemma robots_lines_bounds:
  "robots_bounds infosize sitemapsize st \<Longrightarrow>
     robots_bounds infosize sitemapsize (fold (\<lambda>(line, ct). robots_line keep infosize sitemapsize line ct) lines st)"
  by (induction lines arbitrary: st) (auto intro: robots_line_bounds)

section \<open>Properties\<close>

text \<open>
  The KMP search always returns, and returns the offset of the leftmost occurrence of the
  piece in the text, or -1 when it does not occur.
\<close>

theorem robots_find_spec:
  "\<exists>r. robots_find seg hay = Some r \<and>
     (if r < 0 then r = -1 \<and> (\<forall>p. p \<le> length hay \<longrightarrow> \<not> prefix seg (drop p hay))
      else prefix seg (drop (nat r) hay) \<and> (\<forall>p. p < nat r \<longrightarrow> \<not> prefix seg (drop p hay)))"
  using robots_find_leftmost[of seg hay] unfolding leftmost_def occurs_at_def .

theorem robots_find_spec_witness:
  "\<exists>r. robots_find ''aab'' ''aaab'' = Some r \<and>
     (if r < 0 then r = -1 \<and> (\<forall>p. p \<le> length ''aaab'' \<longrightarrow> \<not> prefix ''aab'' (drop p ''aaab''))
      else prefix ''aab'' (drop (nat r) ''aaab'') \<and> (\<forall>p. p < nat r \<longrightarrow> \<not> prefix ''aab'' (drop p ''aaab'')))"
  by (rule robots_find_spec)

text \<open>
  C26. On every pattern a stored rule can hold, the linear matcher of \<open>robots_pattern_match\<close>
  returns and decides the declarative reading of RFC 9309: a star is any run of bytes, a final
  dollar anchors the pattern at the end of the path, and otherwise a prefix suffices.
\<close>

theorem robots_pattern_match_rfc9309:
  assumes "length pattern \<le> HTS_ROBOTS_LINE_SIZE + 1"
  shows "robots_pattern_match pattern path =
    Some (if pattern \<noteq> [] \<and> last pattern = CHR ''$'' then rmatch True (butlast pattern) path
          else rmatch False pattern path)"
  using robots_pattern_match_eq[OF assms] by (simp add: rfc9309_match_def robots_body_def)

theorem robots_pattern_match_rfc9309_witness:
  "robots_pattern_match ''/a*c$'' ''/abcc'' = Some (rmatch True ''/a*c'' ''/abcc'')"
  using robots_pattern_match_rfc9309[of "''/a*c$''" "''/abcc''"] by (simp add: HTS_ROBOTS_LINE_SIZE_def)

text \<open>
  C30. Whatever sequence of rule blobs has been recorded for nonempty hosts, in whatever order, a
  check for a host reads the blob recorded last for that host up to case (or the one the store
  began with), and forbids exactly when its best matching rule is a Disallow.
\<close>

theorem checkrobots_last_set:
  assumes "store_ok robots" and "\<forall>kv \<in> set sets. fst kv \<noteq> []" and "host \<noteq> []"
  shows "checkrobots (foldl (\<lambda>s (a, d). fst (checkrobots_set True s a d)) robots sets) host fil =
    (case (case filter (\<lambda>kv. list_all2 streql (fst kv) host) sets of
             [] \<Rightarrow> host_token robots host | hit # hits \<Rightarrow> Some (snd (last (hit # hits)))) of
       None \<Rightarrow> Some 0
     | Some t \<Rightarrow> if fil = [] then Some (-1)
                 else map_option (\<lambda>b. if matched b \<and> \<not> best_allow b then -1 else 0) (rules_loop fil t no_best))"
  using robots.lookup_puts[OF assms] checkrobots_token[OF robots.valid_puts[OF assms(1,2)] assms(3)]
  by (simp add: robots.puts_def same_host_def)

theorem checkrobots_last_set_witness:
  "checkrobots (foldl (\<lambda>s (a, d). fst (checkrobots_set True s a d))
     [\<lparr>adr = None, token = None\<rparr>] [(''a.com'', ''D/x'' @ [LF])]) ''A.com'' [] = Some (-1)"
proof -
  have "store_ok [\<lparr>adr = None, token = None\<rparr>]" by (simp add: store_ok_def)
  from checkrobots_last_set[OF this, of "[(''a.com'', ''D/x'' @ [LF])]" "''A.com''" "[]"] show ?thesis
    by (simp add: streql_def hichar_def)
qed

text \<open>
  C25. The rule blob the parser accumulates is the concatenation of the rules RFC 9309 gives the
  crawler: those of every group naming httrack, or of the generic groups when none does, without
  empty rules, cut Allow rules and, unless the option keeps it, \<open>Disallow: /\<close>.
\<close>

theorem robots_parse_groups:
  assumes "length body \<le> HTS_ROBOTS_MAX_TOKEN_SIZE"
  shows "blob (snd (robots_parse alloc_ok robots host body infosize keep sitemapsize)) =
    rule_blob (group_rules (groups keep (body_events body)))"
  using robots_parse_loop_rules[OF assms] by (simp add: robots_parse_def Let_def body_rules_def)

theorem robots_parse_groups_witness:
  "blob (snd (robots_parse True [] [] ''Disallow:/'' None True None)) =
     rule_blob (group_rules (groups True (body_events ''Disallow:/'')))"
  by (rule robots_parse_groups) (simp add: HTS_ROBOTS_MAX_TOKEN_SIZE_def)

text \<open>
  C22. After a body that gives the crawler at least one rule has been parsed for a host, a check of
  a path on that host, whatever the case of its name, is refused exactly when some Disallow of the
  body that matches the path is longer than every Allow that matches it.
\<close>

theorem robots_parse_then_check:
  assumes "store_ok robots" and "host \<noteq> []" and "list_all2 streql host host'" and "fil \<noteq> []"
    and "length body \<le> HTS_ROBOTS_MAX_TOKEN_SIZE" and "body_rules keep body \<noteq> []"
  shows "checkrobots (fst (robots_parse True robots host body infosize keep sitemapsize)) host' fil =
    Some (if \<exists>d \<in> set (body_rules keep body). \<not> fst d \<and> rfc9309_match (snd d) fil \<and>
             (\<forall>a \<in> set (body_rules keep body). fst a \<and> rfc9309_match (snd a) fil \<longrightarrow>
                length (snd a) < length (snd d))
          then -1 else 0)"
proof -
  have ne: "host' \<noteq> []" using assms(2,3) by auto
  have set: "fst (robots_parse True robots host body infosize keep sitemapsize) =
      fst (checkrobots_set True robots host (rule_blob (body_rules keep body)))"
    using robots_parse_loop_rules[OF assms(5), of keep infosize sitemapsize] assms(6)
    by (simp add: robots_parse_def Let_def)
  have tok: "host_token (fst (checkrobots_set True robots host (rule_blob (body_rules keep body)))) host' =
      Some (rule_blob (body_rules keep body))"
    using host_token_set[OF assms(1,2) ne] assms(3) by (simp add: same_host_def)
  from rules_loop_forbids[OF body_rules_ok, of fil keep body]
    checkrobots_token[OF store_ok_set[OF assms(1,2)] ne] assms(4)
  show ?thesis unfolding set tok forbids_def by (auto simp: tok)
qed

theorem robots_parse_then_check_witness:
  "checkrobots (fst (robots_parse True [\<lparr>adr = None, token = None\<rparr>] ''a''
     (''User-agent:*'' @ [LF] @ ''Disallow:/a'') None True None)) ''A'' ''/ab'' = Some (-1)"
proof -
  have r: "body_rules True (''User-agent:*'' @ [LF] @ ''Disallow:/a'') = [(False, ''/a'')]" by code_simp
  have m: "rfc9309_match ''/a'' ''/ab''" by code_simp
  have s: "store_ok [\<lparr>adr = None, token = None\<rparr>]" by (simp add: store_ok_def)
  from robots_parse_then_check[OF s, of "''a''" "''A''" "''/ab''" "''User-agent:*'' @ [LF] @ ''Disallow:/a''" True None None]
  show ?thesis unfolding r using m by (simp add: streql_def hichar_def HTS_ROBOTS_MAX_TOKEN_SIZE_def)
qed

text \<open>
  C31. Whatever the body, the parser keeps the rule blob within its cap, the disallow summary and
  the sitemap list strictly inside the buffers they were given, and the logged rule within its
  128 bytes.
\<close>

theorem robots_parse_bounds:
  assumes "infosize \<noteq> Some 0" and "sitemapsize \<noteq> Some 0"
  shows "robots_bounds infosize sitemapsize
    (snd (robots_parse alloc_ok robots host body infosize keep sitemapsize))"
  using robots_lines_bounds[OF robots_init_bounds[OF assms]]
  by (simp add: robots_parse_def Let_def robots_parse_loop_lines)

theorem robots_parse_bounds_witness:
  "robots_bounds (Some 4) None (snd (robots_parse True [] ''h'' ''Disallow: /abcdef'' (Some 4) True None))"
  by (rule robots_parse_bounds) simp_all

end
