(* ===== verification/Cmdline.thy ===== *)
theory Cmdline
  imports CStrings
begin

text \<open>
  \<open>htscmdline.c\<close>: splitting a command line into arguments, quoting and unquoting one.  The source
  splits in place with a read and a write cursor; here the bytes written since the last separator
  are \<open>cur\<close>.  An \<open>assertf\<close> that would fire is a value of the error type, so that it never
  fires is a theorem.
\<close>

definition HTS_SPLIT_FOLD_WS :: nat where "HTS_SPLIT_FOLD_WS = 1"
definition HTS_SPLIT_STRIP_QUOTES :: nat where "HTS_SPLIT_STRIP_QUOTES = 2"
definition HTS_SPLIT_DROP_EMPTY :: nat where "HTS_SPLIT_DROP_EMPTY = 4"

definition INT_MAX :: nat where "INT_MAX = 2147483647"

datatype split_error = NoVector | AssertFailed

type_synonym split_result = "split_error + cstring list"

definition fold_ws :: "cstring \<Rightarrow> cstring" where
  "fold_ws cmd = map (\<lambda>c. if c = TAB \<or> c = CR \<or> c = LF then CHR '' '' else c) cmd"

definition arg_push :: "nat \<Rightarrow> bool \<Rightarrow> cstring list \<Rightarrow> cstring \<Rightarrow> split_result" where
  "arg_push capacity wanted argv cur =
     (if wanted then
        (if length argv < capacity - 1 then Inr (argv @ [cur]) else Inl AssertFailed)
      else Inr argv)"

fun split_loop :: "nat \<Rightarrow> bool \<Rightarrow> bool \<Rightarrow> bool \<Rightarrow> bool \<Rightarrow> cstring \<Rightarrow> cstring list \<Rightarrow> cstring \<Rightarrow> split_result" where
  "split_loop capacity strip drop_empty quoted has_input cur argv [] =
     arg_push capacity (has_input \<or> \<not> drop_empty) argv cur"
| "split_loop capacity strip drop_empty quoted has_input cur argv (c # cs) =
     (if quoted \<and> c = BACKSLASH \<and> (cbyte cs 0 = BACKSLASH \<or> cbyte cs 0 = DQUOTE) then
        split_loop capacity strip drop_empty quoted has_input (cur @ [cbyte cs 0]) argv (tl cs)
      else if c = DQUOTE then
        split_loop capacity strip drop_empty (\<not> quoted) True (if strip then cur else cur @ [c]) argv cs
      else if c = CHR '' '' \<and> \<not> quoted then
        (case arg_push capacity (has_input \<or> \<not> drop_empty) argv cur of
           Inl e \<Rightarrow> Inl e
         | Inr argv \<Rightarrow> split_loop capacity strip drop_empty quoted False [] argv cs)
      else split_loop capacity strip drop_empty quoted True (cur @ [c]) argv cs)"

text \<open>\<open>alloc_ok\<close>: does the allocation of the vector succeed?  \<open>SIZE_MAX\<close> is beyond \<open>INT_MAX\<close>
  pointers, so the first bound is the one that decides.\<close>

definition hts_split_args :: "bool \<Rightarrow> cstring \<Rightarrow> nat \<Rightarrow> split_result" where
  "hts_split_args alloc_ok cmd flags =
     (let cmd = (if flags AND HTS_SPLIT_FOLD_WS \<noteq> 0 then fold_ws cmd else cmd);
          nsep = length (filter (\<lambda>c. c = CHR '' '') cmd)
      in if nsep > INT_MAX - 1 \<or> \<not> alloc_ok then Inl NoVector
         else split_loop (nsep + 2) (flags AND HTS_SPLIT_STRIP_QUOTES \<noteq> 0) (flags AND HTS_SPLIT_DROP_EMPTY \<noteq> 0)
                False False [] [] cmd)"

definition hts_split_cmdline :: "bool \<Rightarrow> cstring \<Rightarrow> split_result" where
  "hts_split_cmdline alloc_ok cmd = hts_split_args alloc_ok cmd HTS_SPLIT_FOLD_WS"

definition hts_split_webcmd :: "bool \<Rightarrow> cstring \<Rightarrow> split_result" where
  "hts_split_webcmd alloc_ok cmd = hts_split_args alloc_ok cmd (HTS_SPLIT_FOLD_WS OR HTS_SPLIT_STRIP_QUOTES)"

fun hts_escape_arg :: "cstring \<Rightarrow> cstring" where
  "hts_escape_arg [] = []"
| "hts_escape_arg (c # arg) =
     (if c = BACKSLASH \<or> c = DQUOTE then [BACKSLASH, c] else [c]) @ hts_escape_arg arg"

definition hts_quote_arg :: "cstring \<Rightarrow> cstring" where
  "hts_quote_arg arg =
     (if arg = [] then [DQUOTE, DQUOTE]
      else if list_ex (\<lambda>c. c \<in> {CHR '' '', DQUOTE, BACKSLASH}) arg then [DQUOTE] @ hts_escape_arg arg @ [DQUOTE]
      else arg)"

definition hts_is_quoted :: "cstring \<Rightarrow> bool" where
  "hts_is_quoted arg \<longleftrightarrow> length arg \<ge> 2 \<and> arg ! 0 = DQUOTE \<and> arg ! (length arg - 1) = DQUOTE"

definition hts_unquote_arg :: "cstring \<Rightarrow> cstring \<times> bool" where
  "hts_unquote_arg arg =
     (if cbyte arg 0 \<noteq> DQUOTE then (arg, True)
      else if \<not> hts_is_quoted arg then (arg, False)
      else (take (length arg - 2) (drop 1 arg), True))"

section \<open>The assertions never fire\<close>

text \<open>The splitter without the vector: the arguments still to come.\<close>

fun split_words :: "bool \<Rightarrow> bool \<Rightarrow> bool \<Rightarrow> bool \<Rightarrow> cstring \<Rightarrow> cstring \<Rightarrow> cstring list" where
  "split_words strip drop_empty quoted has_input cur [] = (if has_input \<or> \<not> drop_empty then [cur] else [])"
| "split_words strip drop_empty quoted has_input cur (c # cs) =
     (if quoted \<and> c = BACKSLASH \<and> (cbyte cs 0 = BACKSLASH \<or> cbyte cs 0 = DQUOTE) then
        split_words strip drop_empty quoted has_input (cur @ [cbyte cs 0]) (tl cs)
      else if c = DQUOTE then
        split_words strip drop_empty (\<not> quoted) True (if strip then cur else cur @ [c]) cs
      else if c = CHR '' '' \<and> \<not> quoted then
        (if has_input \<or> \<not> drop_empty then [cur] else []) @ split_words strip drop_empty quoted False [] cs
      else split_words strip drop_empty quoted True (cur @ [c]) cs)"

abbreviation nseps :: "cstring \<Rightarrow> nat" where
  "nseps cmd \<equiv> length (filter (\<lambda>c. c = CHR '' '') cmd)"

lemma nseps_tl: "nseps (tl cs) \<le> nseps cs"
  by (cases cs) auto

lemma split_loop_words:
  "length argv + nseps cmd + 2 \<le> capacity \<Longrightarrow>
     split_loop capacity strip drop_empty quoted has_input cur argv cmd =
       Inr (argv @ split_words strip drop_empty quoted has_input cur cmd)"
proof (induction capacity strip drop_empty quoted has_input cur argv cmd rule: split_loop.induct)
  case (2 capacity strip drop_empty quoted has_input cur argv c cs)
  have room: "length argv + nseps (tl cs) + 2 \<le> capacity" "length argv + nseps cs + 2 \<le> capacity"
    using "2.prems" nseps_tl[of cs] by (auto split: if_splits)
  consider (esc) "quoted \<and> c = BACKSLASH \<and> (cbyte cs 0 = BACKSLASH \<or> cbyte cs 0 = DQUOTE)"
    | (dq) "\<not> (quoted \<and> c = BACKSLASH \<and> (cbyte cs 0 = BACKSLASH \<or> cbyte cs 0 = DQUOTE))" "c = DQUOTE"
    | (sep) "c = CHR '' ''" "\<not> quoted" | (other) "\<not> (quoted \<and> c = BACKSLASH \<and> (cbyte cs 0 = BACKSLASH \<or> cbyte cs 0 = DQUOTE))"
      "c \<noteq> DQUOTE" "\<not> (c = CHR '' '' \<and> \<not> quoted)" by blast
  then show ?case
  proof cases
    case esc
    with "2.IH"(1)[OF esc room(1)] show ?thesis by simp
  next
    case dq
    with "2.IH"(2)[OF dq room(2)] show ?thesis by (cases strip) simp_all
  next
    case sep
    have push: "arg_push capacity (has_input \<or> \<not> drop_empty) argv cur =
        Inr (argv @ (if has_input \<or> \<not> drop_empty then [cur] else []))"
      using "2.prems" sep by (auto simp: arg_push_def)
    have "length (argv @ (if has_input \<or> \<not> drop_empty then [cur] else [])) + nseps cs + 2 \<le> capacity"
      using "2.prems" sep by auto
    with "2.IH"(3)[OF _ _ _ push] sep push show ?thesis by simp
  next
    case other
    from "2.IH"(4)[OF other room(2)] show ?thesis
      unfolding split_loop.simps split_words.simps by (simp only: other if_False)
  qed
qed (auto simp: arg_push_def)

lemma hts_split_args_words:
  "hts_split_args alloc_ok cmd flags =
     (let cmd = (if flags AND HTS_SPLIT_FOLD_WS \<noteq> 0 then fold_ws cmd else cmd)
      in if nseps cmd > INT_MAX - 1 \<or> \<not> alloc_ok then Inl NoVector
         else Inr (split_words (flags AND HTS_SPLIT_STRIP_QUOTES \<noteq> 0) (flags AND HTS_SPLIT_DROP_EMPTY \<noteq> 0)
                     False False [] cmd))"
  by (simp add: hts_split_args_def Let_def split_loop_words)

lemma split_words_length: "length (split_words strip drop_empty quoted has_input cur cmd) \<le> nseps cmd + 1"
proof (induction strip drop_empty quoted has_input cur cmd rule: split_words.induct)
  case (2 strip drop_empty quoted has_input cur c cs)
  then show ?case using nseps_tl[of cs] by (auto split: if_splits)
qed simp

section \<open>Quoting round trip\<close>

text \<open>Inside quotes, the escaped bytes of an argument are read back one by one.\<close>

lemma split_words_escaped:
  "split_words strip drop_empty True True cur (hts_escape_arg arg @ DQUOTE # rest) =
     split_words strip drop_empty False True (cur @ arg @ (if strip then [] else [DQUOTE])) rest"
  by (induction arg arbitrary: cur) auto

lemma split_words_plain:
  "list_all (\<lambda>c. c \<notin> {CHR '' '', DQUOTE, BACKSLASH}) arg \<Longrightarrow> arg \<noteq> [] \<Longrightarrow>
     split_words strip drop_empty False h cur (arg @ rest) =
       split_words strip drop_empty False True (cur @ arg) rest"
proof (induction arg arbitrary: cur h)
  case (Cons c arg)
  then show ?case by (cases "arg = []") auto
qed simp

text \<open>What a quoted argument reads as: itself when the quotes are dropped.\<close>

definition quoted_shown :: "bool \<Rightarrow> cstring \<Rightarrow> cstring" where
  "quoted_shown strip arg =
     (if \<not> strip \<and> (arg = [] \<or> list_ex (\<lambda>c. c \<in> {CHR '' '', DQUOTE, BACKSLASH}) arg)
      then [DQUOTE] @ arg @ [DQUOTE] else arg)"

lemma quoted_shown_strip [simp]: "quoted_shown True = (\<lambda>a. a)"
  by (simp add: quoted_shown_def fun_eq_iff)

lemma split_words_quote:
  "split_words strip drop_empty False h [] (hts_quote_arg arg @ rest) =
     split_words strip drop_empty False True (quoted_shown strip arg) rest"
proof (cases "list_ex (\<lambda>c. c \<in> {CHR '' '', DQUOTE, BACKSLASH}) arg")
  case True
  then show ?thesis
    by (auto simp: hts_quote_arg_def quoted_shown_def split_words_escaped)
next
  case False
  then have "list_all (\<lambda>c. c \<notin> {CHR '' '', DQUOTE, BACKSLASH}) arg" by (auto simp: list_ex_iff list_all_iff)
  with False show ?thesis
    by (cases "arg = []") (simp_all add: hts_quote_arg_def quoted_shown_def split_words_plain)
qed

fun join_args :: "cstring list \<Rightarrow> cstring" where
  "join_args [] = []"
| "join_args [a] = hts_quote_arg a"
| "join_args (a # b # args) = hts_quote_arg a @ CHR '' '' # join_args (b # args)"

lemma split_words_join:
  "args \<noteq> [] \<Longrightarrow> split_words strip drop_empty False h [] (join_args args) = map (quoted_shown strip) args"
proof (induction args arbitrary: h rule: join_args.induct)
  case (2 a)
  then show ?case using split_words_quote[of strip drop_empty h a "[]"] by simp
next
  case (3 a b args)
  then show ?case by (simp add: split_words_quote)
qed simp

lemma fold_ws_id: "list_all (\<lambda>c. c \<notin> {TAB, CR, LF}) cmd \<Longrightarrow> fold_ws cmd = cmd"
  by (induction cmd) (auto simp: fold_ws_def)

lemma escape_arg_set: "set (hts_escape_arg arg) \<subseteq> set arg \<union> {BACKSLASH}"
  by (induction arg) auto

lemma quote_arg_set: "set (hts_quote_arg arg) \<subseteq> set arg \<union> {DQUOTE, BACKSLASH}"
  using escape_arg_set[of arg] by (auto simp: hts_quote_arg_def)

lemma join_args_set: "set (join_args args) \<subseteq> (\<Union>a \<in> set args. set a) \<union> {DQUOTE, BACKSLASH, CHR '' ''}"
proof (induction args rule: join_args.induct)
  case (2 a)
  then show ?case using quote_arg_set[of a] by auto
next
  case (3 a b args)
  then show ?case using quote_arg_set[of a] by auto
qed simp

lemma fold_ws_join:
  assumes "\<forall>a \<in> set args. list_all (\<lambda>c. c \<notin> {TAB, CR, LF}) a"
  shows "fold_ws (join_args args) = join_args args"
proof (rule fold_ws_id)
  show "list_all (\<lambda>c. c \<notin> {TAB, CR, LF}) (join_args args)"
    unfolding list_all_iff
  proof
    fix c assume "c \<in> set (join_args args)"
    with join_args_set have "c \<in> (\<Union>a \<in> set args. set a) \<union> {DQUOTE, BACKSLASH, CHR '' ''}" by blast
    with assms show "c \<notin> {TAB, CR, LF}" by (auto simp: list_all_iff)
  qed
qed

section \<open>Properties\<close>

text \<open>
  The splitter's two \<open>assertf\<close> never fire and its vector never overflows: with any flags it
  either cannot get a vector at all, or stores at most one argument per separator and one more.
\<close>

theorem hts_split_args_fits:
  "hts_split_args alloc_ok cmd flags \<noteq> Inl AssertFailed \<and>
   (case hts_split_args alloc_ok cmd flags of
      Inl e \<Rightarrow> True
    | Inr argv \<Rightarrow> length argv \<le>
        length (filter (\<lambda>c. c = CHR '' '' \<or> (flags AND HTS_SPLIT_FOLD_WS \<noteq> 0 \<and> (c = TAB \<or> c = CR \<or> c = LF))) cmd) + 1)"
proof -
  have "nseps (fold_ws cmd) = length (filter (\<lambda>c. c = CHR '' '' \<or> c = TAB \<or> c = CR \<or> c = LF) cmd)"
    by (induction cmd) (auto simp: fold_ws_def)
  then show ?thesis
    using split_words_length[of _ _ False False "[]" "fold_ws cmd"] split_words_length[of _ _ False False "[]" cmd]
    by (simp add: hts_split_args_words Let_def)
qed

text \<open>
  C32. Quoting is the inverse of splitting: a nonempty list of arguments without TAB, CR and LF,
  each quoted and joined by spaces, is split back into the same list by \<open>hts_split_webcmd\<close>.
\<close>

theorem hts_split_webcmd_quote:
  assumes "args \<noteq> []" and "\<forall>a \<in> set args. list_all (\<lambda>c. c \<notin> {TAB, CR, LF}) a"
    and "length (filter (\<lambda>c. c = CHR '' '') (join_args args)) < INT_MAX"
  shows "hts_split_webcmd True (join_args args) = Inr args"
  using assms split_words_join[OF assms(1), of True False False]
  by (simp add: hts_split_webcmd_def hts_split_args_words Let_def fold_ws_join INT_MAX_def
      HTS_SPLIT_FOLD_WS_def HTS_SPLIT_STRIP_QUOTES_def HTS_SPLIT_DROP_EMPTY_def)

theorem hts_split_webcmd_quote_witness:
  "hts_split_webcmd True (join_args [''a b'', [], [DQUOTE, CHR ''x'', BACKSLASH]]) =
     Inr [''a b'', [], [DQUOTE, CHR ''x'', BACKSLASH]]"
  by (rule hts_split_webcmd_quote) (simp_all add: hts_quote_arg_def INT_MAX_def)

text \<open>
  The splitter that keeps the quotes, followed by \<open>hts_unquote_arg\<close> on each argument, also
  gives the quoted arguments back, and no quote is ever found unclosed.
\<close>

theorem hts_split_cmdline_unquote:
  assumes "args \<noteq> []" and "\<forall>a \<in> set args. list_all (\<lambda>c. c \<notin> {TAB, CR, LF}) a"
    and "length (filter (\<lambda>c. c = CHR '' '') (join_args args)) < INT_MAX"
  shows "\<exists>argv. hts_split_cmdline True (join_args args) = Inr argv \<and>
    map hts_unquote_arg argv = map (\<lambda>a. (a, True)) args"
proof -
  have "hts_unquote_arg (quoted_shown False a) = (a, True)" for a
  proof (cases "a = [] \<or> list_ex (\<lambda>c. c \<in> {CHR '' '', DQUOTE, BACKSLASH}) a")
    case True
    then show ?thesis by (simp add: quoted_shown_def hts_unquote_arg_def hts_is_quoted_def nth_append)
  next
    case False
    then have "cbyte a 0 \<noteq> DQUOTE" by (cases a) auto
    with False show ?thesis by (auto simp: quoted_shown_def hts_unquote_arg_def)
  qed
  then show ?thesis
    using assms split_words_join[OF assms(1), of False False False]
    by (simp add: hts_split_cmdline_def hts_split_args_words Let_def fold_ws_join INT_MAX_def
      HTS_SPLIT_FOLD_WS_def HTS_SPLIT_STRIP_QUOTES_def HTS_SPLIT_DROP_EMPTY_def)
qed

theorem hts_split_cmdline_unquote_witness:
  "\<exists>argv. hts_split_cmdline True (join_args [''a b'', ''c'']) = Inr argv \<and>
    map hts_unquote_arg argv = [(''a b'', True), (''c'', True)]"
  using hts_split_cmdline_unquote[of "[''a b'', ''c'']"] by (simp add: hts_quote_arg_def INT_MAX_def)

end
