(* ===== verification/Escape.thy ===== *)
theory Escape
  imports CStrings
begin

text \<open>
  Percent and HTML escaping of \<open>htslib.c\<close> and \<open>htsescape.c\<close>, base 64, and the query fields of
  \<open>htsescape.c\<close>.  An \<open>assertf\<close> on a buffer of pointer size (\<open>RUNTIME_TIME_CHECK_SIZE\<close>) gives
  \<open>None\<close>; a destination is the list of the bytes stored before the terminator, and the callers
  pass a size of at least one.
\<close>

section \<open>Character sets\<close>

definition char_reserved :: "char \<Rightarrow> bool" where
  "char_reserved c \<longleftrightarrow> c \<in> set '';/?:@&=+$,''"

definition char_delim :: "char \<Rightarrow> bool" where
  "char_delim c \<longleftrightarrow> c \<in> set ''<>#%'' \<or> c = DQUOTE"

definition char_unwise :: "char \<Rightarrow> bool" where
  "char_unwise c \<longleftrightarrow> c \<in> set ''{}|^[]`'' \<or> c = BACKSLASH"

definition char_low :: "char \<Rightarrow> bool" where
  "char_low c \<longleftrightarrow> ord c \<le> 31"

definition char_hig :: "char \<Rightarrow> bool" where
  "char_hig c \<longleftrightarrow> ord c \<ge> 127"

definition char_special :: "char \<Rightarrow> bool" where
  "char_special c \<longleftrightarrow> char_low c \<or> char_hig c"

definition char_xxavoid :: "char \<Rightarrow> bool" where
  "char_xxavoid c \<longleftrightarrow> c \<in> set '' *&!'' \<or> c = QUOTE \<or> c = DQUOTE"

definition char_mark :: "char \<Rightarrow> bool" where
  "char_mark c \<longleftrightarrow> c \<in> set ''-_.!~*()'' \<or> c = QUOTE"

section \<open>Escaping\<close>

definition runtime_check :: "nat \<Rightarrow> 'a \<Rightarrow> 'a option" where
  "runtime_check sz r = (if sz = 8 then None else Some r)"

text \<open>\<open>ADD_CHAR\<close>, for a run of bytes: \<open>Inl\<close> is the early return with the buffer full.\<close>

fun add_chars :: "nat \<Rightarrow> cstring \<Rightarrow> cstring \<Rightarrow> cstring + cstring" where
  "add_chars sz dest [] = Inr dest"
| "add_chars sz dest (c # cs) =
     (if length dest + 1 = sz then Inl dest else add_chars sz (dest @ [c]) cs)"

definition hex :: cstring where "hex = ''0123456789abcdef''"

definition escape_test :: "nat \<Rightarrow> char \<Rightarrow> bool" where
  "escape_test mode c =
     (if mode = 0 then c = DQUOTE \<or> c = CHR '' '' \<or> char_special c
      else if mode = 1 then char_reserved c \<or> char_delim c \<or> char_unwise c \<or> char_special c \<or> char_xxavoid c \<or> char_mark c
      else if mode = 2 then c = CHR '' ''
      else if mode = 3 then char_special c \<or> char_xxavoid c
      else if mode = 4 then char_low c
      else if mode = 30 then
        (c \<noteq> CHR ''/'' \<and> char_reserved c) \<or> char_delim c \<or> char_unwise c \<or> char_special c \<or> char_xxavoid c
      else False)"

definition percent_byte :: "char \<Rightarrow> cstring" where
  "percent_byte c = [CHR ''%'', hex ! (ord c div 16), hex ! (ord c mod 16)]"

definition escape_byte :: "nat \<Rightarrow> char \<Rightarrow> cstring" where
  "escape_byte mode c = (if escape_test mode c then percent_byte c else [c])"

definition html_byte :: "char \<Rightarrow> cstring" where
  "html_byte c = (if c = CHR ''&'' then ''&amp;'' else [c])"

definition html_full_byte :: "char \<Rightarrow> cstring" where
  "html_full_byte c =
     (if c = CHR ''&'' then ''&amp;''
      else if char_hig c then ''&#x'' @ [hex ! (ord c div 16), hex ! (ord c mod 16), CHR '';'']
      else [c])"

fun escape_loop :: "(char \<Rightarrow> cstring) \<Rightarrow> nat \<Rightarrow> cstring \<Rightarrow> cstring \<Rightarrow> cstring + cstring" where
  "escape_loop f sz dest [] = Inr dest"
| "escape_loop f sz dest (c # s) =
     (case add_chars sz dest (f c) of Inl d \<Rightarrow> Inl d | Inr d \<Rightarrow> escape_loop f sz d s)"

definition escape_result :: "nat \<Rightarrow> cstring + cstring \<Rightarrow> cstring \<times> nat" where
  "escape_result sz r = (case r of Inl d \<Rightarrow> (d, sz) | Inr d \<Rightarrow> (d, length d))"

definition x_escape_http :: "cstring \<Rightarrow> nat \<Rightarrow> nat \<Rightarrow> (cstring \<times> nat) option" where
  "x_escape_http s sz mode =
     runtime_check sz (if sz = 0 then ([], 0) else escape_result sz (escape_loop (escape_byte mode) sz [] s))"

definition escape_spc_url :: "cstring \<Rightarrow> nat \<Rightarrow> (cstring \<times> nat) option" where
  "escape_spc_url src sz = x_escape_http src sz 2"

definition escape_in_url :: "cstring \<Rightarrow> nat \<Rightarrow> (cstring \<times> nat) option" where
  "escape_in_url src sz = x_escape_http src sz 1"

definition escape_uri :: "cstring \<Rightarrow> nat \<Rightarrow> (cstring \<times> nat) option" where
  "escape_uri src sz = x_escape_http src sz 3"

definition escape_uri_utf :: "cstring \<Rightarrow> nat \<Rightarrow> (cstring \<times> nat) option" where
  "escape_uri_utf src sz = x_escape_http src sz 30"

definition escape_check_url :: "cstring \<Rightarrow> nat \<Rightarrow> (cstring \<times> nat) option" where
  "escape_check_url src sz = x_escape_http src sz 0"

definition escape_control_url :: "cstring \<Rightarrow> nat \<Rightarrow> (cstring \<times> nat) option" where
  "escape_control_url src sz = x_escape_http src sz 4"

definition escape_for_html_print :: "cstring \<Rightarrow> nat \<Rightarrow> (cstring \<times> nat) option" where
  "escape_for_html_print s sz =
     (if sz = 0 then None else runtime_check sz (escape_result sz (escape_loop html_byte sz [] s)))"

definition escape_for_html_print_full :: "cstring \<Rightarrow> nat \<Rightarrow> (cstring \<times> nat) option" where
  "escape_for_html_print_full s sz =
     (if sz = 0 then None else runtime_check sz (escape_result sz (escape_loop html_full_byte sz [] s)))"

text \<open>The \<open>append_\<close> and \<open>inplace_\<close> variants, over the escaper they are declared for.\<close>

definition append_escape :: "(cstring \<Rightarrow> nat \<Rightarrow> (cstring \<times> nat) option) \<Rightarrow> cstring \<Rightarrow> cstring \<Rightarrow> nat \<Rightarrow> (cstring \<times> nat) option" where
  "append_escape esc src dest sz =
     (if \<not> length dest < sz \<or> sz = 8 then None
      else if sz - length dest = 8 then Some (dest, sz - length dest)
      else map_option (\<lambda>(d, n). (dest @ d, n)) (esc src (sz - length dest)))"

definition inplace_escape :: "(cstring \<Rightarrow> nat \<Rightarrow> (cstring \<times> nat) option) \<Rightarrow> cstring \<Rightarrow> nat \<Rightarrow> (cstring \<times> nat) option" where
  "inplace_escape esc dest sz = (if \<not> length dest < sz then None else esc dest sz)"

definition make_content_id :: "cstring \<Rightarrow> cstring \<Rightarrow> nat \<Rightarrow> (cstring \<times> nat) option" where
  "make_content_id a fil sz =
     (case escape_in_url a sz of
        None \<Rightarrow> None
      | Some (d1, n1) \<Rightarrow>
          (case escape_in_url fil (sz - n1) of
             None \<Rightarrow> None
           | Some (d2, n2) \<Rightarrow>
               runtime_check sz (map (\<lambda>c. if c = CHR ''%'' then CHR ''-'' else c) (d1 @ d2), n1 + n2)))"

definition escape_remove_control :: "cstring \<Rightarrow> cstring" where
  "escape_remove_control s = filter (\<lambda>c. ord c \<ge> 32) s"

section \<open>Unescaping\<close>

text \<open>\<open>n\<close> is the room left: the source stops when \<open>j + 1\<close> reaches the size.\<close>

function unescape_loop :: "nat \<Rightarrow> cstring \<Rightarrow> cstring" where
  "unescape_loop n s =
     (if s = [] \<or> n = 0 then []
      else if hd s = CHR ''%'' \<and> hts_ehex (tl s) \<ge> 0 then
        chr (nat (hts_ehex (tl s))) # unescape_loop (n - 1) (drop 3 s)
      else hd s # unescape_loop (n - 1) (tl s))"
  by pat_completeness auto
termination by (relation "measure fst") auto

declare unescape_loop.simps [simp del]

definition unescape_http :: "nat \<Rightarrow> cstring \<Rightarrow> cstring option" where
  "unescape_http sz s = runtime_check sz (unescape_loop (sz - 1) s)"

definition unharm_keep :: "nat \<Rightarrow> char \<Rightarrow> bool" where
  "unharm_keep no_high c \<longleftrightarrow>
     (char_reserved c \<and> c \<noteq> CHR ''+'') \<or> char_delim c \<or> char_unwise c \<or> char_low c \<or>
     (char_xxavoid c \<and> (c \<noteq> CHR '' '' \<or> no_high AND 2 = 0)) \<or> (no_high AND 1 \<noteq> 0 \<and> char_hig c)"

function unharm_loop :: "nat \<Rightarrow> nat \<Rightarrow> cstring \<Rightarrow> cstring" where
  "unharm_loop no_high n s =
     (if s = [] \<or> n = 0 then []
      else if hd s = CHR ''%'' then
        (let nchar = hts_ehex (tl s); c = chr (nat (nchar mod 256)) in
         if \<not> unharm_keep no_high c \<and> nchar \<ge> 0 then c # unharm_loop no_high (n - 1) (drop 3 s)
         else CHR ''%'' # unharm_loop no_high (n - 1) (tl s))
      else hd s # unharm_loop no_high (n - 1) (tl s))"
  by pat_completeness auto
termination by (relation "measure (\<lambda>(no_high, n, s). n)") auto

declare unharm_loop.simps [simp del]

definition unescape_http_unharm :: "nat \<Rightarrow> cstring \<Rightarrow> nat \<Rightarrow> cstring option" where
  "unescape_http_unharm sz s no_high = runtime_check sz (unharm_loop no_high (sz - 1) s)"

text \<open>\<open>htsescape.c\<close>: the form decoder and the ini decoder append to an unbounded string.\<close>

function hts_unescapehttp :: "cstring \<Rightarrow> cstring" where
  "hts_unescapehttp s =
     (if s = [] then []
      else if hd s = CHR ''%'' \<and> cbyte s 1 = CHR ''%'' then CHR ''%'' # hts_unescapehttp (drop 2 s)
      else if hd s = CHR ''%'' \<and> cbyte s 1 \<noteq> NUL \<and> cbyte s 2 \<noteq> NUL \<and> hts_ehex (tl s) \<ge> 0 then
        chr (nat (hts_ehex (tl s))) # hts_unescapehttp (drop 3 s)
      else if hd s = CHR ''+'' then CHR '' '' # hts_unescapehttp (tl s)
      else hd s # hts_unescapehttp (tl s))"
  by pat_completeness auto
termination by (relation "measure length") (auto simp: neq_Nil_conv)

declare hts_unescapehttp.simps [simp del]

function unescapeini_loop :: "char \<Rightarrow> cstring \<Rightarrow> cstring" where
  "unescapeini_loop lastc s =
     (if s = [] then []
      else if hd s = CHR ''%'' \<and> cbyte s 1 = CHR ''%'' then CHR ''%'' # unescapeini_loop (CHR ''%'') (drop 2 s)
      else if hd s = CHR ''%'' \<and> cbyte s 1 \<noteq> NUL \<and> cbyte s 2 \<noteq> NUL \<and> hts_ehex (tl s) \<ge> 0 then
        (let hc = chr (nat (hts_ehex (tl s))) in
         if \<not> is_retorsep hc \<or> \<not> is_retorsep lastc then hc # unescapeini_loop hc (drop 3 s)
         else unescapeini_loop lastc (drop 3 s))
      else hd s # unescapeini_loop (hd s) (tl s))"
  by pat_completeness auto
termination by (relation "measure (\<lambda>(lastc, s). length s)") (auto simp: neq_Nil_conv)

declare unescapeini_loop.simps [simp del]

definition hts_unescapeini :: "cstring \<Rightarrow> cstring" where
  "hts_unescapeini s = unescapeini_loop NUL s"

section \<open>Query fields\<close>

record hts_query_field =
  key :: cstring
  val :: "cstring option"
  len :: nat

definition hts_query_next :: "cstring option \<Rightarrow> (cstring option \<times> hts_query_field) option" where
  "hts_query_next cur =
     (case cur of
        None \<Rightarrow> None
      | Some q \<Rightarrow>
          (let f = takeWhile (\<lambda>c. c \<noteq> CHR ''&'') q; rest = dropWhile (\<lambda>c. c \<noteq> CHR ''&'') q;
               k = takeWhile (\<lambda>c. c \<noteq> CHR ''='') f; v = dropWhile (\<lambda>c. c \<noteq> CHR ''='') f
           in Some (if rest \<noteq> [] then Some (tl rest) else None,
                \<lparr>key = k, val = (if v \<noteq> [] then Some (tl v) else None), len = length f\<rparr>)))"

lemma tl_dropWhile_shorter: "dropWhile f q \<noteq> [] \<Longrightarrow> length (tl (dropWhile f q)) < length q"
  using length_dropWhile_le[of f q] by (cases "dropWhile f q") auto

lemma hts_query_next_shorter:
  "hts_query_next (Some q) = Some (Some q', f) \<Longrightarrow> length q' < length q"
  unfolding hts_query_next_def Let_def option.case
  using tl_dropWhile_shorter[of "\<lambda>c. c \<noteq> CHR ''&''" q] by (simp only: option.inject prod.inject split: if_splits) auto

function hts_query_find :: "cstring option \<Rightarrow> cstring \<Rightarrow> hts_query_field option" where
  "hts_query_find cur name =
     (case hts_query_next cur of
        None \<Rightarrow> None
      | Some (cur', f) \<Rightarrow> if val f \<noteq> None \<and> key f = name then Some f else hts_query_find cur' name)"
  by pat_completeness auto
termination
proof (relation "measure (\<lambda>(cur, name). case cur of None \<Rightarrow> 0 | Some q \<Rightarrow> Suc (length q))")
  fix cur name p cur' f
  assume "hts_query_next cur = Some p" and "(cur', f) = p"
  then show "((cur', name), cur, name) \<in> measure (\<lambda>(cur, name). case cur of None \<Rightarrow> 0 | Some q \<Rightarrow> Suc (length q))"
    by (cases cur; cases cur') (auto simp: hts_query_next_def[of None] dest: hts_query_next_shorter)
qed simp

declare hts_query_find.simps [simp del]

section \<open>Base 64\<close>

definition hts_base64 :: cstring where
  "hts_base64 = ''ABCDEFGHIJKLMNOPQRSTUVWXYZabcdefghijklmnopqrstuvwxyz0123456789+/''"

text \<open>One group of up to three bytes; \<open>unsigned long\<close> holds 24 bits without loss.\<close>

definition code64_group :: "cstring \<Rightarrow> cstring" where
  "code64_group a =
     (case a of
        [x] \<Rightarrow> (let st = ord x * 16 in
          [hts_base64 ! (st div 64 mod 64), hts_base64 ! (st mod 64), CHR ''='', CHR ''=''])
      | [x, y] \<Rightarrow> (let st = (ord x * 256 + ord y) * 4 in
          [hts_base64 ! (st div 4096 mod 64), hts_base64 ! (st div 64 mod 64), hts_base64 ! (st mod 64), CHR ''=''])
      | [x, y, z] \<Rightarrow> (let st = (ord x * 256 + ord y) * 256 + ord z in
          [hts_base64 ! (st div 262144 mod 64), hts_base64 ! (st div 4096 mod 64),
           hts_base64 ! (st div 64 mod 64), hts_base64 ! (st mod 64)])
      | _ \<Rightarrow> [])"

function code64_loop :: "bool \<Rightarrow> nat \<Rightarrow> cstring \<Rightarrow> cstring" where
  "code64_loop crlf loop a =
     (if a = [] then []
      else code64_group (take 3 a) @ (if crlf \<and> (loop + 3) mod 60 = 0 then [CR, LF] else []) @
        code64_loop crlf (if crlf then loop + 3 else loop) (drop 3 a))"
  by pat_completeness auto
termination by (relation "measure (\<lambda>(crlf, loop, a). length a)") auto

declare code64_loop.simps [simp del]

definition code64 :: "cstring \<Rightarrow> bool \<Rightarrow> cstring" where
  "code64 a crlf = code64_loop crlf 0 a"

end
