(* ===== verification/EscapeClaims.thy ===== *)
theory EscapeClaims
  imports Escape
begin

text \<open>
  What the escapers store, and that decoding gives it back.  An encoder that works byte by byte
  and its decoder meet in the contract \<open>byte_codec\<close>; the percent escapes are instances of it.
\<close>

section \<open>What an escaper stores\<close>

lemma add_chars_eq:
  "length dest < sz \<Longrightarrow> add_chars sz dest cs =
     (if length dest + length cs < sz then Inr (dest @ cs) else Inl (dest @ take (sz - 1 - length dest) cs))"
  by (induction cs arbitrary: dest) (auto simp: take_Cons' Suc_diff_Suc)

lemma escape_loop_eq:
  "length dest < sz \<Longrightarrow> escape_loop f sz dest s =
     (let t = concat (map f s) in
      if length dest + length t < sz then Inr (dest @ t) else Inl (dest @ take (sz - 1 - length dest) t))"
proof (induction s arbitrary: dest)
  case (Cons c s)
  then show ?case
    by (cases "length dest + length (f c) < sz") (auto simp: add_chars_eq Let_def)
qed simp

definition escape_text :: "nat \<Rightarrow> cstring \<Rightarrow> cstring" where
  "escape_text mode s = concat (map (escape_byte mode) s)"

lemma x_escape_http_eq:
  assumes "0 < sz"
  shows "x_escape_http s sz mode = runtime_check sz
    (let t = escape_text mode s in if length t < sz then (t, length t) else (take (sz - 1) t, sz))"
  using assms by (simp add: x_escape_http_def escape_loop_eq escape_result_def escape_text_def Let_def)

lemma x_escape_http_room:
  "length (escape_text mode s) < sz \<Longrightarrow> sz \<noteq> 8 \<Longrightarrow>
     x_escape_http s sz mode = Some (escape_text mode s, length (escape_text mode s))"
  by (simp add: x_escape_http_eq runtime_check_def Let_def)

section \<open>Byte by byte codecs\<close>

locale byte_codec =
  fixes enc :: "char \<Rightarrow> cstring" and dec :: "cstring \<Rightarrow> cstring" and ok :: "char \<Rightarrow> bool"
  assumes dec_Nil: "dec [] = []"
    and dec_enc: "ok c \<Longrightarrow> dec (enc c @ rest) = c # dec rest"
begin

lemma dec_text: "list_all ok s \<Longrightarrow> dec (concat (map enc s)) = s"
  by (induction s) (auto simp: dec_Nil dec_enc)

lemma text_inj: "list_all ok s \<Longrightarrow> list_all ok t \<Longrightarrow> concat (map enc s) = concat (map enc t) \<Longrightarrow> s = t"
  using dec_text by metis

end

lemma lt16_cases: "(k::nat) < 16 \<Longrightarrow> k \<in> {0, 1, 2, 3, 4, 5, 6, 7, 8, 9, 10, 11, 12, 13, 14, 15}"
  by simp presburger

lemma hex_digit:
  assumes "k < 16"
  shows "hts_ehexh (hex ! k) = int k" and "hex ! k \<noteq> CHR ''%''" and "hex ! k \<noteq> NUL"
  using lt16_cases[OF assms] by (auto simp: hex_def hts_ehexh_def)

lemma hts_ehex_percent:
  "hts_ehex (hex ! (ord c div 16) # hex ! (ord c mod 16) # rest) = int (ord c)"
proof -
  have "ord c div 16 < 16" using ord_less[of c] by (simp add: less_mult_imp_div_less)
  then show ?thesis
    by (simp add: hts_ehex_def hex_digit Let_def flip: of_nat_mult of_nat_add)
      (metis mult.commute mult_div_mod_eq of_nat_add of_nat_mult of_nat_numeral)
qed

text \<open>With at least as much room as there is input, the room does not matter.\<close>

lemma unescape_loop_room: "length s \<le> n \<Longrightarrow> unescape_loop n s = unescape_loop (length s) s"
proof (induction "length s" arbitrary: n s rule: less_induct)
  case less
  show ?case
  proof (cases s)
    case (Cons c t)
    have eq: "unescape_loop (n - 1) (drop k t) = unescape_loop (length s - 1) (drop k t)" for k
      using less.hyps[of "drop k t" "n - 1"] less.hyps[of "drop k t" "length s - 1"] less.prems Cons by simp
    show ?thesis
      using eq[of 0] eq[of 2] less.prems Cons
      by (simp add: unescape_loop.simps[of n "c # t"] unescape_loop.simps[of "Suc (length t)" "c # t"] numeral_3_eq_3
          numeral_2_eq_2)
  qed (simp add: unescape_loop.simps)
qed

definition unescape_all :: "cstring \<Rightarrow> cstring" where
  "unescape_all s = unescape_loop (length s) s"

lemma unescape_all_simps:
  "unescape_all [] = []"
  "unescape_all (c # s) =
     (if c = CHR ''%'' \<and> hts_ehex s \<ge> 0 then chr (nat (hts_ehex s)) # unescape_all (drop 2 s)
      else c # unescape_all s)"
  by (simp_all add: unescape_all_def unescape_loop.simps[of _ "[]"] unescape_loop.simps[of _ "c # s"]
      unescape_loop_room[of "drop 2 s" "length s"])

definition mode_ok :: "nat \<Rightarrow> char \<Rightarrow> bool" where
  "mode_ok mode c \<longleftrightarrow> escape_test mode c \<or> c \<noteq> CHR ''%''"

interpretation percent: byte_codec "escape_byte mode" unescape_all "mode_ok mode" for mode
  by unfold_locales
    (auto simp: unescape_all_simps escape_byte_def percent_byte_def mode_ok_def hts_ehex_percent)

lemma form_percent: "hts_unescapehttp (percent_byte c @ rest) = c # hts_unescapehttp rest"
proof -
  have d: "ord c div 16 < 16" "ord c mod 16 < 16"
    using ord_less[of c] by (simp_all add: less_mult_imp_div_less)
  show ?thesis
    using hex_digit[OF d(1)] hex_digit[OF d(2)] hts_ehex_percent[of c rest]
    by (simp add: percent_byte_def numeral_2_eq_2 numeral_3_eq_3
        hts_unescapehttp.simps[of "CHR ''%'' # hex ! (ord c div 16) # hex ! (ord c mod 16) # rest"])
qed

interpretation form: byte_codec "escape_byte 1" hts_unescapehttp "\<lambda>_. True"
proof unfold_locales
  show "hts_unescapehttp [] = []" by (simp add: hts_unescapehttp.simps[of "[]"])
  fix c rest
  show "hts_unescapehttp (escape_byte 1 c @ rest) = c # hts_unescapehttp rest"
  proof (cases "escape_test 1 c")
    case False
    then have "c \<noteq> CHR ''%''" "c \<noteq> CHR ''+''"
      by (auto simp: escape_test_def char_delim_def char_reserved_def)
    with False show ?thesis by (simp add: escape_byte_def hts_unescapehttp.simps[of "c # rest"])
  qed (simp add: escape_byte_def form_percent)
qed

section \<open>Partial unescaping\<close>

definition url_strict :: "char \<Rightarrow> bool" where
  "url_strict c \<longleftrightarrow> (char_reserved c \<and> c \<noteq> CHR ''+'') \<or> (char_delim c \<and> c \<noteq> CHR ''%'') \<or> char_unwise c \<or> char_low c"

lemma strict_not_hex: "url_strict c \<Longrightarrow> hts_ehexh c = -1"
  by (auto simp: url_strict_def char_reserved_def char_delim_def char_unwise_def char_low_def hts_ehexh_def)

lemma hts_ehex_split:
  assumes "0 \<le> hts_ehex s"
  obtains a b r where "s = a # b # r" "\<not> url_strict a" "\<not> url_strict b"
proof -
  have h: "0 \<le> hts_ehexh (cbyte s 0)" "0 \<le> hts_ehexh (cbyte s 1)"
    using assms by (auto simp: hts_ehex_def Let_def split: if_splits)
  have n: "hts_ehexh NUL = -1" by (simp add: hts_ehexh_def)
  obtain a t where s: "s = a # t" using h(1) n by (cases s) auto
  obtain b r where t: "t = b # r" using h(2) n s by (cases t) auto
  have "\<not> url_strict a" "\<not> url_strict b" using h s t strict_not_hex by fastforce+
  with s t show thesis by (rule_tac that[of a b r]) simp_all
qed

lemma unharm_keep_strict: "\<not> unharm_keep no_high c \<Longrightarrow> \<not> url_strict c"
  by (auto simp: unharm_keep_def url_strict_def)

lemma unharm_loop_strict:
  "prefix (filter url_strict (unharm_loop no_high n s)) (filter url_strict s) \<and>
   (length s \<le> n \<longrightarrow> filter url_strict (unharm_loop no_high n s) = filter url_strict s)"
proof (induction no_high n s rule: unharm_loop.induct)
  case (1 no_high n s)
  show ?case
  proof (cases "s = [] \<or> n = 0")
    case False
    then obtain c t where s: "s = c # t" by (cases s) auto
    show ?thesis
    proof (cases "c = CHR ''%''")
      case pct: True
      have np: "\<not> url_strict (CHR ''%'')"
        by (simp add: url_strict_def char_reserved_def char_delim_def char_unwise_def char_low_def)
      let ?d = "chr (nat (hts_ehex t mod 256))"
      show ?thesis
      proof (cases "\<not> unharm_keep no_high ?d \<and> hts_ehex t \<ge> 0")
        case True
        then obtain a b r where t: "t = a # b # r" "\<not> url_strict a" "\<not> url_strict b"
          using hts_ehex_split by blast
        have "drop 3 s = r" using s t by (simp add: numeral_3_eq_3)
        then show ?thesis
          using "1.IH"(1)[OF False _ refl refl] True pct s t unharm_keep_strict[of no_high ?d] np False
          by (simp add: unharm_loop.simps[of no_high n "CHR ''%'' # a # b # r"] Let_def)
      next
        case no: False
        have "unharm_loop no_high n s = CHR ''%'' # unharm_loop no_high (n - 1) t"
          using no pct s False unfolding unharm_loop.simps[of no_high n s] Let_def by simp blast
        then show ?thesis
          using "1.IH"(2)[OF False _ refl refl] no pct s np False by simp
      qed
    next
      case no: False
      then have "unharm_loop no_high n s = c # unharm_loop no_high (n - 1) t"
        using s False unfolding unharm_loop.simps[of no_high n s] by simp
      then show ?thesis using "1.IH"(3)[OF False] no s False by auto
    qed
  qed (auto simp: unharm_loop.simps[of no_high n s])
qed

section \<open>Base 64\<close>

definition b64_val :: "char \<Rightarrow> nat" where
  "b64_val c = length (takeWhile (\<lambda>d. d \<noteq> c) hts_base64)"

fun b64_decode :: "cstring \<Rightarrow> cstring" where
  "b64_decode (a # b # c # d # rest) =
     (let v = ((b64_val a * 64 + b64_val b) * 64 + b64_val c mod 64) * 64 + b64_val d mod 64 in
      [chr (v div 65536)] @ (if c = CHR ''='' then [] else [chr (v div 256 mod 256)]) @
      (if d = CHR ''='' then [] else [chr (v mod 256)]) @ b64_decode rest)"
| "b64_decode _ = []"

lemma hts_base64_length: "length hts_base64 = 64"
  by (simp add: hts_base64_def)

lemma b64_val_nth: "k < 64 \<Longrightarrow> b64_val (hts_base64 ! k) = k"
proof -
  assume k: "k < 64"
  have d: "distinct hts_base64" by (simp add: hts_base64_def)
  have "takeWhile (\<lambda>d. d \<noteq> hts_base64 ! k) hts_base64 = take k hts_base64"
    using d k by (intro takeWhile_eq_take_P_nth) (auto simp: hts_base64_length nth_eq_iff_index_eq)
  then show ?thesis using k by (simp add: b64_val_def hts_base64_length)
qed

lemma b64_not_pad: "k < 64 \<Longrightarrow> hts_base64 ! k \<noteq> CHR ''=''"
proof
  assume "k < 64" "hts_base64 ! k = CHR ''=''"
  then have "CHR ''='' \<in> set hts_base64" by (metis hts_base64_length nth_mem)
  then show False by (simp add: hts_base64_def)
qed

lemma b64_pad: "b64_val CHR ''='' mod 64 = 0"
  by (simp add: b64_val_def hts_base64_def)

lemma base64_digits:
  fixes st :: nat
  assumes "st < 16777216"
  shows "((st div 262144 mod 64 * 64 + st div 4096 mod 64) * 64 + st div 64 mod 64) * 64 + st mod 64 = st"
proof -
  have "st div 262144 < 64" using assms by (simp add: less_mult_imp_div_less)
  moreover have "st div 4096 div 64 = st div 262144" "st div 64 div 64 = st div 4096"
    by (simp_all add: div_mult2_eq[symmetric])
  ultimately have "st div 262144 mod 64 * 64 + st div 4096 mod 64 = st div 4096"
    "st div 4096 * 64 + st div 64 mod 64 = st div 64"
    by (metis div_mult_mod_eq mod_less)+
  then show ?thesis by simp
qed

lemma b64_decode_two:
  "i < 64 \<Longrightarrow> j < 64 \<Longrightarrow> k < 64 \<Longrightarrow>
     b64_decode (hts_base64 ! i # hts_base64 ! j # hts_base64 ! k # CHR ''='' # rest) =
       chr (((i * 64 + j) * 64 + k) * 64 div 65536) # chr (((i * 64 + j) * 64 + k) * 64 div 256 mod 256) # b64_decode rest"
  by (simp add: b64_val_nth b64_pad b64_not_pad Let_def)

lemma mod64: "(n :: nat) mod 64 < 64"
  by simp

lemma b64_decode_group:
  assumes "a \<noteq> []" and "length a \<le> 3"
  shows "b64_decode (code64_group a @ rest) = a @ b64_decode rest"
proof -
  consider x where "a = [x]" | x y where "a = [x, y]" | x y z where "a = [x, y, z]"
    using assms by (cases a; cases "tl a"; cases "tl (tl a)") auto
  then show ?thesis
  proof cases
    case (1 x)
    have "ord x * 16 mod 64 = 16 * (ord x mod 4)" using mult_mod_right[of 16 "ord x" 4] by (simp add: mult.commute)
    then have "ord x div 4 * 64 + ord x * 16 mod 64 = ord x * 16" using div_mult_mod_eq[of "ord x" 4] by linarith
    then have "262144 * (ord x div 4) + 4096 * (ord x * 16 mod 64) = ord x * 65536" by linarith
    moreover have "ord x div 4 < 64" using ord_less[of x] by (simp add: less_mult_imp_div_less)
    ultimately show ?thesis using 1
      by (simp add: code64_group_def b64_val_nth b64_pad b64_not_pad Let_def)
  next
    case (2 x y)
    let ?st = "(ord x * 256 + ord y) * 4"
    have lt: "?st < 262144" using ord_less[of x, unfolded less_eq_Suc_le] ord_less[of y, unfolded less_eq_Suc_le] by simp
    have "?st div 4096 mod 64 * 64 + ?st div 64 mod 64 = ?st div 64" "?st div 64 * 64 + ?st mod 64 = ?st"
      using base64_digits[of ?st] lt by (simp_all add: div_mult2_eq[symmetric] less_mult_imp_div_less)
    then have v: "((?st div 4096 mod 64 * 64 + ?st div 64 mod 64) * 64 + ?st mod 64) * 64 = (ord x * 256 + ord y) * 256"
      by (simp only: mult.assoc)
    have "(ord x * 256 + ord y) * 256 div 65536 = ord x" "(ord x * 256 + ord y) * 256 div 256 mod 256 = ord y"
      using ord_less[of y] by (auto intro: div_nat_eqI)
    then show ?thesis
      unfolding 2 code64_group_def Let_def list.case append.simps
      by (simp only: b64_decode_two[OF mod64 mod64 mod64] v chr_ord append.simps)
  next
    case (3 x y z)
    let ?st = "(ord x * 256 + ord y) * 256 + ord z"
    have lt: "?st < 16777216" using ord_less[of x, unfolded less_eq_Suc_le] ord_less[of y, unfolded less_eq_Suc_le]
      ord_less[of z, unfolded less_eq_Suc_le] by simp
    have "?st div 65536 = ord x" "?st div 256 mod 256 = ord y" "?st mod 256 = ord z"
    proof -
      show "?st div 65536 = ord x"
        using ord_less[of y, unfolded less_eq_Suc_le] ord_less[of z, unfolded less_eq_Suc_le]
        by (intro div_nat_eqI) simp_all
      have "?st div 256 = ord x * 256 + ord y" using ord_less[of z] by (intro div_nat_eqI) simp_all
      then show "?st div 256 mod 256 = ord y" by simp
      show "?st mod 256 = ord z" using mod_mult_self1[of "ord z" "ord x * 256 + ord y" 256]
        by (metis add.commute mod_less ord_less)
    qed
    with 3 base64_digits[OF lt] show ?thesis
      by (simp add: code64_group_def b64_val_nth b64_not_pad Let_def)
  qed
qed

lemma code64_loop_decode: "b64_decode (code64_loop False n a) = a"
proof (induction "length a" arbitrary: a rule: less_induct)
  case less
  show ?case
  proof (cases "a = []")
    case False
    then have "b64_decode (code64_loop False n a) = take 3 a @ b64_decode (code64_loop False n (drop 3 a))"
      using b64_decode_group[of "take 3 a"] by (simp add: code64_loop.simps[of False n a])
    also have "\<dots> = a" using less[of "drop 3 a"] False by simp
    finally show ?thesis .
  qed (simp add: code64_loop.simps)
qed

section \<open>Query fields\<close>

function query_fields :: "cstring option \<Rightarrow> hts_query_field list" where
  "query_fields cur = (case hts_query_next cur of None \<Rightarrow> [] | Some (cur', f) \<Rightarrow> f # query_fields cur')"
  by pat_completeness auto
termination
proof (relation "measure (\<lambda>cur. case cur of None \<Rightarrow> 0 | Some q \<Rightarrow> Suc (length q))")
  fix cur p cur' f
  assume "hts_query_next cur = Some p" and "(cur', f) = p"
  then show "(cur', cur) \<in> measure (\<lambda>cur. case cur of None \<Rightarrow> 0 | Some q \<Rightarrow> Suc (length q))"
    by (cases cur; cases cur') (auto simp: hts_query_next_def[of None] dest: hts_query_next_shorter)
qed simp

declare query_fields.simps [simp del]

definition field_text :: "hts_query_field \<Rightarrow> cstring" where
  "field_text f = key f @ (case val f of None \<Rightarrow> [] | Some v \<Rightarrow> CHR ''='' # v)"

fun join_fields :: "cstring list \<Rightarrow> cstring" where
  "join_fields [] = []"
| "join_fields [f] = f"
| "join_fields (f # g # fs) = f @ CHR ''&'' # join_fields (g # fs)"

lemma query_next_text:
  assumes "hts_query_next (Some q) = Some (cur', f)"
  shows "q = field_text f @ (case cur' of None \<Rightarrow> [] | Some r \<Rightarrow> CHR ''&'' # r)" and "len f = length (field_text f)"
    and "CHR ''='' \<notin> set (key f)" and "CHR ''&'' \<notin> set (field_text f)"
proof -
  let ?f = "takeWhile (\<lambda>c. c \<noteq> CHR ''&'') q" and ?rest = "dropWhile (\<lambda>c. c \<noteq> CHR ''&'') q"
  let ?k = "takeWhile (\<lambda>c. c \<noteq> CHR ''='') ?f" and ?v = "dropWhile (\<lambda>c. c \<noteq> CHR ''='') ?f"
  have f: "f = \<lparr>key = ?k, val = (if ?v \<noteq> [] then Some (tl ?v) else None), len = length ?f\<rparr>"
    and cur: "cur' = (if ?rest \<noteq> [] then Some (tl ?rest) else None)"
    using assms unfolding hts_query_next_def Let_def option.case by (simp_all only: option.inject prod.inject)
  have v: "?v \<noteq> [] \<Longrightarrow> ?v = CHR ''='' # tl ?v" and r: "?rest \<noteq> [] \<Longrightarrow> ?rest = CHR ''&'' # tl ?rest"
    using hd_dropWhile[of "\<lambda>c. c \<noteq> CHR ''=''" ?f] hd_dropWhile[of "\<lambda>c. c \<noteq> CHR ''&''" q]
    by (metis list.collapse)+
  have whole: "field_text f = ?f"
    using takeWhile_dropWhile_id[of "\<lambda>c. c \<noteq> CHR ''=''" ?f] v by (cases "?v = []") (simp_all only: f field_text_def hts_query_field.simps if_True if_False option.case simp_thms append_Nil2)
  show "q = field_text f @ (case cur' of None \<Rightarrow> [] | Some r \<Rightarrow> CHR ''&'' # r)"
    using takeWhile_dropWhile_id[of "\<lambda>c. c \<noteq> CHR ''&''" q] r
    unfolding whole cur by (cases "?rest = []") (simp_all only: if_True if_False option.case simp_thms append_Nil2)
  show "len f = length (field_text f)" unfolding whole by (simp add: f)
  show "CHR ''='' \<notin> set (key f)" by (auto simp: f dest: set_takeWhileD)
  show "CHR ''&'' \<notin> set (field_text f)" unfolding whole by (auto dest: set_takeWhileD)
qed

lemma query_fields_None [simp]: "query_fields None = []"
  by (simp add: query_fields.simps[of None] hts_query_next_def)

lemma query_next_Some: "\<exists>cur' f. hts_query_next (Some q) = Some (cur', f)"
  by (simp add: hts_query_next_def Let_def)

lemma query_fields_Some: "query_fields (Some q) \<noteq> []"
  using query_next_Some[of q] by (auto simp: query_fields.simps[of "Some q"])

lemma query_fields_join: "join_fields (map field_text (query_fields (Some q))) = q"
proof (induction "length q" arbitrary: q rule: less_induct)
  case less
  obtain cur' f where n: "hts_query_next (Some q) = Some (cur', f)" using query_next_Some by blast
  note t = query_next_text(1)[OF n]
  have qf: "query_fields (Some q) = f # query_fields cur'" using n by (simp add: query_fields.simps[of "Some q"])
  show ?case
  proof (cases cur')
    case None
    with t show ?thesis unfolding qf by simp
  next
    case (Some r)
    with n have "length r < length q" using hts_query_next_shorter by blast
    from less(1)[OF this] obtain g gs where "query_fields (Some r) = g # gs"
      using query_fields_Some[of r] by (cases "query_fields (Some r)") auto
    with less(1)[OF \<open>length r < length q\<close>] t Some show ?thesis
      unfolding qf by simp
  qed
qed

lemma query_fields_ok:
  "f \<in> set (query_fields cur) \<Longrightarrow>
     len f = length (field_text f) \<and> CHR ''='' \<notin> set (key f) \<and> CHR ''&'' \<notin> set (field_text f)"
proof (induction cur rule: query_fields.induct)
  case (1 cur)
  show ?case
  proof (cases cur)
    case (Some q)
    obtain cur' g where n: "hts_query_next (Some q) = Some (cur', g)" using query_next_Some by blast
    with "1.prems" Some have "f = g \<or> f \<in> set (query_fields cur')" by (simp add: query_fields.simps[of "Some q"])
    with "1.IH"[OF n[folded Some] refl] query_next_text(2-4)[OF n] show ?thesis by blast
  qed (use "1.prems" in simp)
qed

lemma hts_query_find_eq: "hts_query_find cur name = find (\<lambda>f. val f \<noteq> None \<and> key f = name) (query_fields cur)"
proof (induction cur name rule: hts_query_find.induct)
  case (1 cur name)
  show ?case
  proof (cases "hts_query_next cur")
    case (Some p)
    obtain cur' f where p: "p = (cur', f)" by fastforce
    with "1.IH"[OF Some p[symmetric]] Some show ?thesis
      by (simp add: hts_query_find.simps[of cur] query_fields.simps[of cur])
  qed (simp add: hts_query_find.simps[of cur] query_fields.simps[of cur])
qed

section \<open>The ini decoder\<close>

fun sep_pair :: "char \<Rightarrow> cstring \<Rightarrow> bool" where
  "sep_pair lastc [] = False"
| "sep_pair lastc (c # s) = ((is_retorsep lastc \<and> is_retorsep c) \<or> sep_pair c s)"

lemma unescapeini_loop_pairs:
  "list_all (\<lambda>c. \<not> is_retorsep c) s \<Longrightarrow> \<not> sep_pair lastc (unescapeini_loop lastc s)"
proof (induction lastc s rule: unescapeini_loop.induct)
  case (1 lastc s)
  show ?case
  proof (cases "s = []")
    case False
    have sub: "list_all (\<lambda>c. \<not> is_retorsep c) (drop k s)" "list_all (\<lambda>c. \<not> is_retorsep c) (tl s)" for k
      using "1.prems" by (auto simp: list_all_iff dest: in_set_dropD list.set_sel(2)[OF False])
    have pct: "\<not> is_retorsep CHR ''%''" by (simp add: is_retorsep_def)
    have hd: "\<not> is_retorsep (hd s)" using "1.prems" False by (cases s) auto
    show ?thesis
      using "1.IH"(1)[OF False _ sub(1)] "1.IH"(2)[OF False _ _ refl _ sub(1)] "1.IH"(3)[OF False _ _ refl _ sub(1)]
        "1.IH"(4)[OF False _ _ sub(2)] pct hd False
      unfolding unescapeini_loop.simps[of lastc s] Let_def by (simp split: if_split) blast
  qed (simp add: unescapeini_loop.simps[of lastc "[]"])
qed

text \<open>A single escaped line feed is decoded as it is, so it does end the line.\<close>

lemma hts_unescapeini_lone_lf: "hts_unescapeini ''%0a'' = [LF]"
  by code_simp

section \<open>Content identifiers\<close>

definition cid_mark :: "char \<Rightarrow> char" where
  "cid_mark c = (if c = CHR ''%'' then CHR ''-'' else c)"

lemma cid_mark_inj:
  "CHR ''-'' \<notin> set s \<Longrightarrow> CHR ''-'' \<notin> set t \<Longrightarrow> map cid_mark s = map cid_mark t \<Longrightarrow> s = t"
proof (induction s arbitrary: t)
  case (Cons c s)
  then show ?case by (cases t) (auto simp: cid_mark_def split: if_splits)
qed simp

lemma hex_no_dash: "k < 16 \<Longrightarrow> hex ! k \<noteq> CHR ''-''"
  using lt16_cases[of k] by (auto simp: hex_def)

lemma escape_text_no_dash: "CHR ''-'' \<notin> set (escape_text 1 s)"
proof -
  have "CHR ''-'' \<notin> set (escape_byte 1 c)" for c
    using hex_no_dash[of "ord c div 16"] hex_no_dash[of "ord c mod 16"] ord_less[of c]
    by (auto simp: escape_byte_def percent_byte_def escape_test_def char_mark_def less_mult_imp_div_less)
  then show ?thesis by (auto simp: escape_text_def)
qed

lemma make_content_id_text:
  assumes "make_content_id a f sz = Some (d, n)" and "n < sz"
  shows "d = map cid_mark (escape_text 1 (a @ f))"
proof -
  obtain d1 n1 d2 n2 where e: "escape_in_url a sz = Some (d1, n1)" "escape_in_url f (sz - n1) = Some (d2, n2)"
    "d = map cid_mark (d1 @ d2)" "n = n1 + n2"
    using assms(1) by (auto simp: make_content_id_def runtime_check_def cid_mark_def[abs_def]
      split: option.splits prod.splits if_splits)
  have 1: "d1 = escape_text 1 a" "n1 < sz"
    using e(1,4) assms(2) by (auto simp: escape_in_url_def x_escape_http_eq runtime_check_def Let_def split: if_splits)
  have "d2 = escape_text 1 f"
    using e(2,4) assms(2) 1(2)
    by (auto simp: escape_in_url_def x_escape_http_eq runtime_check_def Let_def split: if_splits)
  with 1 e(3) show ?thesis by (simp add: escape_text_def)
qed

text \<open>The second escaper aborts on its size heuristic when the host leaves exactly 8 bytes.\<close>

lemma make_content_id_abort:
  "length (escape_text 1 a) + 8 = sz \<Longrightarrow> sz \<noteq> 8 \<Longrightarrow> make_content_id a f sz = None"
  by (simp add: make_content_id_def escape_in_url_def x_escape_http_room)
    (auto simp: x_escape_http_def runtime_check_def)

section \<open>Properties\<close>

text \<open>
  C33. What \<open>x_escape_http\<close> stores without overflowing, in any mode, is decoded by
  \<open>unescape_http\<close> to the original text, provided the text holds no percent sign or the mode
  escapes it.
\<close>

theorem escape_unescape:
  assumes "x_escape_http s sz mode = Some (t, n)" and "n < sz"
    and "CHR ''%'' \<in> set s \<Longrightarrow> mode = 1 \<or> mode = 30" and "length t < sz'" and "sz' \<noteq> 8"
  shows "unescape_http sz' t = Some s"
proof -
  have "list_all (mode_ok mode) s"
    using assms(3) by (auto simp: list_all_iff mode_ok_def escape_test_def char_delim_def)
  moreover have "t = escape_text mode s"
    using assms(1,2) by (auto simp: x_escape_http_eq runtime_check_def Let_def split: if_splits)
  ultimately have "unescape_all t = s" using percent.dec_text[of mode s] by (simp add: escape_text_def)
  moreover have "unescape_loop (sz' - 1) t = unescape_all t"
    using assms(4) unescape_loop_room[of t "sz' - 1"] by (simp add: unescape_all_def)
  ultimately show ?thesis using assms(5) by (simp add: unescape_http_def runtime_check_def)
qed

theorem escape_unescape_witness: "unescape_http 16 ''a%20%25'' = Some ''a %''"
  by (rule escape_unescape[of "''a %''" 16 1 _ 7])
    (simp_all add: x_escape_http_def runtime_check_def escape_result_def escape_byte_def escape_test_def percent_byte_def
      hex_def char_reserved_def char_delim_def char_unwise_def char_special_def char_low_def char_hig_def
      char_xxavoid_def char_mark_def)

text \<open>
  The form decoder of \<open>htsescape.c\<close> gives back every text that \<open>escape_in_url\<close> stored whole.
\<close>

theorem escape_in_url_form:
  assumes "escape_in_url s sz = Some (t, n)" and "n < sz"
  shows "hts_unescapehttp t = s"
proof -
  have "t = concat (map (escape_byte 1) s)"
    using assms by (auto simp: escape_in_url_def x_escape_http_eq runtime_check_def Let_def escape_text_def split: if_splits)
  then show ?thesis using form.dec_text[of s] by (simp add: list_all_iff)
qed

theorem escape_in_url_form_witness: "hts_unescapehttp ''%2bz'' = ''+z''"
  by (rule escape_in_url_form[of "''+z''" 16 _ 4])
    (simp_all add: escape_in_url_def x_escape_http_def runtime_check_def escape_result_def escape_byte_def escape_test_def
      percent_byte_def hex_def char_reserved_def char_delim_def char_unwise_def char_special_def char_low_def
      char_hig_def char_xxavoid_def char_mark_def)

text \<open>
  C34. \<open>unescape_http_unharm\<close> never changes the structure of a URL: the separators, delimiters,
  unwise and control bytes of its result are a prefix of those of its argument, all of them when
  the buffer is large enough.
\<close>

theorem unescape_http_unharm_structure:
  assumes "unescape_http_unharm sz s no_high = Some t"
  defines "strict \<equiv> filter (\<lambda>c. (char_reserved c \<and> c \<noteq> CHR ''+'') \<or> (char_delim c \<and> c \<noteq> CHR ''%'') \<or>
    char_unwise c \<or> char_low c)"
  shows "prefix (strict t) (strict s) \<and> (length s < sz \<longrightarrow> strict t = strict s)"
proof -
  have s: "strict = filter url_strict" unfolding strict_def url_strict_def[abs_def] ..
  have "t = unharm_loop no_high (sz - 1) s"
    using assms(1) by (auto simp: unescape_http_unharm_def runtime_check_def split: if_splits)
  then show ?thesis using unharm_loop_strict[of no_high "sz - 1" s] unfolding s by auto
qed

theorem unescape_http_unharm_structure_witness:
  "prefix (filter (\<lambda>c. (char_reserved c \<and> c \<noteq> CHR ''+'') \<or> (char_delim c \<and> c \<noteq> CHR ''%'') \<or> char_unwise c \<or> char_low c) ''/a%2f'')
     (filter (\<lambda>c. (char_reserved c \<and> c \<noteq> CHR ''+'') \<or> (char_delim c \<and> c \<noteq> CHR ''%'') \<or> char_unwise c \<or> char_low c) ''/%61%2f'')"
proof -
  have "unescape_http_unharm 16 ''/%61%2f'' 0 = Some ''/a%2f''" by code_simp
  from unescape_http_unharm_structure[OF this] show ?thesis by blast
qed



text \<open>
  Decoding base 64 groups gives back the bytes \<open>code64\<close> encoded, padding included.
\<close>

theorem code64_roundtrip: "b64_decode (code64 a False) = a"
  unfolding code64_def by (rule code64_loop_decode)

text \<open>
  Reading fields with \<open>hts_query_next\<close> until none is left splits the query and nothing else:
  the field texts joined by ampersands are the query, no key holds an equals sign, the lengths are
  right, and \<open>hts_query_find\<close> returns the first field with a value whose key is the name.
\<close>

theorem hts_query_fields_spec:
  "join_fields (map field_text (query_fields (Some q))) = q \<and>
   list_all (\<lambda>f. len f = length (field_text f) \<and> CHR ''='' \<notin> set (key f) \<and> CHR ''&'' \<notin> set (field_text f))
     (query_fields (Some q)) \<and>
   hts_query_find (Some q) name = find (\<lambda>f. val f \<noteq> None \<and> key f = name) (query_fields (Some q))"
  using query_fields_join hts_query_find_eq query_fields_ok by (auto simp: list_all_iff)

end
