(* ===== verification/Url.thy ===== *)
theory Url
  imports CStrings
begin

text \<open>
  The URL functions of \<open>htslib.c\<close>: jumping over the scheme, the credentials and the host, cutting an
  absolute URL into host and path (\<open>ident_url_absolute\<close>), and removing dot segments
  (\<open>fil_simplifie\<close>).  A pointer into a URL is the suffix it points at.
\<close>

definition HTS_URLMAXSIZE :: nat where "HTS_URLMAXSIZE = 1024"

section \<open>Scheme, credentials, host\<close>

definition strchr :: "cstring \<Rightarrow> char \<Rightarrow> cstring option" where
  "strchr s c = (case dropWhile (\<lambda>x. x \<noteq> c) s of [] \<Rightarrow> None | r # rs \<Rightarrow> Some (r # rs))"

text \<open>The suffix after the last \<open>c\<close> before the limit; \<open>i\<close> is the offset of \<open>s\<close>, \<open>a\<close> the match so far.\<close>

fun limit_loop :: "char \<Rightarrow> nat \<Rightarrow> nat \<Rightarrow> cstring option \<Rightarrow> cstring \<Rightarrow> cstring option" where
  "limit_loop c lim i a [] = a"
| "limit_loop c lim i a (x # s) =
     (if x = c then (if i \<ge> lim then a else limit_loop c lim (Suc i) (Some s) s)
      else limit_loop c lim (Suc i) a s)"

definition strrchr_limit :: "cstring \<Rightarrow> char \<Rightarrow> cstring option \<Rightarrow> cstring option" where
  "strrchr_limit s c limit =
     limit_loop c (case limit of None \<Rightarrow> length s | Some l \<Rightarrow> length s - length l) 0 None s"

definition jump_schemes :: "cstring list" where
  "jump_schemes = [''http:'', ''ftp:'', ''https:'', ''file:'', ''socks5h:'', ''socks5:'', ''connect:'']"

fun skip_scheme :: "cstring list \<Rightarrow> cstring \<Rightarrow> cstring" where
  "skip_scheme [] source = source"
| "skip_scheme (s # ss) source =
     (if strfield source s \<noteq> 0 then drop (strfield source s) source else skip_scheme ss source)"

definition jump_protocol :: "cstring \<Rightarrow> cstring" where
  "jump_protocol source =
     (let source = skip_scheme jump_schemes source in
      if take 2 source = ''//'' then drop 2 source else source)"

definition jump_identification :: "cstring \<Rightarrow> cstring" where
  "jump_identification source =
     (if source = ''file://'' then source
      else let a = jump_protocol source in
        (case strrchr_limit a CHR ''@'' (strchr a CHR ''/'') of None \<Rightarrow> a | Some r \<Rightarrow> r))"

definition jump_normalized :: "cstring \<Rightarrow> cstring" where
  "jump_normalized source =
     (if source = ''file://'' then source
      else
        let source = jump_identification source in
        if strfield source ''www'' \<noteq> 0 \<and> cbyte source 3 \<noteq> NUL then
          (if cbyte source 3 = CHR ''.'' then drop 4 source
           else
             let a = dropWhile (\<lambda>c. isdigit c \<or> c = CHR ''-'') (drop 3 source) in
             if cbyte a 0 = CHR ''.'' then tl a else source)
        else source)"

definition jump_toport :: "cstring \<Rightarrow> cstring option" where
  "jump_toport source =
     (let a = jump_identification source in
      strchr (case strrchr_limit a CHR '']'' (strchr a CHR ''/'') of None \<Rightarrow> a | Some r \<Rightarrow> r) CHR '':'')"

definition adr_normalized_sized :: "cstring \<Rightarrow> nat \<Rightarrow> cstring option" where
  "adr_normalized_sized source destsize =
     (if length (jump_normalized source) < destsize then Some (jump_normalized source) else None)"

definition hts_is_control_free :: "cstring \<Rightarrow> bool" where
  "hts_is_control_free s \<longleftrightarrow> list_all (\<lambda>c. \<not> ord c < ord CHR '' '') s"

fun ipv4_loop :: "nat \<Rightarrow> cstring \<Rightarrow> bool" where
  "ipv4_loop dots [] = (dots > 0)"
| "ipv4_loop dots (c # host) =
     (if c = CHR ''.'' then ipv4_loop (Suc dots) host
      else if ord c < ord CHR ''0'' \<or> ord c > ord CHR ''9'' then False else ipv4_loop dots host)"

definition hts_host_is_ipv4 :: "cstring \<Rightarrow> bool" where
  "hts_host_is_ipv4 host = ipv4_loop 0 host"

definition hts_host_is_address :: "cstring \<Rightarrow> bool" where
  "hts_host_is_address host \<longleftrightarrow> CHR '':'' \<in> set host \<or> hts_host_is_ipv4 host"

text \<open>The name sent for SNI, when there is one that fits.\<close>

definition hts_sni_hostname :: "cstring \<Rightarrow> nat \<Rightarrow> cstring option" where
  "hts_sni_hostname url_adr sz =
     (let host = jump_identification url_adr;
          len = min (length (takeWhile (\<lambda>c. c \<notin> set ''/?#'') host)) (length (takeWhile (\<lambda>c. c \<noteq> CHR '':'') host))
      in if len = 0 \<or> len \<ge> sz \<or> cbyte host 0 = CHR ''['' \<or> hts_host_is_ipv4 (take len host) then None
         else Some (take len host))"

section \<open>Dot segments\<close>

text \<open>
  The in-place loop of \<open>fil_simplifie\<close>: \<open>b\<close> is what is written, \<open>rb\<close> the rollback positions, \<open>lc\<close>
  the last byte copied.  \<open>None\<close> is the error of a path with too many directories.
\<close>

function simplify_loop :: "bool \<Rightarrow> bool \<Rightarrow> char \<Rightarrow> cstring \<Rightarrow> nat list \<Rightarrow> cstring \<Rightarrow> cstring option" where
  "simplify_loop absolute query lc b rb a =
     (if a = [] then Some b
      else
        let query = (query \<or> hd a = CHR ''?'') in
        if \<not> query \<and> lc = CHR ''/'' \<and> cbyte a 0 = CHR ''.'' \<and> cbyte a 1 = CHR ''/'' then
          simplify_loop absolute query lc b rb (drop 2 a)
        else if \<not> query \<and> lc = CHR ''/'' \<and> cbyte a 0 = CHR ''.'' \<and> cbyte a 1 = CHR ''.'' \<and>
                (cbyte a 2 = CHR ''/'' \<or> cbyte a 2 = NUL) then
          (let a = drop (if cbyte a 2 = NUL then 2 else 3) a in
           if length rb > 1 then
             simplify_loop absolute query lc (take (rb ! (length rb - 2)) b) (butlast rb) a
           else simplify_loop absolute query lc (if absolute then take 1 b else []) [] a)
        else
          (let b = b @ [hd a] in
           if hd a = CHR ''/'' then
             (if length rb + 1 \<ge> 127 then None
              else simplify_loop absolute query (hd a) b (rb @ [length b]) (tl a))
           else simplify_loop absolute query (hd a) b rb (tl a)))"
  by pat_completeness auto
termination
  by (relation "measure (\<lambda>(absolute, query, lc, b, rb, a). length a)") auto

declare simplify_loop.simps [simp del]

definition fil_simplifie :: "cstring \<Rightarrow> cstring" where
  "fil_simplifie f =
     (let absolute = (cbyte f 0 = CHR ''/'');
          r = (case simplify_loop absolute False CHR ''/'' [] [] f of None \<Rightarrow> [] | Some b \<Rightarrow> b)
      in if r = [] then (if absolute then ''/'' else ''./'') else r)"

section \<open>Absolute URLs\<close>

definition isalpha :: "char \<Rightarrow> bool" where
  "isalpha c \<longleftrightarrow> (ord CHR ''A'' \<le> ord c \<and> ord c \<le> ord CHR ''Z'') \<or> (ord CHR ''a'' \<le> ord c \<and> ord c \<le> ord CHR ''z'')"

record lien_adrfil =
  adr :: cstring
  fil :: cstring

text \<open>The address prefix a known scheme leaves and the bytes it takes; \<open>None\<close> for an unknown scheme.\<close>

definition url_scheme :: "bool \<Rightarrow> cstring \<Rightarrow> (cstring \<times> nat) option" where
  "url_scheme use_ssl url =
     (if strfield url ''file:'' \<noteq> 0 then Some (''file://'', strfield url ''file:'')
      else if strfield url ''http:'' \<noteq> 0 then Some ([], strfield url ''http:'')
      else if strfield url ''ftp:'' \<noteq> 0 then Some (''ftp://'', strfield url ''ftp:'')
      else if use_ssl \<and> strfield url ''https:'' \<noteq> 0 then Some (''https://'', strfield url ''https:'')
      else if cbyte (dropWhile isalpha url) 0 = CHR '':'' then None
      else Some ([], 0))"

text \<open>The first slash of the path after the credentials, or the first question mark, or the end.\<close>

definition url_path :: "cstring \<Rightarrow> cstring" where
  "url_path p =
     (case strchr (jump_identification p) CHR ''/'' of
        Some q \<Rightarrow> q
      | None \<Rightarrow> (case strchr (jump_identification p) CHR ''?'' of Some q \<Rightarrow> q | None \<Rightarrow> []))"

definition url_net :: "cstring \<Rightarrow> cstring \<Rightarrow> lien_adrfil option" where
  "url_net pfx p =
     (let q = url_path p; n = length p - length q in
      if n > HTS_URLMAXSIZE then None
      else if length q \<ge> HTS_URLMAXSIZE * 2 - (if cbyte q 0 \<noteq> CHR ''/'' then 1 else 0) then None
      else Some \<lparr>adr = pfx @ take n p,
                 fil = fil_simplifie ((if cbyte q 0 \<noteq> CHR ''/'' then ''/'' else []) @ q)\<rparr>)"

definition url_file :: "cstring \<Rightarrow> cstring \<Rightarrow> lien_adrfil" where
  "url_file pfx p =
     (let f = (if cbyte p 0 = CHR ''/'' \<or> cbyte p 0 = BACKSLASH then p
               else if p = [] \<or> cbyte p 1 \<noteq> CHR '':'' then ''//'' @ p else p);
          f = takeWhile (\<lambda>c. c \<noteq> CHR ''?'') f;
          f = map (\<lambda>c. if c = BACKSLASH then CHR ''/'' else c) f
      in \<lparr>adr = pfx, fil = fil_simplifie f\<rparr>)"

definition lower_host :: "cstring \<Rightarrow> cstring" where
  "lower_host a = take (length a - length (jump_identification a)) a @ hts_lowcase (jump_identification a)"

definition ident_url_absolute :: "bool \<Rightarrow> cstring \<Rightarrow> lien_adrfil option" where
  "ident_url_absolute use_ssl url =
     (if length url \<ge> HTS_URLMAXSIZE * 2 then None
      else
        case url_scheme use_ssl url of
          None \<Rightarrow> None
        | Some (pfx, pos) \<Rightarrow>
            (let p = drop pos url; p = (if take 2 p = ''//'' then drop 2 p else p) in
             case (if strfield pfx ''file:'' = 0 then url_net pfx p else Some (url_file pfx p)) of
               None \<Rightarrow> None
             | Some af \<Rightarrow>
                 if adr af = [] then None
                 else Some \<lparr>adr = lower_host (adr af),
                            fil = (if fil af = [] then ''default-index.html'' else fil af)\<rparr>))"

end
