(* ===== verification/UrlClaims.thy ===== *)
theory UrlClaims
  imports Url
begin

text \<open>
  The dot-segment loop of \<open>fil_simplifie\<close> against a stack of directory names, and what
  \<open>ident_url_absolute\<close> guarantees: no dot-dot directory survives, an absolute path stays absolute,
  and both parts fit the buffers they are copied to.
\<close>

section \<open>The stack reading of a path\<close>

abbreviation SLASH :: char where "SLASH \<equiv> CHR ''/''"

definition dir_pop :: "bool \<Rightarrow> cstring list \<Rightarrow> cstring list" where
  "dir_pop absolute st = (if length st > (if absolute then 1 else 0) then butlast st else st)"

definition dir_step :: "bool \<Rightarrow> cstring list \<Rightarrow> cstring \<Rightarrow> cstring list" where
  "dir_step absolute st seg =
     (if seg = ''.'' then st else if seg = ''..'' then dir_pop absolute st else st @ [seg])"

definition stack_path :: "bool \<Rightarrow> bool \<Rightarrow> cstring list \<Rightarrow> cstring \<Rightarrow> cstring" where
  "stack_path absolute hasq dirs leaf =
     (let st = foldl (dir_step absolute) [] dirs in
      if leaf = ''..'' \<and> \<not> hasq then close_segs SLASH (dir_pop absolute st) else close_segs SLASH st @ leaf)"

section \<open>The loop on one segment\<close>

definition positions :: "cstring list \<Rightarrow> nat list" where
  "positions st = map (\<lambda>i. length (close_segs SLASH (take (Suc i) st))) [0..<length st]"

lemma positions_snoc: "positions (st @ [s]) = positions st @ [length (close_segs SLASH (st @ [s]))]"
  by (simp add: positions_def)

lemma positions_length [simp]: "length (positions st) = length st"
  by (simp add: positions_def)

text \<open>The loop between two segments, with the stack \<open>st\<close>: after a climb above the root the code
  forgets the position of the root itself.\<close>

definition at_dir :: "bool \<Rightarrow> cstring list \<Rightarrow> cstring \<Rightarrow> nat list \<Rightarrow> bool" where
  "at_dir absolute st b rb \<longleftrightarrow> b = close_segs SLASH st \<and>
     (rb = positions st \<or> (absolute \<and> st \<noteq> [] \<and> rb = tl (positions st))) \<and>
     (absolute \<and> st \<noteq> [] \<longrightarrow> hd st = [])"

lemma at_dir_length: "at_dir absolute st b rb \<Longrightarrow> length rb \<le> length st"
  by (auto simp: at_dir_def)

lemma at_dir_push:
  assumes "at_dir absolute st b rb" and "absolute \<and> st = [] \<longrightarrow> s = []"
  shows "at_dir absolute (st @ [s]) (b @ s @ [SLASH]) (rb @ [length (b @ s @ [SLASH])])"
proof -
  have "length (close_segs SLASH (st @ [s])) = length (b @ s @ [SLASH])" using assms(1) by (simp add: at_dir_def)
  then have "positions (st @ [s]) = positions st @ [length (b @ s @ [SLASH])]" by (simp only: positions_snoc)
  moreover have "st \<noteq> [] \<Longrightarrow> positions st \<noteq> []" using positions_length[of st] by (metis length_0_conv)
  ultimately show ?thesis using assms by (cases "st = []") (auto simp: at_dir_def)
qed

lemma close_segs_butlast: "st \<noteq> [] \<Longrightarrow> take (length (close_segs SLASH (butlast st))) (close_segs SLASH st) = close_segs SLASH (butlast st)"
  by (metis append_butlast_last_id append_eq_conv_conj close_segs_simps(3))

text \<open>What one dot-dot does to the written bytes and the positions.\<close>

lemma at_dir_pop:
  assumes d: "at_dir absolute st b rb" and r: "absolute \<Longrightarrow> st \<noteq> []"
  shows "length rb > 1 \<Longrightarrow> at_dir absolute (dir_pop absolute st) (take (rb ! (length rb - 2)) b) (butlast rb)"
    and "\<not> length rb > 1 \<Longrightarrow> at_dir absolute (dir_pop absolute st) (if absolute then take 1 b else []) []"
proof -
  have pos: "positions st = positions (butlast st) @ [length (close_segs SLASH st)]" if "st \<noteq> []"
    using that positions_snoc[of "butlast st" "last st"] by simp
  {
    assume long: "length rb > 1"
    then have st: "length st > 1" using at_dir_length[OF d] by simp
    then have ne: "st \<noteq> []" by auto
    have ne2: "butlast st \<noteq> []" using st by (cases st; cases "tl st") auto
    have pp: "positions (butlast st) = positions (butlast (butlast st)) @ [length (close_segs SLASH (butlast st))]"
      using ne2 positions_snoc[of "butlast (butlast st)" "last (butlast st)"] by simp
    have "rb ! (length rb - 2) = length (close_segs SLASH (butlast st)) \<and>
        (butlast rb = positions (butlast st) \<or> (absolute \<and> butlast rb = tl (positions (butlast st))))"
    proof (cases "rb = positions st")
      case True
      then show ?thesis unfolding True pos[OF ne] pp by (simp add: nth_append butlast_append)
    next
      case False
      then have rb: "rb = tl (positions st)" and ab: absolute using d by (auto simp: at_dir_def)
      then have len: "length st > 2" using long by simp
      then have "length (butlast (butlast st)) > 0" by simp
      then have "positions (butlast (butlast st)) \<noteq> []" by (metis positions_length length_greater_0_conv)
      then obtain x xs where xs: "positions (butlast (butlast st)) = x # xs" by (cases "positions (butlast (butlast st))") auto
      show ?thesis unfolding rb pos[OF ne] pp xs using ab by (simp add: nth_append butlast_append)
    qed
    moreover have "hd (butlast st) = hd st" using ne2 ne by (cases st; cases "tl st") auto
    ultimately show "at_dir absolute (dir_pop absolute st) (take (rb ! (length rb - 2)) b) (butlast rb)"
      using d st ne ne2 close_segs_butlast[OF ne] by (auto simp: at_dir_def dir_pop_def)
  next
    assume short: "\<not> length rb > 1"
    show "at_dir absolute (dir_pop absolute st) (if absolute then take 1 b else []) []"
    proof (cases absolute)
      case True
      with d r have st: "st \<noteq> []" "hd st = []" by (auto simp: at_dir_def)
      have "length rb = length st \<or> Suc (length rb) = length st" using d st(1) by (auto simp: at_dir_def)
      with short have "length st \<le> 2" by auto
      with st have "dir_pop True st = [[]]" by (cases st; cases "tl st") (auto simp: dir_pop_def)
      moreover have "take 1 b = [SLASH]" using d st by (cases st) (auto simp: at_dir_def)
      ultimately show ?thesis using True by (simp add: at_dir_def positions_def)
    next
      case False
      with d have "rb = positions st" by (auto simp: at_dir_def)
      with short have "length st \<le> 1" by (simp flip: positions_length)
      then have "dir_pop False st = []" by (cases st) (auto simp: dir_pop_def)
      with False show ?thesis by (simp add: at_dir_def positions_def)
    qed
  }
qed

text \<open>Copying bytes inside a segment, and the rest from the question mark on.\<close>

lemma simplify_copy:
  "lc \<noteq> SLASH \<Longrightarrow> list_all (\<lambda>c. c \<noteq> SLASH \<and> c \<noteq> CHR ''?'') s \<Longrightarrow>
     simplify_loop absolute False lc b rb (s @ r) = simplify_loop absolute False (last (lc # s)) (b @ s) rb r"
proof (induction s arbitrary: lc b)
  case (Cons c s)
  then show ?case by (simp add: simplify_loop.simps[of absolute False lc b rb "c # s @ r"])
qed simp

lemma simplify_query: "length rb + count_list s SLASH < 127 \<Longrightarrow>
     simplify_loop absolute True lc b rb s = Some (b @ s)"
proof (induction s arbitrary: lc b rb)
  case (Cons c s)
  then show ?case by (auto simp: simplify_loop.simps[of absolute True lc b rb "c # s"] Let_def)
qed (simp add: simplify_loop.simps)

lemma simplify_query_cases: "simplify_loop absolute True lc b rb s \<in> {None, Some (b @ s)}"
proof (induction s arbitrary: lc b rb)
  case (Cons c s)
  then show ?case
    using Cons[of c "b @ [c]" rb] Cons[of c "b @ [c]" "rb @ [Suc (length b)]"]
    by (auto simp: simplify_loop.simps[of absolute True lc b rb "c # s"] Let_def)
qed (simp add: simplify_loop.simps)

lemma simplify_qmark:
  "simplify_loop absolute False lc b rb (CHR ''?'' # s) = simplify_loop absolute True lc b rb (CHR ''?'' # s)"
  by (simp add: simplify_loop.simps[of absolute _ lc b rb "CHR ''?'' # s"] Let_def)

abbreviation plain_seg :: "cstring \<Rightarrow> bool" where
  "plain_seg s \<equiv> list_all (\<lambda>c. c \<noteq> SLASH \<and> c \<noteq> CHR ''?'' \<and> c \<noteq> NUL) s"

text \<open>The first byte of a segment that is neither dot nor dot-dot is copied.\<close>

lemma simplify_first:
  assumes "plain_seg (c # s)" and "c # s \<noteq> ''.'' \<or> cbyte r 0 \<noteq> SLASH"
    and "c # s \<noteq> ''..'' \<or> (cbyte r 0 \<noteq> SLASH \<and> cbyte r 0 \<noteq> NUL)" and "cbyte r 0 \<noteq> CHR ''.''"
  shows "simplify_loop absolute False SLASH b rb (c # s @ r) = simplify_loop absolute False c (b @ [c]) rb (s @ r)"
proof -
  have "\<not> (c = CHR ''.'' \<and> cbyte (s @ r) 0 = SLASH)"
    using assms(1,2) by (cases s) auto
  moreover have "\<not> (c = CHR ''.'' \<and> cbyte (s @ r) 0 = CHR ''.'' \<and> (cbyte (s @ r) 1 = SLASH \<or> cbyte (s @ r) 1 = NUL))"
    using assms by (cases s; cases "tl s") auto
  moreover have "cbyte (c # s @ r) 2 = cbyte (s @ r) 1" by (simp add: numeral_2_eq_2 cbyte_def)
  ultimately show ?thesis
    using assms(1) by (auto simp: simplify_loop.simps[of absolute False SLASH b rb "c # s @ r"] Let_def)
qed

lemma simplify_plain:
  assumes "plain_seg s" and "s \<noteq> ''.'' \<or> cbyte r 0 \<noteq> SLASH"
    and "s \<noteq> ''..'' \<or> (cbyte r 0 \<noteq> SLASH \<and> cbyte r 0 \<noteq> NUL)" and "cbyte r 0 \<noteq> CHR ''.''"
  shows "\<exists>lc. (s \<noteq> [] \<longrightarrow> lc \<noteq> SLASH) \<and>
    simplify_loop absolute False SLASH b rb (s @ r) = simplify_loop absolute False lc (b @ s) rb r"
proof (cases s)
  case (Cons c t)
  have "last (c # t) \<in> set s" using Cons by simp
  then have "last (c # t) \<noteq> SLASH" using assms(1) by (auto simp: list_all_iff)
  moreover have "simplify_loop absolute False SLASH b rb (s @ r) = simplify_loop absolute False (last (c # t)) (b @ s) rb r"
    using simplify_first[of c t r absolute b rb] simplify_copy[of c t absolute "b @ [c]" rb r] assms Cons
    by (auto simp: list_all_iff)
  ultimately show ?thesis by blast
qed auto

lemma simplify_dir:
  assumes "plain_seg s" and "at_dir absolute st b rb" and "absolute \<and> st = [] \<longrightarrow> s = []"
  shows "(\<exists>b' rb'. at_dir absolute (dir_step absolute st s) b' rb' \<and> length rb' \<le> Suc (length rb) \<and>
      simplify_loop absolute False SLASH b rb (s @ SLASH # r) = simplify_loop absolute False SLASH b' rb' r) \<or>
    (127 \<le> Suc (length rb) \<and> simplify_loop absolute False SLASH b rb (s @ SLASH # r) = None)"
proof -
  consider "s = ''.''" | "s = ''..''" | "s \<noteq> ''.''" "s \<noteq> ''..''" by blast
  then show ?thesis
  proof cases
    case 1
    then have "simplify_loop absolute False SLASH b rb (s @ SLASH # r) = simplify_loop absolute False SLASH b rb r"
      by (simp add: simplify_loop.simps[of absolute False SLASH b rb "CHR ''.'' # SLASH # r"] Let_def numeral_2_eq_2)
    with 1 assms(2) show ?thesis by (intro disjI1 exI[of _ b] exI[of _ rb]) (simp add: dir_step_def)
  next
    case 2
    then have ne: "absolute \<Longrightarrow> st \<noteq> []" using assms(3) by auto
    have step: "simplify_loop absolute False SLASH b rb (s @ SLASH # r) =
        (if length rb > 1 then simplify_loop absolute False SLASH (take (rb ! (length rb - 2)) b) (butlast rb) r
         else simplify_loop absolute False SLASH (if absolute then take 1 b else []) [] r)"
      using 2 by (simp add: simplify_loop.simps[of absolute False SLASH b rb "CHR ''.'' # CHR ''.'' # SLASH # r"] Let_def
          numeral_3_eq_3 numeral_2_eq_2)
    have ds: "dir_step absolute st s = dir_pop absolute st" using 2 by (simp add: dir_step_def)
    show ?thesis
    proof (cases "length rb > 1")
      case True
      with at_dir_pop(1)[OF assms(2) ne True] show ?thesis unfolding step ds
        by (intro disjI1 exI[of _ "take (rb ! (length rb - 2)) b"] exI[of _ "butlast rb"]) simp
    next
      case False
      with at_dir_pop(2)[OF assms(2) ne False] show ?thesis unfolding step ds
        by (intro disjI1 exI[of _ "if absolute then take 1 b else []"] exI[of _ "[]"]) simp
    qed
  next
    case 3
    then have ds: "dir_step absolute st s = st @ [s]" by (simp add: dir_step_def)
    from simplify_plain[OF assms(1), of "SLASH # r" absolute b rb] 3
    obtain lc where lc: "s \<noteq> [] \<longrightarrow> lc \<noteq> SLASH"
      "simplify_loop absolute False SLASH b rb (s @ SLASH # r) = simplify_loop absolute False lc (b @ s) rb (SLASH # r)"
      by auto
    have "simplify_loop absolute False lc (b @ s) rb (SLASH # r) =
        (if length rb + 1 \<ge> 127 then None
         else simplify_loop absolute False SLASH (b @ s @ [SLASH]) (rb @ [length (b @ s @ [SLASH])]) r)"
      by (simp add: simplify_loop.simps[of absolute False lc "b @ s" rb "SLASH # r"] Let_def)
    note after = this
    show ?thesis
    proof (cases "length rb + 1 \<ge> 127")
      case True
      with lc(2) after show ?thesis by simp
    next
      case False
      with lc(2) after at_dir_push[OF assms(2,3)] show ?thesis unfolding ds
        by (intro disjI1 exI[of _ "b @ s @ [SLASH]"] exI[of _ "rb @ [length (b @ s @ [SLASH])]"]) simp
    qed
  qed
qed

lemma simplify_file:
  assumes "plain_seg s" and "at_dir absolute st b rb" and "absolute \<Longrightarrow> st \<noteq> []"
    and "q = [] \<or> hd q = CHR ''?''"
  defines "r \<equiv> (if s = ''..'' \<and> q = [] then close_segs SLASH (dir_pop absolute st) else close_segs SLASH st @ s @ q)"
  shows "simplify_loop absolute False SLASH b rb (s @ q) \<in> {None, Some r}"
    and "length rb + count_list q SLASH < 127 \<Longrightarrow> simplify_loop absolute False SLASH b rb (s @ q) = Some r"
proof -
  have b: "b = close_segs SLASH st" using assms(2) by (simp add: at_dir_def)
  have "simplify_loop absolute False SLASH b rb (s @ q) = Some r \<or>
      (q \<noteq> [] \<and> r = b @ s @ q \<and> (\<exists>lc. simplify_loop absolute False SLASH b rb (s @ q) = simplify_loop absolute True lc (b @ s) rb q))"
  proof (cases "s = ''..'' \<and> q = []")
    case True
    have "simplify_loop absolute False SLASH b rb ''..'' =
        (if length rb > 1 then Some (take (rb ! (length rb - 2)) b) else Some (if absolute then take 1 b else []))"
      by (simp add: simplify_loop.simps[of absolute False SLASH b rb "''..''"] simplify_loop.simps[of _ _ _ _ _ "[]"] Let_def
          numeral_2_eq_2)
    then show ?thesis
      using True at_dir_pop[OF assms(2,3)] by (auto simp: r_def at_dir_def)
  next
    case False
    have q0: "q \<noteq> [] \<Longrightarrow> cbyte q 0 = CHR ''?''" using assms(4) by (cases q) auto
    have "cbyte q 0 \<noteq> SLASH" "cbyte q 0 \<noteq> CHR ''.''" using q0 by (cases "q = []"; simp)+
    moreover have "s \<noteq> ''..'' \<or> (cbyte q 0 \<noteq> SLASH \<and> cbyte q 0 \<noteq> NUL)" using False q0 by auto
    ultimately obtain lc where lc: "simplify_loop absolute False SLASH b rb (s @ q) = simplify_loop absolute False lc (b @ s) rb q"
      using simplify_plain[OF assms(1), of q absolute b rb] by blast
    show ?thesis
    proof (cases q)
      case Nil
      with lc b show ?thesis using False by (simp add: r_def simplify_loop.simps[of _ _ _ _ _ "[]"])
    next
      case (Cons x t)
      then have "x = CHR ''?''" using assms(4) by simp
      with lc simplify_qmark Cons b show ?thesis by (auto simp: r_def)
    qed
  qed
  then show "simplify_loop absolute False SLASH b rb (s @ q) \<in> {None, Some r}"
    and "length rb + count_list q SLASH < 127 \<Longrightarrow> simplify_loop absolute False SLASH b rb (s @ q) = Some r"
    using simplify_query_cases[of absolute _ "b @ s" rb q] simplify_query[of rb q absolute _ "b @ s"]
    unfolding append.assoc by (metis insertCI singletonD insertE)+
qed

lemma dir_step_nonempty: "absolute \<Longrightarrow> st \<noteq> [] \<Longrightarrow> dir_step absolute st s \<noteq> []"
  by (cases st) (auto simp: dir_step_def dir_pop_def)

lemma simplify_dirs:
  assumes "\<forall>s \<in> set dirs. plain_seg s" and "plain_seg leaf" and "q = [] \<or> hd q = CHR ''?''"
    and "at_dir absolute st b rb" and "absolute \<Longrightarrow> st \<noteq> [] \<or> (dirs \<noteq> [] \<and> hd dirs = [])"
  defines "st' \<equiv> foldl (dir_step absolute) st dirs"
  defines "r \<equiv> (if leaf = ''..'' \<and> q = [] then close_segs SLASH (dir_pop absolute st') else close_segs SLASH st' @ leaf @ q)"
  shows "simplify_loop absolute False SLASH b rb (close_segs SLASH dirs @ leaf @ q) \<in> {None, Some r} \<and>
    (length rb + length dirs + count_list q SLASH < 127 \<longrightarrow>
       simplify_loop absolute False SLASH b rb (close_segs SLASH dirs @ leaf @ q) = Some r)"
  using assms(1,4,5) unfolding r_def st'_def
proof (induction dirs arbitrary: st b rb)
  case Nil
  then show ?case
    using simplify_file[OF assms(2) Nil.prems(2) _ assms(3)] by auto
next
  case (Cons s dirs)
  let ?rest = "close_segs SLASH dirs @ leaf @ q"
  have s: "plain_seg s" "absolute \<and> st = [] \<longrightarrow> s = []" using Cons.prems by auto
  have ne: "absolute \<Longrightarrow> dir_step absolute st s \<noteq> []"
  proof -
    assume a: absolute
    show "dir_step absolute st s \<noteq> []"
      using a dir_step_nonempty[OF a] s(2) by (cases "st = []") (auto simp: dir_step_def)
  qed
  have dirs: "\<forall>s \<in> set dirs. plain_seg s" using Cons.prems(1) by simp
  from simplify_dir[OF s(1) Cons.prems(2) s(2), of ?rest] show ?case
  proof (elim disjE exE conjE)
    fix b' rb'
    assume go: "at_dir absolute (dir_step absolute st s) b' rb'" "length rb' \<le> Suc (length rb)"
      "simplify_loop absolute False SLASH b rb (s @ SLASH # ?rest) = simplify_loop absolute False SLASH b' rb' ?rest"
    have "absolute \<Longrightarrow> dir_step absolute st s \<noteq> [] \<or> (dirs \<noteq> [] \<and> hd dirs = [])" using ne by blast
    from Cons.IH[OF dirs go(1) this] go(2,3) show ?thesis unfolding foldl.simps by (simp split del: if_split)
  next
    assume "127 \<le> Suc (length rb)" "simplify_loop absolute False SLASH b rb (s @ SLASH # ?rest) = None"
    then show ?thesis by simp
  qed
qed

text \<open>The whole function: the stack reading, or nothing when there are too many directories.\<close>

lemma path_segments:
  "cstr_ok f \<Longrightarrow> \<exists>dirs leaf q. f = close_segs SLASH dirs @ leaf @ q \<and> (\<forall>s \<in> set dirs. plain_seg s) \<and> plain_seg leaf \<and>
     (q = [] \<or> hd q = CHR ''?'') \<and> split_on SLASH (takeWhile (\<lambda>c. c \<noteq> CHR ''?'') f) = dirs @ [leaf] \<and>
     q = dropWhile (\<lambda>c. c \<noteq> CHR ''?'') f"
proof -
  assume ok: "cstr_ok f"
  let ?p = "takeWhile (\<lambda>c. c \<noteq> CHR ''?'') f" and ?q = "dropWhile (\<lambda>c. c \<noteq> CHR ''?'') f"
  obtain dirs leaf where s: "?p = close_segs SLASH dirs @ leaf" "\<forall>s \<in> set dirs. SLASH \<notin> set s" "SLASH \<notin> set leaf"
    "split_on SLASH ?p = dirs @ [leaf]" using split_on_eq[of ?p SLASH] by (elim exE conjE) (rule that)
  have q: "?q = [] \<or> hd ?q = CHR ''?''" using hd_dropWhile[of "\<lambda>c. c \<noteq> CHR ''?''" f] by auto
  have p: "\<forall>c \<in> set ?p. c \<noteq> CHR ''?'' \<and> c \<noteq> NUL"
    using ok by (auto simp: cstr_ok_def dest: set_takeWhileD)
  have "f = close_segs SLASH dirs @ leaf @ ?q" using s(1) takeWhile_dropWhile_id[of "\<lambda>c. c \<noteq> CHR ''?''" f] by simp
  moreover have "plain_seg leaf" using p s(1,3) by (auto simp: list_all_iff)
  moreover have "\<forall>s \<in> set dirs. plain_seg s"
  proof
    fix d assume d: "d \<in> set dirs"
    then have "set d \<subseteq> set ?p" unfolding s(1) by (auto simp: close_segs_def)
    with p s(2) d show "plain_seg d" by (auto simp: list_all_iff)
  qed
  ultimately show ?thesis using q s(4)
    by (intro exI[of _ dirs] exI[of _ leaf] exI[of _ ?q] conjI) simp_all
qed

lemma path_absolute:
  "cstr_ok f \<Longrightarrow> split_on SLASH (takeWhile (\<lambda>c. c \<noteq> CHR ''?'') f) = dirs @ [leaf] \<Longrightarrow>
     f = close_segs SLASH dirs @ leaf @ q \<Longrightarrow> plain_seg leaf \<Longrightarrow> q = [] \<or> hd q = CHR ''?'' \<Longrightarrow>
     cbyte f 0 = SLASH \<longleftrightarrow> dirs \<noteq> [] \<and> hd dirs = []"
proof -
  assume a: "cstr_ok f" "split_on SLASH (takeWhile (\<lambda>c. c \<noteq> CHR ''?'') f) = dirs @ [leaf]"
    "f = close_segs SLASH dirs @ leaf @ q" "plain_seg leaf" "q = [] \<or> hd q = CHR ''?''"
  show ?thesis
  proof (cases dirs)
    case Nil
    then show ?thesis using a(3,4,5) by (cases leaf; cases q) auto
  next
    case (Cons d ds)
    have "d \<noteq> [] \<Longrightarrow> hd d \<noteq> SLASH"
      using a(2) Cons split_on_eq[of "takeWhile (\<lambda>c. c \<noteq> CHR ''?'') f" SLASH] by (cases d) fastforce+
    then show ?thesis using a(3) Cons by (cases d) auto
  qed
qed

text \<open>The parts of a path, and its stack reading.\<close>

definition path_query :: "cstring \<Rightarrow> cstring" where
  "path_query f = dropWhile (\<lambda>c. c \<noteq> CHR ''?'') f"

definition path_segs :: "cstring \<Rightarrow> cstring list" where
  "path_segs f = split_on SLASH (takeWhile (\<lambda>c. c \<noteq> CHR ''?'') f)"

definition path_reading :: "cstring \<Rightarrow> cstring" where
  "path_reading f =
     stack_path (cbyte f 0 = SLASH) (path_query f \<noteq> []) (butlast (path_segs f)) (last (path_segs f)) @ path_query f"

lemma path_parts:
  assumes "cstr_ok f"
  shows "\<forall>s \<in> set (butlast (path_segs f)). plain_seg s" and "plain_seg (last (path_segs f))"
    and "path_query f = [] \<or> hd (path_query f) = CHR ''?''"
    and "cbyte f 0 = SLASH \<longleftrightarrow> butlast (path_segs f) \<noteq> [] \<and> hd (butlast (path_segs f)) = []"
    and "simplify_loop (cbyte f 0 = SLASH) False SLASH [] [] f \<in> {None, Some (path_reading f)}"
    and "count_list f SLASH < 127 \<Longrightarrow> simplify_loop (cbyte f 0 = SLASH) False SLASH [] [] f = Some (path_reading f)"
proof -
  let ?ab = "cbyte f 0 = SLASH"
  obtain dirs leaf q where p: "f = close_segs SLASH dirs @ leaf @ q" "\<forall>s \<in> set dirs. plain_seg s" "plain_seg leaf"
    "q = [] \<or> hd q = CHR ''?''" "split_on SLASH (takeWhile (\<lambda>c. c \<noteq> CHR ''?'') f) = dirs @ [leaf]"
    "q = dropWhile (\<lambda>c. c \<noteq> CHR ''?'') f"
    using path_segments[OF assms(1)] by (elim exE conjE) (rule that)
  have segs: "butlast (path_segs f) = dirs" "last (path_segs f) = leaf" "path_query f = q"
    using p(5,6) by (simp_all add: path_segs_def path_query_def)
  have ab: "?ab \<longleftrightarrow> dirs \<noteq> [] \<and> hd dirs = []" by (rule path_absolute[OF assms(1) p(5,1,3,4)])
  have start: "at_dir ?ab [] [] []" by (simp add: at_dir_def positions_def)
  have "count_list (close_segs SLASH dirs) SLASH = length dirs + count_list (concat dirs) SLASH"
    by (induction dirs) auto
  then have len: "length dirs + count_list q SLASH \<le> count_list f SLASH" using p(1) by simp
  have "?ab \<Longrightarrow> ([] :: cstring list) \<noteq> [] \<or> (dirs \<noteq> [] \<and> hd dirs = [])" using ab by simp
  note loop = simplify_dirs[OF p(2,3,4) start this, folded p(1)]
  have r: "path_reading f = (if leaf = ''..'' \<and> q = [] then close_segs SLASH (dir_pop ?ab (foldl (dir_step ?ab) [] dirs))
      else close_segs SLASH (foldl (dir_step ?ab) [] dirs) @ leaf @ q)"
    unfolding path_reading_def segs stack_path_def Let_def by auto
  show "\<forall>s \<in> set (butlast (path_segs f)). plain_seg s" "plain_seg (last (path_segs f))"
    "path_query f = [] \<or> hd (path_query f) = CHR ''?''"
    "?ab \<longleftrightarrow> butlast (path_segs f) \<noteq> [] \<and> hd (butlast (path_segs f)) = []"
    unfolding segs by (fact p(2) p(3) p(4) ab)+
  show "simplify_loop ?ab False SLASH [] [] f \<in> {None, Some (path_reading f)}"
    unfolding r by (rule loop[THEN conjunct1])
  show "simplify_loop ?ab False SLASH [] [] f = Some (path_reading f)" if "count_list f SLASH < 127"
    unfolding r using loop[THEN conjunct2] len that by simp
qed

section \<open>What the stack holds\<close>

definition dir_ok :: "cstring \<Rightarrow> bool" where
  "dir_ok s \<longleftrightarrow> plain_seg s \<and> s \<noteq> ''.'' \<and> s \<noteq> ''..''"

lemma dir_pop_ok: "list_all dir_ok st \<Longrightarrow> list_all dir_ok (dir_pop absolute st)"
  by (auto simp: dir_pop_def list_all_iff dest: in_set_butlastD)

lemma dir_step_ok: "list_all dir_ok st \<Longrightarrow> plain_seg s \<Longrightarrow> list_all dir_ok (dir_step absolute st s)"
  by (auto simp: dir_step_def dir_pop_ok dir_ok_def)

lemma dir_steps_ok:
  "list_all dir_ok st \<Longrightarrow> \<forall>s \<in> set dirs. plain_seg s \<Longrightarrow> list_all dir_ok (foldl (dir_step absolute) st dirs)"
  by (induction dirs arbitrary: st) (auto simp: dir_step_ok)

lemma dir_pop_root: "st \<noteq> [] \<Longrightarrow> hd st = [] \<Longrightarrow> dir_pop True st \<noteq> [] \<and> hd (dir_pop True st) = []"
  by (cases st; cases "tl st") (auto simp: dir_pop_def)

lemma dir_step_root: "st \<noteq> [] \<Longrightarrow> hd st = [] \<Longrightarrow> dir_step True st s \<noteq> [] \<and> hd (dir_step True st s) = []"
  using dir_pop_root by (auto simp: dir_step_def)

lemma dir_steps_root:
  "st \<noteq> [] \<Longrightarrow> hd st = [] \<Longrightarrow> foldl (dir_step True) st dirs \<noteq> [] \<and> hd (foldl (dir_step True) st dirs) = []"
  by (induction dirs arbitrary: st) (auto simp: dir_step_root)

lemma dir_steps_abs:
  "dirs \<noteq> [] \<Longrightarrow> hd dirs = [] \<Longrightarrow> foldl (dir_step True) [] dirs \<noteq> [] \<and> hd (foldl (dir_step True) [] dirs) = []"
  using dir_steps_root[of "[[]]"] by (cases dirs) (auto simp: dir_step_def)

text \<open>A stack path is made of clean directories and a last name that is not a dot-dot.\<close>

lemma stack_path_split:
  assumes "\<forall>s \<in> set dirs. plain_seg s" and "plain_seg leaf"
  obtains ds l where "stack_path absolute hasq dirs leaf = close_segs SLASH ds @ l" "list_all dir_ok ds" "plain_seg l"
    "\<not> hasq \<longrightarrow> l \<noteq> ''..''"
    "absolute \<longrightarrow> dirs \<noteq> [] \<longrightarrow> hd dirs = [] \<longrightarrow> ds \<noteq> [] \<and> hd ds = []"
proof -
  let ?st = "foldl (dir_step absolute) [] dirs"
  have st: "list_all dir_ok ?st" using dir_steps_ok[of "[]" dirs absolute] assms(1) by simp
  show thesis
  proof (cases "leaf = ''..'' \<and> \<not> hasq")
    case True
    show thesis
      by (rule that[of "dir_pop absolute ?st" "[]"])
        (use True st dir_steps_abs[of dirs] dir_pop_root[of ?st] in \<open>auto simp: stack_path_def Let_def dir_pop_ok\<close>)
  next
    case False
    show thesis
      by (rule that[of ?st leaf])
        (use False st dir_steps_abs[of dirs] assms(2) in \<open>auto simp: stack_path_def Let_def\<close>)
  qed
qed

lemma simplify_loop_bounds:
  "simplify_loop absolute query lc b rb a = Some r \<Longrightarrow> length r \<le> length b + length a \<and> set r \<subseteq> set b \<union> set a"
proof (induction "length a" arbitrary: absolute query lc b rb a rule: less_induct)
  case less
  have IH: "length r \<le> length b' + length a' \<and> set r \<subseteq> set b' \<union> set a'"
    if "length a' < length a" "simplify_loop absolute q l b' rb' a' = Some r" for q l b' rb' a'
    using less.hyps[OF that(1) that(2)] .
  show ?case
  proof (cases "a = []")
    case False
    define q where "q = (query \<or> hd a = CHR ''?'')"
    define dot where "dot \<longleftrightarrow> \<not> q \<and> lc = SLASH \<and> cbyte a 0 = CHR ''.'' \<and> cbyte a 1 = SLASH"
    define dots where "dots \<longleftrightarrow> \<not> q \<and> lc = SLASH \<and> cbyte a 0 = CHR ''.'' \<and> cbyte a 1 = CHR ''.'' \<and> (cbyte a 2 = SLASH \<or> cbyte a 2 = NUL)"
    define n :: nat where "n = (if cbyte a 2 = NUL then 2 else 3)"
    have n: "0 < n" by (simp add: n_def)
    note unf = less.prems[unfolded simplify_loop.simps[of absolute query lc b rb a] Let_def,
      folded q_def, folded dot_def dots_def n_def]
    consider "dot" | "\<not> dot" "dots" "length rb > 1" | "\<not> dot" "dots" "\<not> length rb > 1"
      | "\<not> dot" "\<not> dots" "hd a = SLASH" | "\<not> dot" "\<not> dots" "hd a \<noteq> SLASH" by blast
    then show ?thesis
    proof cases
      case 1
      with unf False show ?thesis using IH[of "drop 2 a" q lc b rb] set_drop_subset[of 2 a] by auto
    next
      case 2
      with unf False show ?thesis using IH[of "drop n a" q lc "take (rb ! (length rb - 2)) b" "butlast rb"] n set_drop_subset[of n a] set_take_subset[of "rb ! (length rb - 2)" b] by auto
    next
      case 3
      with unf False show ?thesis using IH[of "drop n a" q lc "if absolute then take 1 b else []" "[]"] n set_drop_subset[of n a] set_take_subset[of 1 b]
        by (cases absolute) auto
    next
      case 4
      with unf False show ?thesis using IH[of "tl a" q SLASH "b @ [SLASH]" "rb @ [length (b @ [SLASH])]"]
        by (cases a) (auto split: if_splits)
    next
      case 5
      with unf False show ?thesis using IH[of "tl a" q "hd a" "b @ [hd a]" rb] by (cases a) auto
    qed
  qed (use less.prems in \<open>simp add: simplify_loop.simps[of _ _ _ _ _ "[]"]\<close>)
qed

lemma simplify_loop_length: "simplify_loop absolute query lc b rb a = Some r \<Longrightarrow> length r \<le> length b + length a"
  using simplify_loop_bounds by blast

lemma fil_simplifie_length: "length (fil_simplifie f) \<le> max 2 (length f)"
  using simplify_loop_length[of "cbyte f 0 = SLASH" False SLASH "[]" "[]" f]
  by (auto simp: fil_simplifie_def Let_def split: option.splits)

section \<open>Lengths\<close>

lemma limit_loop_suffix: "limit_loop c lim i a s = Some r \<Longrightarrow> (\<forall>x. a = Some x \<longrightarrow> suffix x t) \<Longrightarrow> suffix s t \<Longrightarrow> suffix r t"
proof (induction c lim i a s rule: limit_loop.induct)
  case (2 c lim i a x s)
  from "2.prems"(3) have "suffix s t" by (rule suffix_ConsD)
  with 2 show ?case by (auto split: if_splits)
qed auto

lemma skip_scheme_suffix: "suffix (skip_scheme ss s) s"
  by (induction ss) (auto simp: suffix_drop)

lemma jump_protocol_suffix: "suffix (jump_protocol s) s"
  using skip_scheme_suffix[of jump_schemes s] by (auto simp: jump_protocol_def Let_def intro: suffix_drop_trans)

lemma jump_identification_suffix: "suffix (jump_identification s) s"
  using jump_protocol_suffix[of s] limit_loop_suffix[of _ _ 0 None "jump_protocol s" _ "jump_protocol s"]
  by (auto simp: jump_identification_def Let_def strrchr_limit_def split: option.split intro: suffix_order.trans)

lemma lower_host_length: "length (lower_host a) = length a"
  using suffix_length_le[OF jump_identification_suffix[of a]] by (simp add: lower_host_def hts_lowcase_def)

lemma fil_simplifie_cases:
  "fil_simplifie f = ''/'' \<or> (fil_simplifie f = ''./'' \<and> cbyte f 0 \<noteq> SLASH) \<or>
     simplify_loop (cbyte f 0 = SLASH) False SLASH [] [] f = Some (fil_simplifie f)"
  by (cases "simplify_loop (cbyte f 0 = SLASH) False SLASH [] [] f") (simp_all add: fil_simplifie_def)

lemma fil_simplifie_nonempty: "fil_simplifie f \<noteq> []"
  by (simp add: fil_simplifie_def Let_def)

lemma url_file_length: "length (adr (url_file pfx p)) = length pfx \<and> length (fil (url_file pfx p)) \<le> length p + 2"
proof -
  define f where "f = (if cbyte p 0 = SLASH \<or> cbyte p 0 = BACKSLASH then p
      else if p = [] \<or> cbyte p 1 \<noteq> CHR '':'' then ''//'' @ p else p)"
  have "length f \<le> length p + 2" by (auto simp: f_def)
  then have "length (takeWhile (\<lambda>c. c \<noteq> CHR ''?'') f) \<le> length p + 2"
    using length_takeWhile_le[of "\<lambda>c. c \<noteq> CHR ''?''" f] by linarith
  then show ?thesis
    using fil_simplifie_length[of "map (\<lambda>c. if c = BACKSLASH then SLASH else c) (takeWhile (\<lambda>c. c \<noteq> CHR ''?'') f)"]
    by (simp add: url_file_def Let_def f_def[symmetric])
qed

section \<open>Properties\<close>

text \<open>
  C29. As long as a path has fewer than 127 slashes, the in-place loop of \<open>fil_simplifie\<close> computes
  the stack reading: directories are pushed, a dot is skipped, a dot-dot pops without ever leaving
  the root, a last dot-dot pops too unless a query follows, and the query is kept as it is.
\<close>

theorem fil_simplifie_stack:
  assumes "cstr_ok f" and "count_list f CHR ''/'' < 127"
  shows "fil_simplifie f =
    (let path = takeWhile (\<lambda>c. c \<noteq> CHR ''?'') f; query = dropWhile (\<lambda>c. c \<noteq> CHR ''?'') f;
         absolute = (cbyte f 0 = CHR ''/''); segs = split_on CHR ''/'' path;
         r = stack_path absolute (query \<noteq> []) (butlast segs) (last segs) @ query
     in if r = [] then (if absolute then ''/'' else ''./'') else r)"
proof -
  show ?thesis
    unfolding fil_simplifie_def Let_def path_parts(6)[OF assms] option.case path_reading_def path_segs_def path_query_def ..
qed

theorem fil_simplifie_stack_witness: "fil_simplifie ''/a/./b/../../../c?x/../y'' = ''/c?x/../y''"
  using fil_simplifie_stack[of "''/a/./b/../../../c?x/../y''"]
  by (simp add: stack_path_def dir_step_def dir_pop_def)

lemma fil_simplifie_dots:
  assumes "cstr_ok f"
  shows "let path = takeWhile (\<lambda>c. c \<noteq> CHR ''?'') (fil_simplifie f); segs = split_on CHR ''/'' path in
    ''..'' \<notin> set (butlast segs) \<and> (CHR ''?'' \<notin> set (fil_simplifie f) \<longrightarrow> last segs \<noteq> ''..'') \<and>
    (cbyte f 0 = CHR ''/'' \<longrightarrow> cbyte (fil_simplifie f) 0 = CHR ''/'' \<and> ''.'' \<notin> set (butlast segs))"
proof -
  define q where "q = path_query f"
  note p = path_parts[OF assms, folded q_def]
  obtain ds l where s: "stack_path (cbyte f 0 = SLASH) (q \<noteq> []) (butlast (path_segs f)) (last (path_segs f)) = close_segs SLASH ds @ l"
    "list_all dir_ok ds" "plain_seg l" "\<not> q \<noteq> [] \<longrightarrow> l \<noteq> ''..''"
    "cbyte f 0 = SLASH \<longrightarrow> butlast (path_segs f) \<noteq> [] \<longrightarrow> hd (butlast (path_segs f)) = [] \<longrightarrow> ds \<noteq> [] \<and> hd ds = []"
    by (rule stack_path_split[OF p(1,2), where absolute = "cbyte f 0 = SLASH" and hasq = "q \<noteq> []"])
  consider "fil_simplifie f = ''/''" | "fil_simplifie f = ''./''" "cbyte f 0 \<noteq> SLASH"
    | "fil_simplifie f = close_segs SLASH ds @ l @ q"
    using fil_simplifie_cases[of f] p(5) unfolding path_reading_def q_def[symmetric] s(1) append.assoc
    by (metis insertE option.inject option.distinct(1) singletonD)
  then show ?thesis
  proof cases
    case 3
    have all: "\<forall>d \<in> set ds. SLASH \<notin> set d" "SLASH \<notin> set l" "\<forall>c \<in> set (close_segs SLASH ds @ l). c \<noteq> CHR ''?''"
      using s(2,3) by (auto simp: list_all_iff dir_ok_def close_segs_def)
    have path: "takeWhile (\<lambda>c. c \<noteq> CHR ''?'') (fil_simplifie f) = close_segs SLASH ds @ l"
      using takeWhile_append2[of "close_segs SLASH ds @ l" "\<lambda>c. c \<noteq> CHR ''?''" q] all(3) p(3)
      unfolding 3 by (cases q) auto
    have segs: "split_on SLASH (close_segs SLASH ds @ l) = ds @ [l]" by (rule split_on_close[OF all(1,2)])
    have "CHR ''?'' \<notin> set (fil_simplifie f) \<Longrightarrow> q = []" unfolding 3 using p(3) by (cases q) auto
    moreover have "''..'' \<notin> set ds" "''.'' \<notin> set ds" using s(2) by (auto simp: list_all_iff dir_ok_def)
    moreover have "cbyte f 0 = SLASH \<Longrightarrow> cbyte (fil_simplifie f) 0 = SLASH"
      using s(5) p(4) unfolding 3 by (cases ds) auto
    ultimately show ?thesis unfolding Let_def path segs using s(4) by auto
  qed (simp_all add: Let_def)
qed

text \<open>
  C19. Whatever the path, and however many directories it has, no dot or dot-dot directory is left
  before the query, the last name is not a dot-dot when there is no query, and an absolute path
  stays absolute.
\<close>

theorem fil_simplifie_confined:
  assumes "cstr_ok f"
  shows "let path = takeWhile (\<lambda>c. c \<noteq> CHR ''?'') (fil_simplifie f); segs = split_on CHR ''/'' path in
    ''..'' \<notin> set (butlast segs) \<and> (CHR ''?'' \<notin> set (fil_simplifie f) \<longrightarrow> last segs \<noteq> ''..'') \<and>
    (cbyte f 0 = CHR ''/'' \<longrightarrow> cbyte (fil_simplifie f) 0 = CHR ''/'' \<and> ''.'' \<notin> set (butlast segs))"
  by (rule fil_simplifie_dots[OF assms])

theorem fil_simplifie_confined_witness:
  "let path = takeWhile (\<lambda>c. c \<noteq> CHR ''?'') (fil_simplifie ''/../..''); segs = split_on CHR ''/'' path in
    ''..'' \<notin> set (butlast segs) \<and> (CHR ''?'' \<notin> set (fil_simplifie ''/../..'') \<longrightarrow> last segs \<noteq> ''..'') \<and>
    (cbyte ''/../..'' 0 = CHR ''/'' \<longrightarrow> cbyte (fil_simplifie ''/../..'') 0 = CHR ''/'' \<and> ''.'' \<notin> set (butlast segs))"
  by (rule fil_simplifie_confined) simp

text \<open>
  C39. Every URL that \<open>ident_url_absolute\<close> accepts gives a host and a path that fit their buffers of
  twice \<open>HTS_URLMAXSIZE\<close>, before and after the dot segments are removed, with a nonempty host.
\<close>

theorem ident_url_absolute_fits:
  assumes "ident_url_absolute use_ssl url = Some af"
  shows "adr af \<noteq> [] \<and> fil af \<noteq> [] \<and> length (adr af) < HTS_URLMAXSIZE * 2 \<and> length (fil af) < HTS_URLMAXSIZE * 2"
proof -
  have big: "HTS_URLMAXSIZE = 1024" by (rule HTS_URLMAXSIZE_def)
  obtain pfx pos where sch: "url_scheme use_ssl url = Some (pfx, pos)"
    using assms by (auto simp: ident_url_absolute_def split: if_splits option.splits)
  have len: "length url < 2048" using assms by (auto simp: ident_url_absolute_def big split: if_splits)
  have pfx: "length pfx \<le> 8" "strfield pfx ''file:'' \<noteq> 0 \<Longrightarrow> pfx = ''file://'' \<and> pos = 5"
    using sch by (auto simp: url_scheme_def strfield_eq streql_def hichar_def split: if_splits)
  define p where "p = (if take 2 (drop pos url) = ''//'' then drop 2 (drop pos url) else drop pos url)"
  obtain g where g: "(if strfield pfx ''file:'' = 0 then url_net pfx p else Some (url_file pfx p)) = Some g"
    "adr g \<noteq> []" "af = \<lparr>adr = lower_host (adr g), fil = (if fil g = [] then ''default-index.html'' else fil g)\<rparr>"
    using assms sch unfolding ident_url_absolute_def Let_def
    by (auto simp: p_def split: if_splits option.splits)
  have fil: "fil g \<noteq> []"
    using g(1) fil_simplifie_nonempty by (auto simp: url_net_def url_file_def Let_def split: if_splits)
  have "length (adr g) < 2048 \<and> length (fil g) < 2048"
  proof (cases "strfield pfx ''file:'' = 0")
    case True
    then have n: "url_net pfx p = Some g" using g(1) by simp
    define q where "q = url_path p"
    have "length p - length q \<le> 1024" "length q < 2048 - (if cbyte q 0 \<noteq> SLASH then 1 else 0)"
      "g = \<lparr>adr = pfx @ take (length p - length q) p, fil = fil_simplifie ((if cbyte q 0 \<noteq> SLASH then ''/'' else []) @ q)\<rparr>"
      using n by (auto simp: url_net_def Let_def q_def[symmetric] big split: if_splits)
    then show ?thesis
      using pfx(1) fil_simplifie_length[of "(if cbyte q 0 \<noteq> SLASH then ''/'' else []) @ q"]
      by (auto split: if_splits)
  next
    case False
    then have gf: "g = url_file pfx p" using g(1) by simp
    have "length p \<le> 2042" using pfx(2)[OF False] len by (auto simp: p_def)
    then show ?thesis using pfx(1) url_file_length[of pfx p] unfolding gf by simp
  qed
  with g(2,3) fil big lower_host_length[of "adr g"] show ?thesis by auto
qed

theorem ident_url_absolute_fits_witness:
  "\<exists>af. ident_url_absolute True ''http://A.com/../x'' = Some af \<and> adr af \<noteq> [] \<and> fil af \<noteq> [] \<and>
     length (adr af) < HTS_URLMAXSIZE * 2 \<and> length (fil af) < HTS_URLMAXSIZE * 2"
proof -
  have "ident_url_absolute True ''http://A.com/../x'' = Some \<lparr>adr = ''a.com'', fil = ''/x''\<rparr>" by code_simp
  from this ident_url_absolute_fits[OF this] show ?thesis by blast
qed

end
