(* ===== verification/UrlPort.thy ===== *)
theory UrlPort
  imports Cmdline
begin

text \<open>
  \<open>htsurlport.c\<close>: decimal numbers with a range, spans over read-only bytes, and the parameters of a
  header value.  A span is the list of its bytes, the cursor of \<open>hts_span_next\<close> the bytes left.
  \<open>LLint\<close> values are integers; the lemmas show that no intermediate value leaves the range.
\<close>

section \<open>Numbers\<close>

fun llint_loop :: "int \<Rightarrow> int \<Rightarrow> bool \<Rightarrow> cstring \<Rightarrow> int \<times> bool \<times> cstring" where
  "llint_loop mx v fits [] = (v, fits, [])"
| "llint_loop mx v fits (c # s) =
     (if isdigit c then
        (let digit = int (digit_val c) in
         if \<not> fits \<or> digit > mx \<or> v > (mx - digit) div 10 then llint_loop mx v False s
         else llint_loop mx (v * 10 + digit) fits s)
      else (v, fits, c # s))"

text \<open>The value when it is read, and what follows the digits.\<close>

definition hts_parse_llint :: "cstring \<Rightarrow> int \<Rightarrow> int \<Rightarrow> int option \<times> cstring" where
  "hts_parse_llint s mn mx =
     (case llint_loop mx 0 True s of
        (v, fits, p) \<Rightarrow> (if length p = length s \<or> \<not> fits \<or> v < mn then None else Some v, p))"

datatype hts_scan_result = HTS_SCAN_REFUSED | HTS_SCAN_NONE | HTS_SCAN_OK int

text \<open>\<open>isspace\<close> of the C library in the C locale is \<open>is_realspace\<close>.\<close>

definition hts_scan_llint :: "cstring \<Rightarrow> int \<Rightarrow> int \<Rightarrow> hts_scan_result \<times> cstring" where
  "hts_scan_llint s mn mx =
     (let p = dropWhile is_realspace s in
      case hts_parse_llint p mn mx of
        (Some v, e) \<Rightarrow> (HTS_SCAN_OK v, e)
      | (None, e) \<Rightarrow>
          (let e = (if (cbyte p 0 = CHR ''-'' \<or> cbyte p 0 = CHR ''+'') \<and> isdigit (cbyte p 1)
                    then snd (hts_parse_llint (tl p) mn mx) else e)
           in if length e = length p then (HTS_SCAN_NONE, s) else (HTS_SCAN_REFUSED, e)))"

definition hts_parse_url_port :: "cstring \<Rightarrow> int option" where
  "hts_parse_url_port a =
     (case hts_parse_llint a 1 65535 of (Some p, []) \<Rightarrow> Some p | _ \<Rightarrow> None)"

section \<open>Spans\<close>

type_synonym span = cstring

definition hts_span_of :: "cstring option \<Rightarrow> span" where
  "hts_span_of s = (case s of None \<Rightarrow> [] | Some t \<Rightarrow> t)"

definition hts_span_next :: "cstring \<Rightarrow> char \<Rightarrow> (span \<times> cstring) option" where
  "hts_span_next cur sep =
     (if cur = [] then None
      else Some (takeWhile (\<lambda>c. c \<noteq> sep) cur, drop 1 (dropWhile (\<lambda>c. c \<noteq> sep) cur)))"

definition span_in_set :: "cstring \<Rightarrow> char \<Rightarrow> bool" where
  "span_in_set st c \<longleftrightarrow> c \<noteq> NUL \<and> c \<in> set st"

definition hts_span_trim :: "span \<Rightarrow> cstring \<Rightarrow> cstring \<Rightarrow> span" where
  "hts_span_trim s left right = rev (dropWhile (span_in_set right) (rev (dropWhile (span_in_set left) s)))"

definition hts_span_split :: "span \<Rightarrow> char \<Rightarrow> (span \<times> span) option" where
  "hts_span_split s c =
     (if c \<in> set s then Some (takeWhile (\<lambda>x. x \<noteq> c) s, tl (dropWhile (\<lambda>x. x \<noteq> c) s)) else None)"

text \<open>The copy, and whether it was whole; a size of 0 writes nothing.\<close>

definition hts_span_copy :: "span \<Rightarrow> nat \<Rightarrow> cstring \<times> bool" where
  "hts_span_copy s sz = (if sz = 0 then ([], False) else (take (sz - 1) s, length s < sz))"

section \<open>Header parameters\<close>

fun param_name_is :: "cstring \<Rightarrow> cstring \<Rightarrow> bool" where
  "param_name_is [] name = (name = [])"
| "param_name_is (k # key) [] = False"
| "param_name_is (k # key) (n # name) = (lowchar k = lowchar n \<and> param_name_is key name)"

definition param_escape :: "cstring \<Rightarrow> bool" where
  "param_escape p \<longleftrightarrow> cbyte p 0 = BACKSLASH \<and> (cbyte p 1 = DQUOTE \<or> cbyte p 1 = BACKSLASH)"

function param_skip :: "cstring \<Rightarrow> bool \<Rightarrow> cstring \<Rightarrow> cstring" where
  "param_skip seps quoted p =
     (if p = [] \<or> (\<not> quoted \<and> span_in_set seps (hd p)) then p
      else if hd p = DQUOTE then param_skip seps (\<not> quoted) (tl p)
      else if quoted \<and> param_escape p then param_skip seps quoted (drop 2 p)
      else param_skip seps quoted (tl p))"
  by pat_completeness auto
termination by (relation "measure (\<lambda>(seps, quoted, p). length p)") (auto simp: neq_Nil_conv)

declare param_skip.simps [simp del]

text \<open>The body of a quoted value from after its first quote: \<open>None\<close> when it does not fit.\<close>

function param_quoted :: "bool \<Rightarrow> nat \<Rightarrow> cstring \<Rightarrow> cstring \<Rightarrow> (cstring \<times> cstring) option" where
  "param_quoted match sz out p =
     (if p = [] \<or> hd p = DQUOTE then Some (out, p)
      else
        let q = (if param_escape p then tl p else p) in
        if match then
          (if length out \<ge> sz - 1 then None else param_quoted match sz (out @ [hd q]) (tl q))
        else param_quoted match sz out (tl q))"
  by pat_completeness auto
termination
  by (relation "measure (\<lambda>(match, sz, out, p). length p)") (auto simp: neq_Nil_conv)

declare param_quoted.simps [simp del]

lemma param_skip_length: "length (param_skip seps quoted p) \<le> length p"
proof (induction seps quoted p rule: param_skip.induct)
  case (1 seps quoted p)
  then show ?case by (subst param_skip.simps) (auto simp: neq_Nil_conv)
qed

lemma param_quoted_length: "param_quoted match sz out p = Some (out', p') \<Longrightarrow> length p' \<le> length p"
proof (induction match sz out p rule: param_quoted.induct)
  case (1 match sz out p)
  show ?case
  proof (cases "p = [] \<or> hd p = DQUOTE")
    case False
    define q where "q = (if param_escape p then tl p else p)"
    have "length (tl q) \<le> length p" by (cases p) (auto simp: q_def)
    moreover have "param_quoted match sz (if match then out @ [hd q] else out) (tl q) = Some (out', p')"
      using "1.prems" False unfolding param_quoted.simps[of match sz out p]
      by (auto simp: Let_def q_def split: if_splits)
    moreover have "match \<Longrightarrow> \<not> length out \<ge> sz - 1"
      using "1.prems" False unfolding param_quoted.simps[of match sz out p]
      by (auto simp: Let_def split: if_splits)
    ultimately show ?thesis
      using "1.IH"(1)[OF False q_def] "1.IH"(2)[OF False q_def] by (cases match) fastforce+
  qed (use "1.prems" in \<open>simp add: param_quoted.simps[of match sz out p]\<close>)
qed

definition param_blank :: "char \<Rightarrow> bool" where
  "param_blank c \<longleftrightarrow> span_in_set [CHR '' '', TAB] c"

definition param_rtrim :: "cstring \<Rightarrow> cstring" where
  "param_rtrim s = rev (dropWhile param_blank (rev s))"

definition param_start :: "cstring \<Rightarrow> cstring \<Rightarrow> cstring" where
  "param_start seps p = dropWhile (\<lambda>c. param_blank c \<or> span_in_set seps c) p"

definition param_key :: "cstring \<Rightarrow> cstring \<Rightarrow> cstring" where
  "param_key seps p = takeWhile (\<lambda>c. c \<noteq> CHR ''='' \<and> \<not> span_in_set seps c) p"

definition param_after_key :: "cstring \<Rightarrow> cstring \<Rightarrow> cstring" where
  "param_after_key seps p = dropWhile (\<lambda>c. c \<noteq> CHR ''='' \<and> \<not> span_in_set seps c) (param_start seps p)"

lemma param_after_key_length: "length (param_after_key seps p) \<le> length p"
  unfolding param_after_key_def param_start_def by (meson length_dropWhile_le order_trans)

lemma param_after_key_progress:
  assumes "p \<noteq> []" and "cbyte (param_after_key seps p) 0 \<noteq> CHR ''=''"
  shows "length (param_after_key seps p) < length p"
proof (rule ccontr)
  assume "\<not> length (param_after_key seps p) < length p"
  then have "length (param_after_key seps p) = length p" using param_after_key_length[of seps p] by simp
  then have "length (param_start seps p) = length p" "length (param_after_key seps p) = length (param_start seps p)"
    using length_dropWhile_le[of "\<lambda>c. param_blank c \<or> span_in_set seps c" p]
      length_dropWhile_le[of "\<lambda>c. c \<noteq> CHR ''='' \<and> \<not> span_in_set seps c" "param_start seps p"]
    unfolding param_after_key_def param_start_def by simp_all
  then have st: "param_start seps p = p" "param_after_key seps p = p"
    unfolding param_after_key_def param_start_def by (metis dropWhile_same_length)+
  have "\<not> span_in_set seps (hd p)"
    using hd_dropWhile[of "\<lambda>c. param_blank c \<or> span_in_set seps c" p] st(1) assms(1)
    unfolding param_start_def by metis
  moreover have "\<not> (hd p \<noteq> CHR ''='' \<and> \<not> span_in_set seps (hd p))"
    using hd_dropWhile[of "\<lambda>c. c \<noteq> CHR ''='' \<and> \<not> span_in_set seps c" p] st assms(1)
    unfolding param_after_key_def st(1) by metis
  ultimately show False using assms st(2) by (cases p) auto
qed

lemma param_value_length:
  assumes "cbyte (param_after_key seps p) 0 = CHR ''=''"
  shows "length (dropWhile param_blank (tl (param_after_key seps p))) < length p"
proof -
  have "param_after_key seps p \<noteq> []" using assms by auto
  then have "length (tl (param_after_key seps p)) < length p"
    using param_after_key_length[of seps p] by (cases "param_after_key seps p") auto
  then show ?thesis by (meson length_dropWhile_le le_less_trans)
qed

function header_loop :: "cstring \<Rightarrow> cstring \<Rightarrow> nat \<Rightarrow> cstring \<Rightarrow> cstring option" where
  "header_loop seps name sz p =
     (if p = [] then None
      else
        let key = param_rtrim (param_key seps (param_start seps p)); p2 = param_after_key seps p in
        if cbyte p2 0 \<noteq> CHR ''='' then header_loop seps name sz p2
        else
          let match = param_name_is key name; p3 = dropWhile param_blank (tl p2) in
          if cbyte p3 0 = DQUOTE then
            (case param_quoted match sz [] (tl p3) of
               None \<Rightarrow> None
             | Some (out, p4) \<Rightarrow>
                 if match then Some out
                 else if p4 \<noteq> [] then header_loop seps name sz (param_skip seps False (tl p4))
                 else header_loop seps name sz p4)
          else
            let v = takeWhile (\<lambda>c. \<not> span_in_set seps c) p3 in
            if match then (if length (param_rtrim v) > sz - 1 then None else Some (param_rtrim v))
            else header_loop seps name sz (dropWhile (\<lambda>c. \<not> span_in_set seps c) p3))"
  by pat_completeness auto

termination
proof (relation "measure (\<lambda>(seps, name, sz, p). length p)")
  fix seps name :: cstring and sz p key p2
  assume "p \<noteq> []" "p2 = param_after_key seps p" "cbyte p2 0 \<noteq> CHR ''=''"
  then show "((seps, name, sz, p2), seps, name, sz, p) \<in> measure (\<lambda>(seps, name, sz, p). length p)"
    by (simp add: param_after_key_progress)
next
  fix seps name :: cstring and sz p key p2 match p3 r out p4
  assume *: "p2 = param_after_key seps p" "\<not> cbyte p2 0 \<noteq> CHR ''=''" "p3 = dropWhile param_blank (tl p2)"
    "param_quoted match sz [] (tl p3) = Some r" "(out, p4) = r"
  have "length p4 \<le> length (tl p3)" using *(4,5) by (auto dest: param_quoted_length)
  then have len: "length p4 \<le> length p3" by simp
  have "length p3 < length p" using *(1,2,3) param_value_length by auto
  then have "length p4 < length p" using len by simp
  moreover have "length (param_skip seps False (tl p4)) \<le> length p4"
    using param_skip_length[of seps False "tl p4"] by simp
  ultimately have "length (param_skip seps False (tl p4)) < length p" by linarith
  then show "((seps, name, sz, param_skip seps False (tl p4)), seps, name, sz, p) \<in> measure (\<lambda>(seps, name, sz, p). length p)"
    by simp
  show "((seps, name, sz, p4), seps, name, sz, p) \<in> measure (\<lambda>(seps, name, sz, p). length p)"
    using \<open>length p4 < length p\<close> by simp
next
  fix seps name :: cstring and sz p key p2 match p3 v
  assume *: "p2 = param_after_key seps p" "\<not> cbyte p2 0 \<noteq> CHR ''=''" "p3 = dropWhile param_blank (tl p2)"
  then have "length p3 < length p" using param_value_length by auto
  then have "length (dropWhile (\<lambda>c. \<not> span_in_set seps c) p3) < length p" by (meson length_dropWhile_le le_less_trans)
  then show "((seps, name, sz, dropWhile (\<lambda>c. \<not> span_in_set seps c) p3), seps, name, sz, p)
      \<in> measure (\<lambda>(seps, name, sz, p). length p)" by simp
qed simp

declare header_loop.simps [simp del]

definition hts_header_param :: "cstring \<Rightarrow> cstring \<Rightarrow> cstring \<Rightarrow> nat \<Rightarrow> cstring option" where
  "hts_header_param v seps name sz = (if sz = 0 then None else header_loop seps name sz v)"

section \<open>What the number parser reads\<close>

definition dec_value :: "cstring \<Rightarrow> int" where
  "dec_value ds = foldl (\<lambda>v c. v * 10 + int (digit_val c)) 0 ds"

lemma dec_foldl_mono: "0 \<le> v \<Longrightarrow> v \<le> foldl (\<lambda>v c. v * 10 + int (digit_val c)) v ds"
proof (induction ds arbitrary: v)
  case (Cons d ds)
  have "v \<le> v * 10 + int (digit_val d)" "0 \<le> v * 10 + int (digit_val d)" using Cons.prems by simp_all
  with Cons.IH[of "v * 10 + int (digit_val d)"] show ?case by simp
qed simp

lemma llint_loop_refused: "llint_loop mx v False s = (v, False, dropWhile isdigit s)"
  by (induction s) (auto simp: Let_def)

lemma llint_room:
  fixes mx v d :: int
  assumes "0 \<le> d"
  shows "d > mx \<or> v > (mx - d) div 10 \<longleftrightarrow> d > mx \<or> v * 10 + d > mx"
  using assms by (auto simp: div_less_iff_less_mult zdiv_mono1 not_less)

lemma llint_loop_eq:
  assumes "0 \<le> v"
  shows "llint_loop mx v True s =
    (let D = foldl (\<lambda>v c. v * 10 + int (digit_val c)) v (takeWhile isdigit s) in
     if takeWhile isdigit s = [] then (v, True, s)
     else if D \<le> mx then (D, True, dropWhile isdigit s)
     else (fst (llint_loop mx v True s), False, dropWhile isdigit s))"
  using assms
proof (induction s arbitrary: v)
  case (Cons c s)
  show ?case
  proof (cases "isdigit c")
    case True
    let ?d = "int (digit_val c)" and ?w = "v * 10 + int (digit_val c)"
    have w: "0 \<le> ?w" using Cons.prems by simp
    have big: "?w \<le> foldl (\<lambda>v c. v * 10 + int (digit_val c)) ?w (takeWhile isdigit s)"
      by (rule dec_foldl_mono[OF w])
    show ?thesis
    proof (cases "?d > mx \<or> v > (mx - ?d) div 10")
      case no: True
      then have "?w > mx" using llint_room[of ?d mx v] Cons.prems by auto
      with big True no show ?thesis by (auto simp: Let_def llint_loop_refused)
    next
      case False
      then have "?w \<le> mx" using llint_room[of ?d mx v] by auto
      with Cons.IH[OF w] True False show ?thesis
        by (cases "takeWhile isdigit s = []") (auto simp: Let_def takeWhile_Nil_dropWhile)
    qed
  qed (simp add: Let_def)
qed simp

lemma hts_parse_llint_eq:
  "hts_parse_llint s mn mx =
     (if takeWhile isdigit s \<noteq> [] \<and> mn \<le> dec_value (takeWhile isdigit s) \<and> dec_value (takeWhile isdigit s) \<le> mx
      then Some (dec_value (takeWhile isdigit s)) else None, dropWhile isdigit s)"
proof (cases "takeWhile isdigit s = []")
  case True
  then have "dropWhile isdigit s = s" by (metis append_Nil takeWhile_dropWhile_id)
  with True show ?thesis by (simp add: hts_parse_llint_def llint_loop_eq[of 0] Let_def)
next
  case False
  then have "length (dropWhile isdigit s) \<noteq> length s"
    using takeWhile_dropWhile_id[of isdigit s] by (metis append_self_conv2 dropWhile_same_length)
  with False show ?thesis
    by (subst hts_parse_llint_def) (subst llint_loop_eq, simp, auto simp: Let_def dec_value_def)
qed

section \<open>Reading back a quoted parameter\<close>

lemma param_quoted_escaped:
  "length out \<le> sz - 1 \<Longrightarrow>
     param_quoted match sz out (hts_escape_arg v @ DQUOTE # rest) =
       (if match then (if length out + length v \<le> sz - 1 then Some (out @ v, DQUOTE # rest) else None)
        else Some (out, DQUOTE # rest))"
proof (induction v arbitrary: out)
  case (Cons c v)
  have "param_quoted match sz out (hts_escape_arg (c # v) @ DQUOTE # rest) =
      (if match then (if length out \<ge> sz - 1 then None else param_quoted match sz (out @ [c]) (hts_escape_arg v @ DQUOTE # rest))
       else param_quoted match sz out (hts_escape_arg v @ DQUOTE # rest))"
    by (subst param_quoted.simps) (auto simp: param_escape_def Let_def)
  with Cons show ?case by auto
qed (simp add: param_quoted.simps)

definition key_ok :: "cstring \<Rightarrow> bool" where
  "key_ok k \<longleftrightarrow> k \<noteq> [] \<and> list_all (\<lambda>c. c \<notin> {CHR ''='', CHR '';'', CHR '' '', TAB, NUL}) k"

fun render_params :: "(cstring \<times> cstring) list \<Rightarrow> cstring" where
  "render_params [] = []"
| "render_params ((k, v) # ps) =
     k @ CHR ''='' # DQUOTE # hts_escape_arg v @ DQUOTE # (if ps = [] then [] else CHR '';'' # CHR '' '' # render_params ps)"

lemma key_scan:
  assumes "key_ok k"
  shows "param_start '';'' (k @ CHR ''='' # r) = k @ CHR ''='' # r"
    and "param_key '';'' (k @ CHR ''='' # r) = k"
    and "param_after_key '';'' (k @ CHR ''='' # r) = CHR ''='' # r"
    and "param_rtrim k = k"
proof -
  have all: "\<forall>c \<in> set k. c \<noteq> CHR ''='' \<and> \<not> span_in_set '';'' c" and blank: "\<forall>c \<in> set k. \<not> param_blank c"
    using assms by (auto simp: key_ok_def list_all_iff span_in_set_def param_blank_def)
  have "hd k \<in> set k" using assms by (simp add: key_ok_def)
  then show st: "param_start '';'' (k @ CHR ''='' # r) = k @ CHR ''='' # r"
    using all blank assms unfolding param_start_def key_ok_def by (cases k) auto
  show "param_key '';'' (k @ CHR ''='' # r) = k"
    unfolding param_key_def using all by (subst takeWhile_append2) auto
  show "param_after_key '';'' (k @ CHR ''='' # r) = CHR ''='' # r"
    unfolding param_after_key_def st using all by (subst dropWhile_append2) auto
  have "dropWhile param_blank (rev k) = rev k"
    using blank by (intro dropWhile_none) simp
  then show "param_rtrim k = k" by (simp add: param_rtrim_def)
qed

lemma header_loop_sep: "header_loop '';'' name sz (CHR '';'' # CHR '' '' # p) = header_loop '';'' name sz p"
proof (cases "p = []")
  case True
  then show ?thesis
    by (simp add: header_loop.simps[of "'';''" name sz "[CHR '';'', CHR '' '']"] header_loop.simps[of "'';''" name sz "[]"]
        param_after_key_def param_start_def param_blank_def span_in_set_def)
next
  case False
  have "param_start '';'' (CHR '';'' # CHR '' '' # p) = param_start '';'' p"
    by (simp add: param_start_def param_blank_def span_in_set_def)
  then show ?thesis
    using False by (simp add: header_loop.simps[of "'';''" name sz "CHR '';'' # CHR '' '' # p"]
      header_loop.simps[of "'';''" name sz p] param_after_key_def)
qed

lemma param_skip_sep: "param_skip '';'' False (CHR '';'' # p) = CHR '';'' # p" "param_skip seps False [] = []"
  by (simp_all add: param_skip.simps[of "'';''" False "CHR '';'' # p"] param_skip.simps[of seps False "[]"] span_in_set_def)

lemma header_loop_param:
  assumes "0 < sz" and "key_ok k" and "length v < sz"
  shows "header_loop '';'' name sz (k @ CHR ''='' # DQUOTE # hts_escape_arg v @ DQUOTE # rest) =
    (if param_name_is k name then Some v else header_loop '';'' name sz (param_skip '';'' False rest))"
proof -
  have blank: "\<not> param_blank DQUOTE" by (simp add: param_blank_def span_in_set_def)
  have quoted: "param_quoted match sz [] (hts_escape_arg v @ DQUOTE # rest) =
      Some (if match then v else [], DQUOTE # rest)" for match
    using assms(1,3) param_quoted_escaped[of "[]" sz match v rest] by (cases match) auto
  show ?thesis
    unfolding header_loop.simps[of "'';''" name sz "k @ CHR ''='' # DQUOTE # hts_escape_arg v @ DQUOTE # rest"]
      key_scan[OF assms(2)] Let_def
    by (cases "param_name_is k name") (simp_all add: blank quoted)
qed

lemma header_loop_render:
  assumes "0 < sz" and "\<forall>(k, v) \<in> set ps. key_ok k \<and> length v < sz"
  shows "header_loop '';'' name sz (render_params ps) = map_option snd (find (\<lambda>(k, v). param_name_is k name) ps)"
  using assms(2)
proof (induction ps)
  case Nil
  then show ?case by (simp add: header_loop.simps[of _ _ _ "[]"])
next
  case (Cons p ps)
  obtain k v where p: "p = (k, v)" by fastforce
  let ?rest = "if ps = [] then [] else CHR '';'' # CHR '' '' # render_params ps"
  have k: "key_ok k" "length v < sz" using Cons.prems p by auto
  have step: "header_loop '';'' name sz (render_params (p # ps)) =
      (if param_name_is k name then Some v else header_loop '';'' name sz (param_skip '';'' False ?rest))"
    unfolding p render_params.simps by (rule header_loop_param[OF assms(1) k])
  have "header_loop '';'' name sz (param_skip '';'' False ?rest) = header_loop '';'' name sz (render_params ps)"
    by (cases "ps = []") (simp_all add: param_skip_sep header_loop_sep)
  with step Cons p show ?case by simp
qed

section \<open>Properties\<close>

text \<open>
  \<open>hts_parse_llint\<close> succeeds exactly when there is at least one digit and the exact decimal
  value of the digits lies in the range, however many there are, and always stops after the digits.
\<close>

theorem hts_parse_llint_spec:
  "hts_parse_llint s mn mx =
     (let ds = takeWhile isdigit s; D = foldl (\<lambda>v c. v * 10 + int (digit_val c)) 0 ds in
      (if ds \<noteq> [] \<and> mn \<le> D \<and> D \<le> mx then Some D else None, dropWhile isdigit s))"
  unfolding hts_parse_llint_eq dec_value_def Let_def ..

text \<open>
  C38. A header whose parameters are written with quoted, escaped values is read back: the value of
  the first parameter with the wanted name, up to case, is returned unescaped.
\<close>

theorem hts_header_param_roundtrip:
  assumes "0 < sz" and "\<forall>(k, v) \<in> set ps. key_ok k \<and> length v < sz"
  shows "hts_header_param (render_params ps) '';'' name sz =
    map_option snd (find (\<lambda>(k, v). param_name_is k name) ps)"
  using header_loop_render[OF assms] assms(1) by (simp add: hts_header_param_def)

theorem hts_header_param_roundtrip_witness:
  "hts_header_param (render_params [(''a'', ''x''), (''Name'', [DQUOTE, CHR ''y''])]) '';'' ''name'' 16 = Some [DQUOTE, CHR ''y'']"
  using hts_header_param_roundtrip[of 16 "[(''a'', ''x''), (''Name'', [DQUOTE, CHR ''y''])]" "''name''"]
  by (simp add: key_ok_def lowchar_def)

end
