(* ===== verification/UrlNorm.thy ===== *)
theory UrlNorm
  imports UrlClaims UrlPort EscapeClaims Filters "HOL-Library.List_Lexorder"
begin

text \<open>
  URL normalization of \<open>htslib.c\<close>: collapsing slashes and sorting query arguments, stripping the query
  keys the user listed, and mapping host aliases.  \<open>qsort\<close> is an insertion sort by the source's
  comparison, which is shown to be a total order on byte strings, so no other sort differs.
\<close>

section \<open>Path and query\<close>

fun memcmp :: "cstring \<Rightarrow> cstring \<Rightarrow> int" where
  "memcmp (x # xs) (y # ys) = (if x = y then memcmp xs ys else if ord x < ord y then -1 else 1)"
| "memcmp _ _ = 0"

definition sortNormFnc :: "cstring \<Rightarrow> cstring \<Rightarrow> int" where
  "sortNormFnc a b =
     (let n = (if length a < length b then length a else length b); c = memcmp (take n a) (take n b) in
      if c \<noteq> 0 then c else if length a < length b then -1 else if length a > length b then 1 else 0)"

fun insert_cmp :: "('a \<Rightarrow> 'a \<Rightarrow> int) \<Rightarrow> 'a \<Rightarrow> 'a list \<Rightarrow> 'a list" where
  "insert_cmp cmp x [] = [x]"
| "insert_cmp cmp x (y # ys) = (if cmp x y \<le> 0 then x # y # ys else y # insert_cmp cmp x ys)"

definition qsort_cmp :: "('a \<Rightarrow> 'a \<Rightarrow> int) \<Rightarrow> 'a list \<Rightarrow> 'a list" where
  "qsort_cmp cmp xs = foldr (insert_cmp cmp) xs []"

fun slash_loop :: "bool \<Rightarrow> bool \<Rightarrow> char \<Rightarrow> cstring \<Rightarrow> cstring" where
  "slash_loop do_slash gotquery lastc [] = []"
| "slash_loop do_slash gotquery lastc (c # s) =
     (let gotquery = (gotquery \<or> c = CHR ''?'') in
      if do_slash \<and> \<not> gotquery \<and> lastc = CHR ''/'' \<and> c = CHR ''/'' then slash_loop do_slash gotquery c s
      else c # slash_loop do_slash gotquery c s)"

definition fil_normalized_ex :: "cstring \<Rightarrow> bool \<Rightarrow> bool \<Rightarrow> cstring" where
  "fil_normalized_ex source do_slash do_query =
     (let dest = slash_loop do_slash False NUL source in
      case strchr dest CHR ''?'' of
        None \<Rightarrow> dest
      | Some query \<Rightarrow>
          if \<not> do_query then dest
          else
            let fields = map field_text (query_fields (Some (tl query))) in
            if length fields > 1
            then take (length dest - length query) dest @ CHR ''?'' # join_fields (qsort_cmp sortNormFnc fields)
            else dest)"

definition fil_normalized :: "cstring \<Rightarrow> cstring" where
  "fil_normalized source = fil_normalized_ex source True True"

function hts_spans :: "char \<Rightarrow> cstring \<Rightarrow> span list" where
  "hts_spans sep cur = (case hts_span_next cur sep of None \<Rightarrow> [] | Some (f, rest) \<Rightarrow> f # hts_spans sep rest)"
  by pat_completeness auto
termination
proof (relation "measure (\<lambda>(sep, cur). length cur)")
  fix sep and cur :: cstring and p f rest
  assume "hts_span_next cur sep = Some p" "(f, rest) = p"
  then have "cur \<noteq> []" "rest = drop 1 (dropWhile (\<lambda>c. c \<noteq> sep) cur)" by (auto simp: hts_span_next_def split: if_splits)
  then show "((sep, rest), sep, cur) \<in> measure (\<lambda>(sep, cur). length cur)"
    using length_dropWhile_le[of "\<lambda>c. c \<noteq> sep" cur] by (cases cur) auto
qed simp

declare hts_spans.simps [simp del]

definition hts_query_key_stripped :: "cstring \<Rightarrow> cstring \<Rightarrow> bool" where
  "hts_query_key_stripped arg strip \<longleftrightarrow>
     list_ex (\<lambda>tok. hts_span_trim tok '' '' '' '' = ''*'' \<or> hts_span_trim tok '' '' '' '' = arg)
       (hts_spans CHR '','' strip)"

fun emit_kept :: "(cstring \<Rightarrow> bool) \<Rightarrow> bool \<Rightarrow> hts_query_field list \<Rightarrow> cstring" where
  "emit_kept stripped wrote [] = []"
| "emit_kept stripped wrote (f # fs) =
     (if stripped (key f) then emit_kept stripped wrote fs
      else (if wrote then CHR ''&'' else CHR ''?'') # field_text f @ emit_kept stripped True fs)"

text \<open>The buffer of \<open>2 * HTS_URLMAXSIZE\<close> bytes aborts the program when it overflows: \<open>None\<close>.\<close>

definition fil_normalized_filtered_ex :: "cstring \<Rightarrow> cstring option \<Rightarrow> bool \<Rightarrow> bool \<Rightarrow> cstring option" where
  "fil_normalized_filtered_ex source strip do_slash do_query =
     (case (strip, strchr source CHR ''?'') of
        (Some keys, Some query) \<Rightarrow>
          if keys = [] then Some (fil_normalized_ex source do_slash do_query)
          else
            let tmp = take (length source - length query) source @
                  emit_kept (\<lambda>k. hts_query_key_stripped k keys) False (query_fields (Some (tl query)))
            in if length tmp \<ge> HTS_URLMAXSIZE * 2 then None else Some (fil_normalized_ex tmp do_slash do_query)
      | _ \<Rightarrow> Some (fil_normalized_ex source do_slash do_query))"

definition fil_normalized_filtered :: "cstring \<Rightarrow> cstring option \<Rightarrow> cstring option" where
  "fil_normalized_filtered source strip = fil_normalized_filtered_ex source strip True True"

text \<open>\<open>strclipbuff\<close> into a buffer of \<open>sz\<close> bytes.\<close>

definition strclipbuff :: "nat \<Rightarrow> cstring \<Rightarrow> cstring" where
  "strclipbuff sz src = take (if length src < sz then length src else sz - 1) src"

definition strip_subject :: "cstring \<Rightarrow> cstring \<Rightarrow> cstring" where
  "strip_subject a f =
     (let sz = HTS_URLMAXSIZE * 4;
          url = strclipbuff sz (jump_normalized a);
          url = (if cbyte f 0 \<noteq> CHR ''/'' then url @ strclipbuff (sz - length url) ''/'' else url);
          room = sz - length url - 1;
          fillen = length (takeWhile (\<lambda>c. c \<noteq> CHR ''?'') f)
      in url @ take (if fillen < room then fillen else room) f)"

definition strip_rule :: "bool \<Rightarrow> cstring \<Rightarrow> nat \<Rightarrow> cstring option \<Rightarrow> span \<Rightarrow> cstring option" where
  "strip_rule calloc_ok url destsize result line =
     (if line = [] then result
      else
        (case (case hts_span_split line CHR ''='' of
                 Some (pattern, keys) \<Rightarrow> (fst (hts_span_copy pattern (HTS_URLMAXSIZE * 2)), keys)
               | None \<Rightarrow> (''*'', line)) of
           (pat, keys) \<Rightarrow>
             if fst (strjoker calloc_ok url pat None None) \<noteq> None then Some (fst (hts_span_copy keys destsize))
             else result))"

definition hts_query_strip_keys :: "bool \<Rightarrow> cstring option \<Rightarrow> cstring \<Rightarrow> cstring \<Rightarrow> nat \<Rightarrow> cstring option" where
  "hts_query_strip_keys calloc_ok rules a f destsize =
     (case rules of
        None \<Rightarrow> None
      | Some rs \<Rightarrow>
          if rs = [] \<or> destsize = 0 then None
          else foldl (strip_rule calloc_ok (strip_subject a f) destsize) None (hts_spans LF rs))"

section \<open>Host aliases\<close>

definition strcaseeq :: "cstring \<Rightarrow> cstring \<Rightarrow> bool" where
  "strcaseeq a b \<longleftrightarrow> map lowchar a = map lowchar b"

fun has_sub :: "cstring \<Rightarrow> cstring \<Rightarrow> bool" where
  "has_sub s [] = (s = [])"
| "has_sub s (c # t) = (take (length s) (c # t) = s \<or> has_sub s t)"

definition BLANKS :: cstring where "BLANKS = [CHR '' '', TAB]"

definition hts_host_alias_split :: "span \<Rightarrow> (span \<times> span) option" where
  "hts_host_alias_split rule =
     (case hts_span_split rule CHR ''='' of
        None \<Rightarrow> None
      | Some (aliases, canon) \<Rightarrow> if aliases \<noteq> [] \<and> canon \<noteq> [] then Some (aliases, canon) else None)"

definition alias_hit :: "bool \<Rightarrow> cstring \<Rightarrow> cstring \<Rightarrow> bool \<Rightarrow> span \<Rightarrow> bool" where
  "alias_hit calloc_ok host full collapse_www alias =
     (let alias = hts_span_trim alias BLANKS (BLANKS @ ''/'') in
      if alias = [] \<or> \<not> snd (hts_span_copy alias (HTS_URLMAXSIZE * 2)) then False
      else
        let ghost = jump_protocol alias;
            ghost' = (if collapse_www then jump_normalized ghost else ghost);
            glob = take (length alias - length ghost) alias @ ghost'
        in fst (if has_sub ''://'' glob then strjoker calloc_ok full glob None None
                else strjoker calloc_ok host ghost' None None) \<noteq> None)"

definition alias_line :: "bool \<Rightarrow> cstring \<Rightarrow> cstring \<Rightarrow> bool \<Rightarrow> cstring option \<Rightarrow> span \<Rightarrow> cstring option" where
  "alias_line calloc_ok host full collapse_www found line =
     (case hts_host_alias_split line of
        None \<Rightarrow> found
      | Some (aliases, canon) \<Rightarrow>
          if list_ex (alias_hit calloc_ok host full collapse_www) (hts_spans CHR '','' aliases)
          then Some (hts_span_trim canon BLANKS (BLANKS @ ''/'')) else found)"

definition hts_host_alias_match :: "bool \<Rightarrow> cstring option \<Rightarrow> cstring \<Rightarrow> cstring \<Rightarrow> bool \<Rightarrow> cstring option" where
  "hts_host_alias_match calloc_ok rules host full collapse_www =
     foldl (alias_line calloc_ok host full collapse_www) None (hts_spans LF (hts_span_of rules))"

definition hts_host_alias_subject :: "cstring \<Rightarrow> cstring \<Rightarrow> nat \<Rightarrow> cstring option" where
  "hts_host_alias_subject url host destsize =
     (let bare = (jump_protocol url = url);
          scheme = (if bare then ''http://'' else take (length url - length (jump_protocol url)) url)
      in if length scheme \<ge> destsize \<or> length host \<ge> destsize - length scheme then None
         else Some (scheme @ host))"

definition HTS_HOST_ALIAS_MAXHOPS :: nat where "HTS_HOST_ALIAS_MAXHOPS = 8"
definition SCHEMEBUF :: nat where "SCHEMEBUF = 32"

text \<open>The scheme in effect after a rule's canonical host, and the address it writes.\<close>

definition alias_scheme :: "cstring \<Rightarrow> cstring \<Rightarrow> cstring option" where
  "alias_scheme schemebuf canon =
     (let n = length canon - length (jump_protocol canon) in
      if n = 0 then Some schemebuf else if n \<ge> SCHEMEBUF then None else Some (take n canon))"

definition alias_dest :: "cstring \<Rightarrow> cstring \<Rightarrow> cstring \<Rightarrow> nat \<Rightarrow> cstring option" where
  "alias_dest schemebuf cred canon destsize =
     (let chost = jump_identification (jump_protocol canon) in
      if chost = [] \<or> length schemebuf \<ge> destsize \<or> length cred \<ge> destsize - length schemebuf \<or>
         length chost \<ge> destsize - length schemebuf - length cred then None
      else Some (schemebuf @ cred @ chost))"

text \<open>\<open>n\<close> hops are left.  The result is the address, if any, and whether the chain settled.\<close>

fun alias_chain :: "bool \<Rightarrow> cstring option \<Rightarrow> bool \<Rightarrow> cstring \<Rightarrow> cstring \<Rightarrow> nat \<Rightarrow> nat \<Rightarrow> cstring \<Rightarrow> cstring \<Rightarrow>
    cstring option \<times> bool" where
  "alias_chain calloc_ok rules collapse_www a cred destsize 0 schemebuf canon = (None, False)"
| "alias_chain calloc_ok rules collapse_www a cred destsize (Suc n) schemebuf canon =
     (if length canon \<ge> HTS_URLMAXSIZE * 2 then (None, True)
      else
        case alias_scheme schemebuf canon of
          None \<Rightarrow> (None, True)
        | Some schemebuf \<Rightarrow>
            (case alias_dest schemebuf cred canon destsize of
               None \<Rightarrow> (None, True)
             | Some dest \<Rightarrow>
                 (let dhost = jump_identification dest;
                      dhost = (if collapse_www then jump_normalized dhost else dhost);
                      settle = (if \<not> strcaseeq dest a then Some dest else None, True)
                  in case hts_host_alias_subject dest dhost (HTS_URLMAXSIZE * 2) of
                       None \<Rightarrow> (None, True)
                     | Some full \<Rightarrow>
                         (case hts_host_alias_match calloc_ok rules dhost full collapse_www of
                            None \<Rightarrow> settle
                          | Some nxt \<Rightarrow>
                              if length nxt = length canon \<and> strcaseeq nxt canon then settle
                              else if n = 0 then (None, False)
                              else alias_chain calloc_ok rules collapse_www a cred destsize n schemebuf nxt))))"

definition hts_host_alias_resolve :: "bool \<Rightarrow> cstring option \<Rightarrow> cstring \<Rightarrow> bool \<Rightarrow> nat \<Rightarrow> cstring option \<times> bool" where
  "hts_host_alias_resolve calloc_ok rules a collapse_www destsize =
     (if hts_span_of rules = [] \<or> destsize = 0 \<or> a = [] \<or> a = ''primary'' \<or> a = ''file://'' then (None, True)
      else
        let proto = jump_protocol a; host = jump_identification a;
            schemebuf = take (length a - length proto) a;
            hostsubj = (if collapse_www then jump_normalized host else host)
        in if length schemebuf \<ge> SCHEMEBUF then (None, True)
           else
             case hts_host_alias_subject a hostsubj (HTS_URLMAXSIZE * 2) of
               None \<Rightarrow> (None, True)
             | Some full \<Rightarrow>
                 (case hts_host_alias_match calloc_ok rules hostsubj full collapse_www of
                    None \<Rightarrow> (None, True)
                  | Some canon \<Rightarrow>
                      alias_chain calloc_ok rules collapse_www a (take (length proto - length host) proto)
                        destsize HTS_HOST_ALIAS_MAXHOPS schemebuf canon))"

definition hts_host_alias :: "bool \<Rightarrow> cstring option \<Rightarrow> cstring \<Rightarrow> bool \<Rightarrow> nat \<Rightarrow> cstring option" where
  "hts_host_alias calloc_ok rules a collapse_www destsize =
     fst (hts_host_alias_resolve calloc_ok rules a collapse_www destsize)"

definition hts_host_same_alias :: "bool \<Rightarrow> cstring option \<Rightarrow> cstring \<Rightarrow> cstring \<Rightarrow> bool \<Rightarrow> bool" where
  "hts_host_same_alias calloc_ok rules adra adrb collapse_www =
     (if hts_span_of rules = [] then False
      else
        (case (hts_host_alias calloc_ok rules adra collapse_www (HTS_URLMAXSIZE * 2),
               hts_host_alias calloc_ok rules adrb collapse_www (HTS_URLMAXSIZE * 2)) of
           (None, None) \<Rightarrow> False
         | (a, b) \<Rightarrow> strcaseeq (jump_identification (case a of None \<Rightarrow> adra | Some x \<Rightarrow> x))
                       (jump_identification (case b of None \<Rightarrow> adrb | Some x \<Rightarrow> x))))"

fun strstr_after :: "cstring \<Rightarrow> cstring \<Rightarrow> cstring option" where
  "strstr_after s [] = (if s = [] then Some [] else None)"
| "strstr_after s (c # t) = (if take (length s) (c # t) = s then Some (drop (length s) (c # t)) else strstr_after s t)"

definition hts_host_alias_token_ok :: "span \<Rightarrow> bool \<Rightarrow> bool" where
  "hts_host_alias_token_ok token glob =
     (let token = hts_span_trim token BLANKS BLANKS in
      if token = [] \<or> \<not> snd (hts_span_copy token (HTS_URLMAXSIZE * 2)) then False
      else
        let buff = rev (dropWhile (\<lambda>c. c = CHR ''/'') (rev token));
            host = (case (if glob then strstr_after ''://'' buff else None) of
                      Some h \<Rightarrow> h | None \<Rightarrow> jump_protocol buff)
        in host \<noteq> [] \<and> host \<noteq> ''primary'' \<and> CHR ''/'' \<notin> set host \<and>
           list_all (\<lambda>c. \<not> (ord c < ord CHR '' '' \<or> ord c = 127) \<and>
             c \<notin> set (if glob then ''=# '' else ''=,*?();'' @ [BACKSLASH] @ ''#@ '')) host)"

definition hts_host_alias_rule_ok :: "cstring \<Rightarrow> bool" where
  "hts_host_alias_rule_ok rule =
     (case hts_host_alias_split rule of
        None \<Rightarrow> False
      | Some (aliases, canon) \<Rightarrow>
          hts_host_alias_token_ok canon False \<and>
          list_all (\<lambda>alias. hts_host_alias_token_ok alias True) (hts_spans CHR '','' aliases))"

text \<open>The canonical side of the first rule whose chain does not settle.\<close>

fun alias_looping :: "bool \<Rightarrow> cstring option \<Rightarrow> bool \<Rightarrow> nat \<Rightarrow> span list \<Rightarrow> cstring option" where
  "alias_looping calloc_ok rules collapse_www destsize [] = None"
| "alias_looping calloc_ok rules collapse_www destsize (line # lines) =
     (case hts_span_split line CHR ''='' of
        None \<Rightarrow> alias_looping calloc_ok rules collapse_www destsize lines
      | Some (aliases, target) \<Rightarrow>
          if target = [] \<or> \<not> snd (hts_span_copy target (HTS_URLMAXSIZE * 2))
          then alias_looping calloc_ok rules collapse_www destsize lines
          else if \<not> snd (hts_host_alias_resolve calloc_ok rules target collapse_www (HTS_URLMAXSIZE * 2)) \<and>
                  length target < destsize then Some target
          else alias_looping calloc_ok rules collapse_www destsize lines)"

definition hts_host_alias_looping :: "bool \<Rightarrow> cstring option \<Rightarrow> bool \<Rightarrow> nat \<Rightarrow> cstring option" where
  "hts_host_alias_looping calloc_ok rules collapse_www destsize =
     (if rules = None \<or> destsize = 0 then None
      else alias_looping calloc_ok rules collapse_www destsize (hts_spans LF (hts_span_of rules)))"

end
