(* ===== verification/UrlNormClaims.thy ===== *)
theory UrlNormClaims
  imports UrlNorm FilterClaims "HOL-Library.Multiset"
begin

text \<open>
  Proofs about URL normalization: the fields of a query are its text split at the ampersands, the
  comparison of the sort is the byte order, and the normal form is a pair of a collapsed path and a
  sorted multiset of arguments.  A host alias chain ends on a host that no rule maps further.
\<close>

section \<open>Fields and their texts\<close>

lemma field_text_head:
  assumes "hts_query_next (Some q) = Some (cur', f)"
  shows "field_text f = takeWhile (\<lambda>c. c \<noteq> CHR ''&'') q" and "key f = takeWhile (\<lambda>c. c \<noteq> CHR ''='') (field_text f)"
proof -
  note t = query_next_text[OF assms]
  show "field_text f = takeWhile (\<lambda>c. c \<noteq> CHR ''&'') q"
    using t(1,4) by (cases cur') (simp_all add: takeWhile_free)
  show "key f = takeWhile (\<lambda>c. c \<noteq> CHR ''='') (field_text f)"
    using t(3) by (cases "val f") (simp_all add: field_text_def takeWhile_free)
qed

lemma query_fields_split: "map field_text (query_fields (Some q)) = split_on CHR ''&'' q"
proof -
  have "join_fields fs = q \<Longrightarrow> \<forall>f \<in> set fs. c \<notin> set f \<Longrightarrow> fs \<noteq> [] \<Longrightarrow> c = CHR ''&'' \<Longrightarrow> fs = split_on c q" for fs c
  proof (induction fs arbitrary: q rule: join_fields.induct)
    case (2 f) then show ?case by (auto simp: split_on_plain)
  next
    case (3 f g fs) then show ?case by (auto simp: split_on_append)
  qed simp
  from this[OF query_fields_join _ _ refl] query_fields_ok[of _ "Some q"] query_fields_Some[of q] show ?thesis by auto
qed

lemma query_fields_key: "f \<in> set (query_fields cur) \<Longrightarrow> key f = takeWhile (\<lambda>c. c \<noteq> CHR ''='') (field_text f)"
proof (induction cur rule: query_fields.induct)
  case (1 cur)
  show ?case
  proof (cases cur)
    case (Some q)
    obtain cur' g where n: "hts_query_next (Some q) = Some (cur', g)" using query_next_Some by blast
    then show ?thesis using 1 Some field_text_head(2)[OF n] by (auto simp: query_fields.simps[of "Some q"])
  qed (use 1 in simp)
qed

lemma split_on_join:
  "fs \<noteq> [] \<Longrightarrow> \<forall>f \<in> set fs. CHR ''&'' \<notin> set f \<Longrightarrow> split_on CHR ''&'' (join_fields fs) = fs"
  by (induction fs rule: join_fields.induct) (auto simp: split_on_plain split_on_append)

lemma split_on_nonempty [simp]: "split_on c s \<noteq> []"
  by (induction s) (auto split: list.splits)

lemma split_on_free: "s \<in> set (split_on c xs) \<Longrightarrow> c \<notin> set s"
  by (induction xs arbitrary: s) (auto split: if_splits list.splits)

lemma split_on_inject: "split_on CHR ''&'' p = split_on CHR ''&'' q \<Longrightarrow> p = q"
  using query_fields_join query_fields_split by metis

section \<open>The order of the fields\<close>

definition bytes :: "cstring \<Rightarrow> nat list" where "bytes s = map ord s"

lemma inj_bytes: "inj bytes"
  by (auto simp: inj_def bytes_def intro: map_injective dest: injD)

lemma memcmp_order:
  "memcmp (take (min (length a) (length b)) a) (take (min (length a) (length b)) b) = 0 \<Longrightarrow>
    bytes a \<le> bytes b \<longleftrightarrow> length a \<le> length b"
  "memcmp (take (min (length a) (length b)) a) (take (min (length a) (length b)) b) \<noteq> 0 \<Longrightarrow>
    bytes a \<le> bytes b \<longleftrightarrow> memcmp (take (min (length a) (length b)) a) (take (min (length a) (length b)) b) < 0"
  by (induction a b rule: memcmp.induct) (auto simp: bytes_def split: if_splits)

lemma sortNormFnc_le: "sortNormFnc a b \<le> 0 \<longleftrightarrow> bytes a \<le> bytes b"
proof -
  have m: "(if length a < length b then length a else length b) = min (length a) (length b)" by simp
  show ?thesis using memcmp_order[of a b] unfolding sortNormFnc_def m Let_def by auto
qed

lemma insert_cmp_insort: "insert_cmp sortNormFnc x xs = insort_key bytes x xs"
  by (induction xs) (auto simp: sortNormFnc_le)

lemma qsort_cmp_sort: "qsort_cmp sortNormFnc xs = sort_key bytes xs"
  unfolding qsort_cmp_def sort_key_def by (induction xs) (auto simp: insert_cmp_insort)

lemma sort_bytes_eq_iff: "sort_key bytes xs = sort_key bytes ys \<longleftrightarrow> mset xs = mset ys"
proof
  assume "mset xs = mset ys"
  then show "sort_key bytes xs = sort_key bytes ys"
    by (intro sort_key_inj_key_eq) (auto intro: inj_on_subset[OF inj_bytes])
qed (metis mset_sort)

section \<open>The path\<close>

fun collapse_slashes :: "cstring \<Rightarrow> cstring" where
  "collapse_slashes (a # b # s) =
     (if a = CHR ''/'' \<and> b = CHR ''/'' then collapse_slashes (b # s) else a # collapse_slashes (b # s))"
| "collapse_slashes s = s"

lemma slash_loop_query: "slash_loop ds True lc s = s"
  by (induction s arbitrary: lc) auto

lemma slash_loop_plain: "slash_loop False gq lc s = s"
  by (induction s arbitrary: gq lc) (auto simp: Let_def)

lemma slash_loop_append:
  "CHR ''?'' \<notin> set p \<Longrightarrow> slash_loop ds False lc (p @ CHR ''?'' # q) = slash_loop ds False lc p @ CHR ''?'' # q"
  by (induction p arbitrary: lc) (auto simp: slash_loop_query)

lemma collapse_loop: "CHR ''?'' \<notin> set p \<Longrightarrow> collapse_slashes (lc # p) = lc # slash_loop True False lc p"
  by (induction p arbitrary: lc) auto

lemma slash_loop_collapse: "CHR ''?'' \<notin> set p \<Longrightarrow> slash_loop True False NUL p = collapse_slashes p"
  using collapse_loop[of p NUL] by (cases p) (auto split: if_splits)

lemma collapse_set: "set (collapse_slashes p) = set p"
  by (induction p rule: collapse_slashes.induct) auto

lemma collapse_hd: "p \<noteq> [] \<Longrightarrow> collapse_slashes p \<noteq> [] \<and> hd (collapse_slashes p) = hd p"
  by (induction p rule: collapse_slashes.induct) auto

lemma collapse_idem: "collapse_slashes (collapse_slashes p) = collapse_slashes p"
proof (induction p rule: collapse_slashes.induct)
  case (1 a b s)
  obtain t where t: "collapse_slashes (b # s) = b # t"
    using collapse_hd[of "b # s"] by (cases "collapse_slashes (b # s)") auto
  show ?case using 1 t by auto
qed simp_all

lemma collapse_length: "length (collapse_slashes p) \<le> length p"
  by (induction p rule: collapse_slashes.induct) auto

text \<open>A URL file name cut at its first question mark.\<close>

definition url_parts :: "cstring \<Rightarrow> cstring \<times> cstring option" where
  "url_parts f = (takeWhile (\<lambda>c. c \<noteq> CHR ''?'') f, map_option tl (strchr f CHR ''?''))"

definition unparts :: "cstring \<times> cstring option \<Rightarrow> cstring" where
  "unparts p = (case p of (path, None) \<Rightarrow> path | (path, Some q) \<Rightarrow> path @ CHR ''?'' # q)"

lemma strchr_free: "c \<notin> set p \<Longrightarrow> strchr p c = None" "c \<notin> set p \<Longrightarrow> strchr (p @ c # q) c = Some (c # q)"
  by (simp_all add: strchr_def takeWhile_free)

lemma url_parts_cases:
  obtains p where "f = p" "CHR ''?'' \<notin> set p" "url_parts f = (p, None)" "strchr f CHR ''?'' = None"
  | p q where "f = p @ CHR ''?'' # q" "CHR ''?'' \<notin> set p" "url_parts f = (p, Some q)" "strchr f CHR ''?'' = Some (CHR ''?'' # q)"
proof (cases "CHR ''?'' \<in> set f")
  case True
  then obtain p q where "f = p @ CHR ''?'' # q" "CHR ''?'' \<notin> set p" by (meson split_list_first)
  then show thesis using that(2) by (simp add: url_parts_def strchr_free takeWhile_free)
next
  case False
  then show thesis using that(1) by (simp add: url_parts_def strchr_free takeWhile_free)
qed

lemma url_parts_unparts: "CHR ''?'' \<notin> set p \<Longrightarrow> url_parts (unparts (p, q)) = (p, q)"
  by (cases q) (simp_all add: unparts_def url_parts_def strchr_free takeWhile_free)

lemma unparts_url_parts [simp]: "unparts (url_parts f) = f"
  by (rule url_parts_cases[of f]) (simp_all add: unparts_def)

definition sort_query :: "cstring \<Rightarrow> cstring" where
  "sort_query q = join_fields (sort_key bytes (split_on CHR ''&'' q))"

lemma fil_normalized_parts:
  "fil_normalized f = unparts (case url_parts f of (path, query) \<Rightarrow> (collapse_slashes path, map_option sort_query query))"
proof (rule url_parts_cases[of f])
  fix p assume "f = p" "CHR ''?'' \<notin> set p" "url_parts f = (p, None)"
  then show ?thesis
    by (simp add: fil_normalized_def fil_normalized_ex_def slash_loop_collapse unparts_def strchr_free collapse_set)
next
  fix p q assume f: "f = p @ CHR ''?'' # q" "CHR ''?'' \<notin> set p" "url_parts f = (p, Some q)"
  have dest: "slash_loop True False NUL (p @ CHR ''?'' # q) = collapse_slashes p @ CHR ''?'' # q"
    using f(2) by (simp add: slash_loop_append slash_loop_collapse)
  have one: "length (split_on CHR ''&'' q) \<le> 1 \<Longrightarrow> sort_query q = q"
    using query_fields_join[of q] unfolding query_fields_split sort_query_def
    by (cases "split_on CHR ''&'' q") auto
  show ?thesis
    unfolding f(1) f(3)[unfolded f(1)]
    using f(2) one by (auto simp: fil_normalized_def fil_normalized_ex_def dest strchr_free collapse_set unparts_def
      query_fields_split qsort_cmp_sort sort_query_def[symmetric] not_less Let_def)
qed

lemma split_sort_query: "split_on CHR ''&'' (sort_query q) = sort_key bytes (split_on CHR ''&'' q)"
  unfolding sort_query_def
proof (rule split_on_join)
  show "sort_key bytes (split_on CHR ''&'' q) \<noteq> []"
    by (metis length_0_conv length_sort split_on_nonempty)
qed (auto dest: split_on_free)

lemma sort_query_eq_iff: "sort_query p = sort_query q \<longleftrightarrow> mset (split_on CHR ''&'' p) = mset (split_on CHR ''&'' q)"
proof -
  have "sort_query p = sort_query q \<longleftrightarrow> split_on CHR ''&'' (sort_query p) = split_on CHR ''&'' (sort_query q)"
    using split_on_inject by metis
  then show ?thesis by (simp only: split_sort_query sort_bytes_eq_iff)
qed

lemma sort_query_idem [simp]: "sort_query (sort_query q) = sort_query q"
  unfolding sort_query_eq_iff split_sort_query by simp

section \<open>Stripped keys\<close>

definition kept_fields :: "cstring \<Rightarrow> cstring \<Rightarrow> cstring list" where
  "kept_fields keys q =
     filter (\<lambda>t. \<not> hts_query_key_stripped (takeWhile (\<lambda>c. c \<noteq> CHR ''='') t) keys) (split_on CHR ''&'' q)"

definition strip_query :: "cstring \<Rightarrow> cstring \<Rightarrow> cstring option" where
  "strip_query keys q = (if kept_fields keys q = [] then None else Some (join_fields (kept_fields keys q)))"

lemma join_fields_Cons: "join_fields (f # fs) = f @ concat (map (\<lambda>t. CHR ''&'' # t) fs)"
proof (induction fs arbitrary: f)
  case (Cons g gs) show ?case using Cons[of g] by simp
qed simp

lemma emit_kept_fields:
  "\<forall>f \<in> set fs. key f = K (field_text f) \<Longrightarrow>
    emit_kept st True fs = concat (map (\<lambda>t. CHR ''&'' # t) (filter (\<lambda>t. \<not> st (K t)) (map field_text fs)))"
  "\<forall>f \<in> set fs. key f = K (field_text f) \<Longrightarrow>
    emit_kept st False fs = (let k = filter (\<lambda>t. \<not> st (K t)) (map field_text fs) in
      if k = [] then [] else CHR ''?'' # join_fields k)"
proof -
  show one: "\<forall>f \<in> set fs. key f = K (field_text f) \<Longrightarrow>
    emit_kept st True fs = concat (map (\<lambda>t. CHR ''&'' # t) (filter (\<lambda>t. \<not> st (K t)) (map field_text fs)))" for fs
    by (induction fs) auto
  show "\<forall>f \<in> set fs. key f = K (field_text f) \<Longrightarrow>
    emit_kept st False fs = (let k = filter (\<lambda>t. \<not> st (K t)) (map field_text fs) in
      if k = [] then [] else CHR ''?'' # join_fields k)"
    by (induction fs) (auto simp: one join_fields_Cons Let_def)
qed

lemma emit_kept_query:
  "emit_kept (\<lambda>k. hts_query_key_stripped k keys) False (query_fields (Some q)) =
    (case strip_query keys q of None \<Rightarrow> [] | Some r \<Rightarrow> CHR ''?'' # r)"
  using emit_kept_fields(2)[of "query_fields (Some q)" "takeWhile (\<lambda>c. c \<noteq> CHR ''='')" "\<lambda>k. hts_query_key_stripped k keys"]
  by (simp add: query_fields_key query_fields_split strip_query_def kept_fields_def Let_def)

lemma kept_fields_mem: "t \<in> set (kept_fields keys q) \<Longrightarrow> CHR ''&'' \<notin> set t"
  by (auto simp: kept_fields_def dest: split_on_free)

lemma strip_query_fields: "strip_query keys q = Some r \<Longrightarrow> split_on CHR ''&'' r = kept_fields keys q"
  unfolding strip_query_def by (auto split: if_splits intro!: split_on_join dest: kept_fields_mem)

lemma strip_query_sorted:
  assumes "strip_query keys q = Some r"
  shows "strip_query keys (sort_query r) = Some (sort_query r)"
proof -
  have all: "kept_fields keys (sort_query r) = split_on CHR ''&'' (sort_query r)"
    unfolding kept_fields_def split_sort_query strip_query_fields[OF assms]
    by (rule filter_True) (auto simp: kept_fields_def)
  have "join_fields (split_on CHR ''&'' (sort_query r)) = sort_query r"
    using query_fields_join query_fields_split by metis
  then show ?thesis by (simp add: strip_query_def all)
qed

lemma filtered_parts:
  assumes "CHR ''?'' \<notin> set p"
  shows "fil_normalized_filtered p strip = Some (fil_normalized p)"
    and "fil_normalized_filtered (p @ CHR ''?'' # q) None = Some (fil_normalized (p @ CHR ''?'' # q))"
    and "fil_normalized_filtered (p @ CHR ''?'' # q) (Some []) = Some (fil_normalized (p @ CHR ''?'' # q))"
    and "keys \<noteq> [] \<Longrightarrow> fil_normalized_filtered (p @ CHR ''?'' # q) (Some keys) =
      (if length (unparts (p, strip_query keys q)) \<ge> HTS_URLMAXSIZE * 2 then None
       else Some (fil_normalized (unparts (p, strip_query keys q))))"
proof -
  have u: "p @ emit_kept (\<lambda>k. hts_query_key_stripped k keys) False (query_fields (Some q)) = unparts (p, strip_query keys q)"
    by (cases "strip_query keys q") (simp_all add: emit_kept_query unparts_def)
  show "fil_normalized_filtered p strip = Some (fil_normalized p)"
    "fil_normalized_filtered (p @ CHR ''?'' # q) None = Some (fil_normalized (p @ CHR ''?'' # q))"
    "fil_normalized_filtered (p @ CHR ''?'' # q) (Some []) = Some (fil_normalized (p @ CHR ''?'' # q))"
    using assms by (cases strip; simp add: fil_normalized_filtered_def fil_normalized_filtered_ex_def strchr_free fil_normalized_def)+
  show "keys \<noteq> [] \<Longrightarrow> fil_normalized_filtered (p @ CHR ''?'' # q) (Some keys) =
      (if length (unparts (p, strip_query keys q)) \<ge> HTS_URLMAXSIZE * 2 then None
       else Some (fil_normalized (unparts (p, strip_query keys q))))"
    using assms by (simp add: fil_normalized_filtered_def fil_normalized_filtered_ex_def strchr_free fil_normalized_def u Let_def)
qed

lemma length_join: "length (join_fields fs) = (if fs = [] then 0 else sum_list (map (\<lambda>f. Suc (length f)) fs) - 1)"
  by (induction fs rule: join_fields.induct) auto

lemma length_join_mset: "mset fs = mset gs \<Longrightarrow> length (join_fields fs) = length (join_fields gs)"
proof -
  assume m: "mset fs = mset gs"
  then have "sum_list (map (\<lambda>f. Suc (length f)) fs) = sum_list (map (\<lambda>f. Suc (length f)) gs)"
    by (metis mset_map sum_mset_sum_list)
  moreover have "fs = [] \<longleftrightarrow> gs = []" using m by (metis mset_zero_iff)
  ultimately show ?thesis by (simp add: length_join)
qed

lemma sort_query_length: "length (sort_query q) = length q"
  unfolding sort_query_def
  using length_join_mset[of "sort_key bytes (split_on CHR ''&'' q)" "split_on CHR ''&'' q"]
    query_fields_join[of q] query_fields_split[of q] by simp

lemma fil_normalized_unparts:
  "CHR ''?'' \<notin> set p \<Longrightarrow> fil_normalized (unparts (p, q)) = unparts (collapse_slashes p, map_option sort_query q)"
  by (simp add: fil_normalized_parts url_parts_unparts)

lemma fil_normalized_length: "length (fil_normalized f) \<le> length f"
  by (rule url_parts_cases[of f])
    (simp_all add: fil_normalized_parts unparts_def collapse_length sort_query_length)

lemma fil_normalized_idem: "fil_normalized (fil_normalized f) = fil_normalized f"
  by (rule url_parts_cases[of f])
    (simp_all add: fil_normalized_parts url_parts_unparts collapse_set collapse_idem)

lemma filtered_no_query: "url_parts f = (p, None) \<Longrightarrow> fil_normalized_filtered f strip = Some (fil_normalized f)"
  by (rule url_parts_cases[of f]) (auto simp: filtered_parts)

lemma filtered_cases:
  assumes "fil_normalized_filtered f strip = Some d"
  obtains "d = fil_normalized f" "fil_normalized_filtered d strip = Some (fil_normalized d)"
  | p keys q where "strip = Some keys" "keys \<noteq> []" "CHR ''?'' \<notin> set p" "f = p @ CHR ''?'' # q"
      "length (unparts (p, strip_query keys q)) < HTS_URLMAXSIZE * 2"
      "d = unparts (collapse_slashes p, map_option sort_query (strip_query keys q))"
proof (rule url_parts_cases[of f])
  fix p assume f: "f = p" "CHR ''?'' \<notin> set p" "url_parts f = (p, None)"
  then have "d = fil_normalized f" using assms filtered_parts(1) by auto
  moreover have "CHR ''?'' \<notin> set d" using f calculation by (simp add: fil_normalized_parts unparts_def collapse_set)
  ultimately show thesis using that(1) filtered_parts(1) by blast
next
  fix p q assume f: "f = p @ CHR ''?'' # q" "CHR ''?'' \<notin> set p" "url_parts f = (p, Some q)"
  have d: "fil_normalized f = collapse_slashes p @ CHR ''?'' # sort_query q"
    using f by (simp add: fil_normalized_parts unparts_def)
  show thesis
  proof (cases "strip = None \<or> strip = Some []")
    case True
    then show thesis using that(1) assms f(1) filtered_parts(2,3)[OF f(2)]
      filtered_parts(2,3)[of "collapse_slashes p" "sort_query q"] f(2) d by (auto simp: collapse_set)
  next
    case False
    then obtain keys where k: "strip = Some keys" "keys \<noteq> []" by (cases strip) auto
    have "length (unparts (p, strip_query keys q)) < HTS_URLMAXSIZE * 2" "d = fil_normalized (unparts (p, strip_query keys q))"
      using assms filtered_parts(4)[OF f(2) k(2), of q] f(1) k(1) by (auto split: if_splits)
    then show thesis using that(2)[OF k f(2,1)] fil_normalized_unparts[OF f(2)] by simp
  qed
qed

text \<open>
  C28. Two file names have the same normal form exactly when their paths agree after runs of slashes
  are collapsed and their queries, when present, hold the same arguments in any order.
\<close>

theorem fil_normalized_eq_iff:
  "fil_normalized f = fil_normalized g \<longleftrightarrow>
    (let cut_path = (\<lambda>u. collapse_slashes (takeWhile (\<lambda>c. c \<noteq> CHR ''?'') u));
         args = (\<lambda>u. map_option (\<lambda>q. mset (split_on CHR ''&'' (tl q))) (strchr u CHR ''?''))
     in cut_path f = cut_path g \<and> args f = args g)"
proof -
  have inj: "unparts (a, q) = unparts (b, r) \<longleftrightarrow> a = b \<and> q = r" if "CHR ''?'' \<notin> set a" "CHR ''?'' \<notin> set b" for a b q r
    using url_parts_unparts[OF that(1)] url_parts_unparts[OF that(2)] by (metis prod.inject)
  show ?thesis
    by (rule url_parts_cases[of f]; rule url_parts_cases[of g])
      (simp_all add: fil_normalized_parts inj collapse_set sort_query_eq_iff Let_def takeWhile_free)
qed

text \<open>
  C36. Normalizing again with the same strip list changes nothing, so the form written to the link
  table is the form looked up.
\<close>

theorem fil_normalized_filtered_fixpoint:
  assumes "fil_normalized_filtered f strip = Some d"
  shows "fil_normalized_filtered d strip = Some d"
  using assms
proof (cases rule: filtered_cases)
  case 1
  then show ?thesis using fil_normalized_idem by simp
next
  case (2 p keys q)
  have p: "CHR ''?'' \<notin> set (collapse_slashes p)" using 2 by (simp add: collapse_set)
  show ?thesis
  proof (cases "strip_query keys q")
    case None
    then show ?thesis using 2 p by (simp add: unparts_def filtered_parts fil_normalized_parts url_parts_def strchr_free takeWhile_free collapse_idem)
  next
    case (Some r)
    have "length (unparts (collapse_slashes p, Some (sort_query r))) < HTS_URLMAXSIZE * 2"
      using 2(5) Some collapse_length[of p] by (simp add: unparts_def sort_query_length)
    then show ?thesis
      using 2 Some filtered_parts(4)[OF p 2(2), of "sort_query r"] strip_query_sorted[OF Some]
        fil_normalized_unparts[OF p, of "Some (sort_query r)"] by (simp add: unparts_def collapse_idem)
  qed
qed

theorem fil_normalized_filtered_fixpoint_witness:
  "fil_normalized_filtered ''/a//b?z=1&sid=2&a=3'' (Some ''sid'') = Some ''/a/b?a=3&z=1'' \<and>
   fil_normalized_filtered ''/a/b?a=3&z=1'' (Some ''sid'') = Some ''/a/b?a=3&z=1''"
proof -
  have "fil_normalized_filtered ''/a//b?z=1&sid=2&a=3'' (Some ''sid'') = Some ''/a/b?a=3&z=1''" by code_simp
  from this fil_normalized_filtered_fixpoint[OF this] show ?thesis by blast
qed
section \<open>Alias chains\<close>

text \<open>What the rules say of a written address.\<close>

definition next_alias :: "bool \<Rightarrow> cstring option \<Rightarrow> bool \<Rightarrow> cstring \<Rightarrow> cstring option" where
  "next_alias calloc_ok rules collapse_www d =
     (let h = jump_identification d; h = (if collapse_www then jump_normalized h else h) in
      case hts_host_alias_subject d h (HTS_URLMAXSIZE * 2) of
        None \<Rightarrow> None
      | Some full \<Rightarrow> hts_host_alias_match calloc_ok rules h full collapse_www)"

definition alias_stable :: "bool \<Rightarrow> cstring option \<Rightarrow> bool \<Rightarrow> cstring \<Rightarrow> bool" where
  "alias_stable calloc_ok rules collapse_www d \<longleftrightarrow>
     (case next_alias calloc_ok rules collapse_www d of
        None \<Rightarrow> True
      | Some c \<Rightarrow> \<exists>canon. strcaseeq c canon \<and> suffix (jump_identification (jump_protocol canon)) d)"

lemma alias_dest_fits:
  "alias_dest sb cred canon ds = Some d \<Longrightarrow>
    length d < ds \<and> suffix (jump_identification (jump_protocol canon)) d \<and> d \<noteq> []"
  by (auto simp: alias_dest_def Let_def suffix_def split: if_splits)

lemma alias_chain_result:
  "alias_chain calloc_ok rules cw a cred ds n sb canon = (r, st) \<Longrightarrow>
    (\<not> st \<longrightarrow> r = None) \<and>
    (\<forall>d. r = Some d \<longrightarrow> length d < ds \<and> \<not> strcaseeq d a \<and> alias_stable calloc_ok rules cw d)"
proof (induction n arbitrary: sb canon)
  case (Suc n)
  consider (stop) "r = None" "st"
    | (dest) sb' d where "alias_dest sb' cred canon ds = Some d" "\<not> length canon \<ge> HTS_URLMAXSIZE * 2" "alias_scheme sb canon = Some sb'"
    using Suc.prems by (auto simp: Let_def split: if_splits option.splits)
  then show ?case
  proof cases
    case dest
    note fits = alias_dest_fits[OF dest(1)]
    define h where "h = (if cw then jump_normalized (jump_identification d) else jump_identification d)"
    have chain: "alias_chain calloc_ok rules cw a cred ds (Suc n) sb canon =
      (case hts_host_alias_subject d h (HTS_URLMAXSIZE * 2) of
         None \<Rightarrow> (None, True)
       | Some full \<Rightarrow>
           (case hts_host_alias_match calloc_ok rules h full cw of
              None \<Rightarrow> (if \<not> strcaseeq d a then Some d else None, True)
            | Some nxt \<Rightarrow>
                if length nxt = length canon \<and> strcaseeq nxt canon then (if \<not> strcaseeq d a then Some d else None, True)
                else if n = 0 then (None, False)
                else alias_chain calloc_ok rules cw a cred ds n sb' nxt))"
      using dest by (simp add: h_def Let_def cong: option.case_cong)
    have nxt: "next_alias calloc_ok rules cw d =
      (case hts_host_alias_subject d h (HTS_URLMAXSIZE * 2) of None \<Rightarrow> None
       | Some full \<Rightarrow> hts_host_alias_match calloc_ok rules h full cw)"
      unfolding next_alias_def h_def Let_def ..
    show ?thesis
    proof (cases "hts_host_alias_subject d h (HTS_URLMAXSIZE * 2)")
      case None
      then show ?thesis using Suc.prems[unfolded chain None option.case] by auto
    next
      case (Some full)
      show ?thesis
      proof (cases "hts_host_alias_match calloc_ok rules h full cw")
        case None
        then show ?thesis using Suc.prems[unfolded chain Some option.case None] fits nxt[unfolded Some option.case None] by (auto simp: alias_stable_def split: if_splits)
      next
        case S: (Some c)
        show ?thesis
          using Suc.prems[unfolded chain Some option.case S] Suc.IH[of sb' c] fits nxt[unfolded Some option.case S]
          by (auto simp: alias_stable_def split: if_splits)
      qed
    qed
  qed auto
qed auto

lemma resolve_chain:
  assumes "hts_host_alias_resolve calloc_ok rules a cw ds = (r, st)"
  shows "(r = None \<and> st) \<or>
    (\<exists>cred sb canon. alias_chain calloc_ok rules cw a cred ds HTS_HOST_ALIAS_MAXHOPS sb canon = (r, st))"
  using assms unfolding hts_host_alias_resolve_def Let_def by (auto split: if_splits option.splits)

lemma resolve_unmatched:
  assumes "next_alias calloc_ok rules cw d = None"
  shows "hts_host_alias_resolve calloc_ok rules d cw ds = (None, True)"
  using assms unfolding hts_host_alias_resolve_def next_alias_def Let_def by (auto split: option.splits)

lemma strjoker_any: "fst (strjoker True [c] ''*'' None None) = Some [c]"
  by (simp add: strjoker_fst joker_eval)


end
