(* ===== verification/Utf8.thy ===== *)
theory Utf8
  imports CStrings
begin

text \<open>
  The UTF-8 coder of \<open>htscharset.c\<close>: the macros \<open>EMIT_UNICODE\<close> and \<open>READ_UNICODE\<close> with their 32-bit
  arithmetic, the readers and writers built on them, the strict validity test, and the bounded copy.
  The coder is the historical one, with sequences of up to six bytes; the validity test is RFC 3629.
\<close>

type_synonym hts_UCS4 = "32 word"

definition cword :: "char \<Rightarrow> hts_UCS4" where "cword c = of_nat (ord c)"

text \<open>Conversion to \<open>unsigned char\<close>.\<close>

definition wchar :: "hts_UCS4 \<Rightarrow> char" where "wchar w = chr (unat w mod 256)"

definition hts_isStringAscii :: "cstring \<Rightarrow> bool" where
  "hts_isStringAscii s \<longleftrightarrow> list_all (\<lambda>c. \<not> ord c \<ge> 0x80) s"

section \<open>Macros\<close>

definition nlz8 :: "byte \<Rightarrow> nat" where
  "nlz8 x =
     (let (x, b) = (if x AND 0xf0 \<noteq> 0 then (drop_bit 4 x, 0) else (x, 4));
          (x, b) = (if x AND 0x0c \<noteq> 0 then (drop_bit 2 x, b) else (x, b + 2))
      in if x AND 0x02 = 0 then b + 1 else b)"

definition add_first_seq :: "hts_UCS4 \<Rightarrow> nat \<Rightarrow> char" where
  "add_first_seq uc ln = wchar (NOT (push_bit (8 - ln) 1 - 1) OR drop_bit ((ln - 1) * 6) uc)"

definition add_next_seq :: "hts_UCS4 \<Rightarrow> nat \<Rightarrow> char" where
  "add_next_seq uc sh = wchar (0x80 OR (drop_bit sh uc AND 0x3f))"

definition emit_unicode :: "hts_UCS4 \<Rightarrow> cstring" where
  "emit_unicode uc =
     (if uc < 0x80 then [wchar uc]
      else if uc < 0x0800 then [add_first_seq uc 2, add_next_seq uc 0]
      else if uc < 0x10000 then [add_first_seq uc 3, add_next_seq uc 6, add_next_seq uc 0]
      else if uc < 0x200000 then
        [add_first_seq uc 4, add_next_seq uc 12, add_next_seq uc 6, add_next_seq uc 0]
      else if uc < 0x4000000 then
        [add_first_seq uc 5, add_next_seq uc 18, add_next_seq uc 12, add_next_seq uc 6, add_next_seq uc 0]
      else
        [add_first_seq uc 6, add_next_seq uc 24, add_next_seq uc 18, add_next_seq uc 12, add_next_seq uc 6,
         add_next_seq uc 0])"

text \<open>\<open>n\<close> continuation bytes are still to be read; a byte that is none is consumed.\<close>

fun read_loop :: "nat \<Rightarrow> hts_UCS4 \<Rightarrow> cstring \<Rightarrow> hts_UCS4 option \<times> cstring" where
  "read_loop 0 uc s = (Some uc, s)"
| "read_loop (Suc n) uc [] = (None, [])"
| "read_loop (Suc n) uc (c # s) =
     (if drop_bit 6 (cword c) = 0x2 then read_loop n (push_bit 6 uc OR (cword c AND 0x3f)) s
      else (None, s))"

definition read_unicode :: "cstring \<Rightarrow> hts_UCS4 option \<times> cstring" where
  "read_unicode s =
     (case s of
        [] \<Rightarrow> (None, [])
      | c # s \<Rightarrow>
          (let n = nlz8 (NOT (of_nat (ord c))) in
           if n = 0 then (Some (cword c), s)
           else if 2 \<le> n \<and> n \<le> 6 then read_loop (n - 1) (cword c AND (push_bit (7 - n) 1 - 1)) s
           else (None, s)))"

section \<open>Readers and writers\<close>

lemma read_loop_length: "read_loop n uc s = (r, t) \<Longrightarrow> length t \<le> length s"
  by (induction n uc s rule: read_loop.induct) (auto split: if_splits)

lemma read_unicode_shorter: "read_unicode (c # s) = (r, t) \<Longrightarrow> length t < length (c # s)"
  by (auto simp: read_unicode_def Let_def less_Suc_eq_le split: if_splits dest: read_loop_length)

lemma read_unicode_progress: "(r, t) = read_unicode s \<Longrightarrow> s \<noteq> [] \<Longrightarrow> length t < length s"
  using read_unicode_shorter[of "hd s" "tl s" r t] by (cases s) auto

function hts_convertUTF8StringToUCS4 :: "cstring \<Rightarrow> hts_UCS4 list" where
  "hts_convertUTF8StringToUCS4 s =
     (if s = [] then []
      else (case read_unicode s of
              (uc, t) \<Rightarrow> (case uc of Some u \<Rightarrow> u | None \<Rightarrow> 0xfffd) # hts_convertUTF8StringToUCS4 t))"
  by pat_completeness auto
termination
  by (relation "measure length") (auto dest: read_unicode_progress)

declare hts_convertUTF8StringToUCS4.simps [simp del]

definition hts_convertUCS4StringToUTF8 :: "hts_UCS4 list \<Rightarrow> cstring" where
  "hts_convertUCS4StringToUTF8 us = concat (map emit_unicode us)"

text \<open>The bytes written, when there is room for them and for one more.\<close>

definition hts_writeUTF8 :: "hts_UCS4 \<Rightarrow> nat \<Rightarrow> cstring option" where
  "hts_writeUTF8 uc sz = (if length (emit_unicode uc) < sz then Some (emit_unicode uc) else None)"

definition hts_readUTF8 :: "cstring \<Rightarrow> nat \<times> hts_UCS4 option" where
  "hts_readUTF8 src =
     (case read_unicode src of (Some uc, t) \<Rightarrow> (length src - length t, Some uc) | (None, t) \<Rightarrow> (0, None))"

definition hts_getUTF8SequenceLength :: "char \<Rightarrow> nat" where
  "hts_getUTF8SequenceLength lead =
     (let c = nlz8 (NOT (of_nat (ord lead))) in if c = 0 then 1 else if 2 \<le> c \<and> c \<le> 6 then c else 0)"

section \<open>Validity\<close>

text \<open>Length, smallest code and first bits a lead byte announces.\<close>

definition utf8_lead :: "char \<Rightarrow> (nat \<times> hts_UCS4 \<times> hts_UCS4) option" where
  "utf8_lead c =
     (let n = ord c in
      if n < 0x80 then Some (1, 0, cword c)
      else if 0xc2 \<le> n \<and> n \<le> 0xdf then Some (2, 0x80, cword c AND 0x1f)
      else if 0xe0 \<le> n \<and> n \<le> 0xef then Some (3, 0x800, cword c AND 0x0f)
      else if 0xf0 \<le> n \<and> n \<le> 0xf4 then Some (4, 0x10000, cword c AND 0x07)
      else None)"

fun utf8_cont :: "hts_UCS4 \<Rightarrow> cstring \<Rightarrow> hts_UCS4 option" where
  "utf8_cont uc [] = Some uc"
| "utf8_cont uc (c # s) =
     (if cword c AND 0xc0 \<noteq> 0x80 then None else utf8_cont (push_bit 6 uc OR (cword c AND 0x3f)) s)"

function hts_isStringUTF8 :: "cstring \<Rightarrow> bool" where
  "hts_isStringUTF8 s =
     (case s of
        [] \<Rightarrow> True
      | c # t \<Rightarrow>
          (case utf8_lead c of
             None \<Rightarrow> False
           | Some (ln, mn, uc) \<Rightarrow>
               if ln = 1 then hts_isStringUTF8 t
               else if length s < ln then False
               else
                 (case utf8_cont uc (take (ln - 1) t) of
                    None \<Rightarrow> False
                  | Some uc \<Rightarrow>
                      if uc < mn \<or> uc > 0x10FFFF \<or> (uc \<ge> 0xD800 \<and> uc \<le> 0xDFFF) then False
                      else hts_isStringUTF8 (drop (ln - 1) t))))"
  by pat_completeness auto
termination by (relation "measure length") auto

declare hts_isStringUTF8.simps [simp del]

section \<open>Length and copy\<close>

definition HTS_IS_LEADING_UTF8 :: "char \<Rightarrow> bool" where
  "HTS_IS_LEADING_UTF8 c \<longleftrightarrow> ord c < 0x80 \<or> ord c \<ge> 0xc0"

definition hts_stringLengthUTF8 :: "cstring \<Rightarrow> nat" where
  "hts_stringLengthUTF8 s = length (filter HTS_IS_LEADING_UTF8 s)"

text \<open>
  The loop at offset \<open>i\<close> returns the position of the mark.  The source tests the byte after the one it
  is about to copy; past the terminator of an empty string the model reads a NUL.
\<close>

function copy_utf8_loop :: "cstring \<Rightarrow> nat \<Rightarrow> nat \<Rightarrow> nat \<Rightarrow> nat" where
  "copy_utf8_loop src sz i mk =
     (if (i = 0 \<or> cbyte src (i + 1) \<noteq> NUL) \<and> i \<le> sz
      then copy_utf8_loop src sz (i + 1) (if HTS_IS_LEADING_UTF8 (cbyte src i) then i else mk)
      else mk)"
  by pat_completeness auto
termination by (relation "measure (\<lambda>(src, sz, i, mk). Suc sz - i)") auto

declare copy_utf8_loop.simps [simp del]

definition hts_copyStringUTF8 :: "cstring \<Rightarrow> nat \<Rightarrow> cstring" where
  "hts_copyStringUTF8 src sz = take (copy_utf8_loop src sz 0 0) src"

definition hts_appendStringUTF8 :: "cstring \<Rightarrow> cstring \<Rightarrow> nat \<Rightarrow> cstring" where
  "hts_appendStringUTF8 dest src nBytes = dest @ hts_copyStringUTF8 src nBytes"

definition hts_isCharsetUTF8 :: "cstring option \<Rightarrow> bool" where
  "hts_isCharsetUTF8 charset =
     (case charset of
        None \<Rightarrow> False
      | Some s \<Rightarrow> map lowchar s = ''utf-8'' \<or> map lowchar s = ''utf8'')"

end
