(* ===== verification/Psl.thy ===== *)
theory Psl
  imports Utf8
begin

text \<open>
  The Public Suffix List of \<open>htspsl.c\<close>.  Its hash table is the \<open>coucal\<close> library, which is not part of
  the sources: a list being read is a table of type \<open>'h\<close> with the functions \<open>rd\<close> and \<open>wr\<close>, and the
  list in use is its lookup, \<open>None\<close> when no list is loaded.  \<open>idna\<close> is \<open>hts_convertStringUTF8ToIDNA\<close>.
\<close>

definition PSL_EXACT :: nat where "PSL_EXACT = 1"
definition PSL_WILDCARD :: nat where "PSL_WILDCARD = 2"
definition PSL_EXCEPTION :: nat where "PSL_EXCEPTION = 4"

type_synonym psl_rules = "cstring \<Rightarrow> nat option"

section \<open>Reading a list\<close>

definition psl_add ::
    "(cstring \<Rightarrow> cstring option) \<Rightarrow> ('h \<Rightarrow> cstring \<Rightarrow> nat option) \<Rightarrow> ('h \<Rightarrow> cstring \<Rightarrow> nat \<Rightarrow> 'h) \<Rightarrow> 'h \<Rightarrow> cstring \<Rightarrow> 'h" where
  "psl_add idna rd wr rules rule =
     (case (if length rule > 2 \<and> cbyte rule 0 = CHR ''*'' \<and> cbyte rule 1 = CHR ''.'' then (PSL_WILDCARD, drop 2 rule)
            else if length rule > 1 \<and> cbyte rule 0 = CHR ''!'' then (PSL_EXCEPTION, drop 1 rule)
            else (PSL_EXACT, rule)) of
        (kind, rule) \<Rightarrow>
          (case (if hts_isStringAscii rule then Some rule else idna rule) of
             None \<Rightarrow> rules
           | Some rule \<Rightarrow>
               if length rule > 0 \<and> length rule < 256 then
                 (let key = hts_lowcase rule; old = (case rd rules key of None \<Rightarrow> 0 | Some k \<Rightarrow> k)
                  in wr rules key (old OR kind))
               else rules))"

definition psl_blank :: "char \<Rightarrow> bool" where
  "psl_blank c \<longleftrightarrow> c = CHR '' '' \<or> c = TAB \<or> c = CR"

text \<open>The list and the version stamp after one line.\<close>

definition psl_add_line ::
    "(cstring \<Rightarrow> cstring option) \<Rightarrow> ('h \<Rightarrow> cstring \<Rightarrow> nat option) \<Rightarrow> ('h \<Rightarrow> cstring \<Rightarrow> nat \<Rightarrow> 'h) \<Rightarrow>
      'h \<times> cstring \<Rightarrow> cstring \<Rightarrow> 'h \<times> cstring" where
  "psl_add_line idna rd wr st line =
     (case st of (rules, version) \<Rightarrow>
        if take 12 line = ''// VERSION: '' then (rules, takeWhile (\<lambda>c. \<not> psl_blank c) (drop 12 line))
        else
          let rest = dropWhile (\<lambda>c. c = CHR '' '' \<or> c = TAB) line in
          if take 2 rest = ''//'' then (rules, version)
          else
            let rule = takeWhile (\<lambda>c. \<not> psl_blank c) rest in
            (if rule \<noteq> [] then psl_add idna rd wr rules rule else rules, version))"

text \<open>The bytes of \<open>psl_version\<close>.\<close>

definition psl_install :: "cstring \<Rightarrow> cstring" where
  "psl_install version = take (if length version \<ge> 64 then 63 else length version) version"

text \<open>The text of a list file, from a new table; \<open>nitems\<close> counts the keys of a table.\<close>

fun psl_lines :: "cstring \<Rightarrow> cstring list" where
  "psl_lines [] = []"
| "psl_lines (c # s) =
     (if c = LF then [] # psl_lines s
      else (case psl_lines s of [] \<Rightarrow> [[c]] | l # ls \<Rightarrow> (c # l) # ls))"

definition hts_psl_load_text ::
    "(cstring \<Rightarrow> cstring option) \<Rightarrow> ('h \<Rightarrow> cstring \<Rightarrow> nat option) \<Rightarrow> ('h \<Rightarrow> cstring \<Rightarrow> nat \<Rightarrow> 'h) \<Rightarrow>
      ('h \<Rightarrow> nat) \<Rightarrow> 'h \<Rightarrow> nat \<Rightarrow> cstring \<Rightarrow> ('h \<times> cstring) option" where
  "hts_psl_load_text idna rd wr nitems new min_rules content =
     (case foldl (psl_add_line idna rd wr) (new, []) (psl_lines content) of
        (rules, version) \<Rightarrow>
          if nitems rules < min_rules \<or> nitems rules = 0 then None else Some (rules, psl_install version))"

section \<open>Lookups\<close>

definition psl_kind :: "psl_rules \<Rightarrow> cstring \<Rightarrow> nat" where
  "psl_kind rules k = (case rules k of None \<Rightarrow> 0 | Some v \<Rightarrow> v)"

text \<open>The loop at offset \<open>p\<close>, from the end of the host; an empty list is the failure.\<close>

fun labels_loop :: "cstring \<Rightarrow> nat \<Rightarrow> nat \<Rightarrow> cstring list \<Rightarrow> cstring list" where
  "labels_loop host mx 0 labels =
     (if cbyte host 0 = CHR ''.'' \<or> cbyte host 0 = NUL \<or> length labels = mx then [] else labels @ [host])"
| "labels_loop host mx (Suc p) labels =
     (if cbyte host p = CHR ''.'' then
        (if cbyte host (Suc p) = CHR ''.'' \<or> cbyte host (Suc p) = NUL \<or> length labels = mx then []
         else labels_loop host mx p (labels @ [drop (Suc p) host]))
      else labels_loop host mx p labels)"

definition psl_labels :: "cstring \<Rightarrow> nat \<Rightarrow> cstring list" where
  "psl_labels host mx = (if host = [] then [] else labels_loop host mx (length host) [])"

fun suffix_loop :: "psl_rules \<Rightarrow> nat \<Rightarrow> nat \<Rightarrow> nat \<Rightarrow> nat \<Rightarrow> cstring list \<Rightarrow> nat \<times> nat" where
  "suffix_loop rules k sfx exc parent [] = (sfx, exc)"
| "suffix_loop rules k sfx exc parent (l # ls) =
     (let kind = psl_kind rules l;
          exc = (if kind AND PSL_EXCEPTION \<noteq> 0 then k + 1 else exc);
          sfx = (if kind AND (PSL_EXACT OR PSL_WILDCARD) \<noteq> 0 \<or> parent AND PSL_WILDCARD \<noteq> 0 then k + 1 else sfx)
      in suffix_loop rules (k + 1) sfx exc kind ls)"

definition psl_suffix :: "psl_rules \<Rightarrow> cstring list \<Rightarrow> nat" where
  "psl_suffix rules labels =
     (case suffix_loop rules 0 1 0 0 labels of (sfx, exc) \<Rightarrow> if exc \<noteq> 0 then exc - 1 else sfx)"

definition hts_psl_registrable_domain ::
    "(cstring \<Rightarrow> cstring option) \<Rightarrow> psl_rules option \<Rightarrow> cstring \<Rightarrow> cstring option" where
  "hts_psl_registrable_domain idna psl host =
     (case psl of
        None \<Rightarrow> None
      | Some rules \<Rightarrow>
          (let labels = psl_labels host 128; n = length labels in
           if n = 0 then None
           else
             case (if hts_isStringAscii host then Some labels
                   else
                     (case idna host of
                        None \<Rightarrow> None
                      | Some h \<Rightarrow> if length (psl_labels h n) \<noteq> n then None else Some (psl_labels h n))) of
               None \<Rightarrow> None
             | Some ks \<Rightarrow> (let sfx = psl_suffix rules ks in if sfx < n then Some (labels ! sfx) else None)))"

end
