(* ===== verification/Dates.thy ===== *)
theory Dates
  imports UrlPort "HOL-Library.Signed_Division"
begin

text \<open>
  \<open>htsdate.c\<close>: the RFC 822 date parser shared by the engine and proxytrack, and the Unix time of a UTC
  date.  \<open>int\<close> fields are integers; \<open>sdiv\<close> and \<open>smod\<close> are the truncating division of C.
\<close>

record tm =
  tm_sec :: int
  tm_min :: int
  tm_hour :: int
  tm_mday :: int
  tm_mon :: int
  tm_year :: int
  tm_wday :: int
  tm_yday :: int
  tm_isdst :: int

definition INT_MAX :: int where "INT_MAX = 2147483647"

definition months :: cstring where "months = ''jan feb mar apr may jun jul aug sep oct nov dec''"

fun strstr_pos :: "cstring \<Rightarrow> cstring \<Rightarrow> nat option" where
  "strstr_pos [] t = (if t = [] then Some 0 else None)"
| "strstr_pos (c # s) t = (if take (length t) (c # s) = t then Some 0 else map_option Suc (strstr_pos s t))"

text \<open>The numbers in order of appearance, \<open>-1\<close> for one not seen.\<close>

record date_state =
  result_mm :: int
  result_dd :: int
  result_n1 :: int
  result_n2 :: int
  result_n3 :: int
  result_n4 :: int

definition date_init :: date_state where
  "date_init = \<lparr>result_mm = -1, result_dd = -1, result_n1 = -1, result_n2 = -1, result_n3 = -1, result_n4 = -1\<rparr>"

definition date_number :: "int \<Rightarrow> date_state \<Rightarrow> date_state" where
  "date_number number st =
     (if result_dd st < 0 then st\<lparr>result_dd := number\<rparr>
      else if result_n1 st < 0 then st\<lparr>result_n1 := number\<rparr>
      else if result_n2 st < 0 then st\<lparr>result_n2 := number\<rparr>
      else if result_n3 st < 0 then st\<lparr>result_n3 := number\<rparr>
      else if result_n4 st < 0 then st\<lparr>result_n4 := number\<rparr>
      else st)"

definition date_month :: "cstring \<Rightarrow> nat option" where
  "date_month tok =
     (if length tok = 3 then
        (case strstr_pos months tok of
           Some pos \<Rightarrow> if pos mod 4 = 0 then Some (pos div 4) else None
         | None \<Rightarrow> None)
      else None)"

definition date_token :: "date_state \<Rightarrow> cstring \<Rightarrow> date_state" where
  "date_token st tok =
     (case date_month tok of
        Some mm \<Rightarrow> st\<lparr>result_mm := int mm\<rparr>
      | None \<Rightarrow>
          (let digits = dropWhile (\<lambda>c. c \<in> set HTS_REALSPACES) tok;
               digits = (if cbyte digits 0 = CHR ''+'' \<and> isdigit (cbyte digits 1) then tl digits else digits)
           in case hts_scan_llint digits 0 INT_MAX of
                (HTS_SCAN_OK v, rest) \<Rightarrow> date_number v st
              | _ \<Rightarrow> st))"

function date_tokens :: "cstring \<Rightarrow> cstring list" where
  "date_tokens a =
     (if a = [] then []
      else
        let first = dropWhile (\<lambda>c. c = CHR '' '') a; tok = takeWhile (\<lambda>c. c \<noteq> CHR '' '') first;
            rest = dropWhile (\<lambda>c. c \<noteq> CHR '' '') first
        in if tok = [] then date_tokens rest else tok # date_tokens rest)"
  by pat_completeness auto
termination
proof (relation "measure length")
  have shorter: "length (dropWhile (\<lambda>c. c \<noteq> CHR '' '') (dropWhile (\<lambda>c. c = CHR '' '') a)) < length a" if "a \<noteq> []" for a :: cstring
  proof (cases "hd a = CHR '' ''")
    case True
    then have "length (dropWhile (\<lambda>c. c = CHR '' '') a) < length a"
      using that length_dropWhile_less[of "\<lambda>c. c = CHR '' ''" "hd a" "tl a"] by (cases a) simp_all
    then show ?thesis by (meson length_dropWhile_le le_less_trans)
  next
    case False
    then have "dropWhile (\<lambda>c. c = CHR '' '') a = a" using that by (cases a) auto
    then show ?thesis using that False length_dropWhile_less[of "\<lambda>c. c \<noteq> CHR '' ''" "hd a" "tl a"] by (cases a) simp_all
  qed
  fix a first tok rest :: cstring
  assume "a \<noteq> []" "first = dropWhile (\<lambda>c. c = CHR '' '') a" "rest = dropWhile (\<lambda>c. c \<noteq> CHR '' '') first"
  then have "length rest < length a" using shorter by simp
  then show "(rest, a) \<in> measure length" and "(rest, a) \<in> measure length" by simp_all
qed simp

declare date_tokens.simps [simp del]

definition date_result :: "int \<Rightarrow> date_state \<Rightarrow> tm option" where
  "date_result pivot st =
     (if result_n1 st \<ge> 0 \<and> result_mm st \<ge> 0 \<and> result_dd st \<ge> 0 \<and> result_n2 st \<ge> 0 \<and> result_n3 st \<ge> 0 \<and>
         result_n4 st \<ge> 0 then
        (case (if result_n4 st \<ge> 1000
               then (result_n4 st - 1900, result_n1 st, result_n2 st, if result_n3 st > 0 then result_n3 st else 0)
               else (if result_n1 st \<le> pivot then result_n1 st + 100
                     else if result_n1 st < 1000 then result_n1 st else result_n1 st - 1900,
                     result_n2 st, result_n3 st, if result_n4 st > 0 then result_n4 st else 0)) of
           (y, h, m, s) \<Rightarrow>
             Some \<lparr>tm_sec = s, tm_min = m, tm_hour = h, tm_mday = result_dd st, tm_mon = result_mm st, tm_year = y,
                   tm_wday = -1, tm_yday = -1, tm_isdst = 0\<rparr>)
      else None)"

definition convert_time_rfc822_pivot :: "cstring \<Rightarrow> int \<Rightarrow> tm option" where
  "convert_time_rfc822_pivot s pivot =
     (if length s > 200 then None
      else
        let str = map (\<lambda>c. if c = CHR ''-'' \<or> c = CHR '':'' \<or> c = CHR '','' then CHR '' '' else c) (hts_lowcase s)
        in date_result pivot (foldl date_token date_init (date_tokens str)))"

definition convert_time_rfc822 :: "cstring \<Rightarrow> tm option" where
  "convert_time_rfc822 s = convert_time_rfc822_pivot s 50"

section \<open>Unix time\<close>

definition hts_utc_seconds :: "tm \<Rightarrow> int" where
  "hts_utc_seconds t =
     (let y = tm_year t + 1900 + tm_mon t sdiv 12; m = tm_mon t smod 12;
          (m, y) = (if m < 0 then (m + 12, y - 1) else (m, y));
          y = (if m < 2 then y - 1 else y);
          era = (if y \<ge> 0 then y else y - 399) sdiv 400;
          yoe = y - era * 400;
          doy = (153 * ((m + 10) smod 12) + 2) sdiv 5 + tm_mday t - 1;
          days = era * 146097 + yoe * 365 + yoe sdiv 4 - yoe sdiv 100 + doy - 719468
      in days * 86400 + tm_hour t * 3600 + tm_min t * 60 + tm_sec t)"

text \<open>\<open>time_bits\<close> is the width of the platform's \<open>time_t\<close>.\<close>

definition hts_time_clip :: "nat \<Rightarrow> int \<Rightarrow> int" where
  "hts_time_clip time_bits t =
     (if time_bits < 64 then
        (if t > 2147483647 then 2147483647 else if t < -2147483648 then -2147483648 else t)
      else t)"

definition hts_time_exact :: "nat \<Rightarrow> int \<Rightarrow> int option" where
  "hts_time_exact time_bits t =
     (let clipped = hts_time_clip time_bits t in if clipped \<noteq> t then None else Some clipped)"

definition hts_tm_filetime :: "nat \<Rightarrow> tm \<Rightarrow> int option" where
  "hts_tm_filetime time_bits t =
     (let s = hts_utc_seconds t in if s = -1 \<or> s = 0 then None else Some (hts_time_clip time_bits s))"

end
