(* ===== verification/Cookies.thy ===== *)
theory Cookies
  imports Psl Dates Url UrlNorm
begin

text \<open>
  The cookie jar and the basic authentication list of \<open>htsbauth.c\<close>.  The jar is one string of
  tab-separated records, one per line; a pointer to a record is the suffix of the jar it starts.
  \<open>idna\<close> is the conversion of a host to its ASCII form and \<open>psl\<close> the public suffix list in use.
  Allocations succeed.  The field buffers of 8192 bytes abort the program when a field is longer;
  the records the jar holds are shorter (see \<open>CookieClaims\<close>).
\<close>

definition COOKIE_MAX_PAIR :: nat where "COOKIE_MAX_PAIR = 4096"
definition COOKIE_MAX_DOMAIN :: nat where "COOKIE_MAX_DOMAIN = 256"
definition COOKIE_MAX_PATH :: nat where "COOKIE_MAX_PATH = 256"
definition COOKIE_HEADROOM :: nat where "COOKIE_HEADROOM = 256"
definition COOKIE_HTTPONLY_FIELD :: cstring where "COOKIE_HTTPONLY_FIELD = ''HttpOnly''"

record cookie_attr =
  host_only :: bool
  secure :: bool
  http_only :: bool
  expires :: int

record bauth_chain =
  bprefix :: cstring
  bauth :: cstring

text \<open>\<open>auth\<close> holds the nodes after the embedded head, whose prefix stays empty.\<close>

record t_cookie =
  max_len :: nat
  jar_data :: cstring
  auth :: "bauth_chain list"

text \<open>The external functions the jar relies on.\<close>

record cookie_env =
  idna :: "cstring \<Rightarrow> cstring option"
  psl :: "psl_rules option"

section \<open>Hosts\<close>

definition cookie_is_capital :: "hts_UCS4 \<Rightarrow> bool" where
  "cookie_is_capital w =
     (let uc = unat w in
      if uc \<ge> 0x100 \<and> uc \<le> 0x17f then
        uc = 0x178 \<or> ((uc \<le> 0x137 \<or> (uc \<ge> 0x14a \<and> uc \<le> 0x177)) \<and> uc mod 2 = 0) \<or>
        (((uc \<ge> 0x139 \<and> uc \<le> 0x148) \<or> (uc \<ge> 0x179 \<and> uc \<le> 0x17e)) \<and> uc mod 2 = 1)
      else if (uc \<ge> 0x460 \<and> uc \<le> 0x481) \<or> (uc \<ge> 0x48a \<and> uc \<le> 0x4bf) \<or> (uc \<ge> 0x4d0 \<and> uc \<le> 0x52f) \<or>
              (uc \<ge> 0x1e00 \<and> uc \<le> 0x1e95) \<or> (uc \<ge> 0x1ea0 \<and> uc \<le> 0x1eff) then uc mod 2 = 0
      else if uc \<ge> 0x4c1 \<and> uc \<le> 0x4ce then uc mod 2 = 1
      else if uc \<ge> 0x3d8 \<and> uc \<le> 0x3ef then uc mod 2 = 0
      else (uc \<ge> 0xc0 \<and> uc \<le> 0xde \<and> uc \<noteq> 0xd7) \<or> uc = 0x370 \<or> uc = 0x372 \<or> uc = 0x376 \<or> uc = 0x37f \<or>
           uc = 0x386 \<or> (uc \<ge> 0x388 \<and> uc \<le> 0x38a) \<or> uc = 0x38c \<or> uc = 0x38e \<or> uc = 0x38f \<or>
           (uc \<ge> 0x391 \<and> uc \<le> 0x3ab \<and> uc \<noteq> 0x3a2) \<or> uc = 0x3cf \<or> (uc \<ge> 0x3d2 \<and> uc \<le> 0x3d4) \<or>
           uc = 0x3f4 \<or> uc = 0x3f7 \<or> uc = 0x3f9 \<or> uc = 0x3fa \<or> (uc \<ge> 0x3fd \<and> uc \<le> 0x3ff) \<or>
           (uc \<ge> 0x400 \<and> uc \<le> 0x42f) \<or> uc = 0x4c0 \<or> (uc \<ge> 0x531 \<and> uc \<le> 0x556) \<or> uc = 0x1e9e \<or>
           (uc \<ge> 0xff21 \<and> uc \<le> 0xff3a))"

function refusal_loop :: "cstring \<Rightarrow> cstring option" where
  "refusal_loop host =
     (if host = [] then None
      else (case hts_readUTF8 host of
              (n, uc) \<Rightarrow>
                if n = 0 then Some ''the host is not valid UTF-8''
                else if cookie_is_capital (the uc) then Some ''write the host in lowercase''
                else refusal_loop (drop n host)))"
  by pat_completeness auto
termination by (relation "measure length") auto

declare refusal_loop.simps [simp del]

definition cookie_host_refusal :: "cstring \<Rightarrow> cstring option" where
  "cookie_host_refusal host =
     (if \<not> hts_isStringUTF8 host then Some ''the host is not valid UTF-8'' else refusal_loop host)"

text \<open>Where the host ends, and whether it is a bracketed literal.\<close>

definition cookie_host_part :: "cstring \<Rightarrow> cstring \<times> bool" where
  "cookie_host_part addr =
     (let host = jump_identification addr in
      if cbyte host 0 = CHR ''['' then (takeWhile (\<lambda>c. c \<noteq> CHR '']'') (tl host), True)
      else
        (case strchr host CHR '':'' of
           None \<Rightarrow> (host, False)
         | Some port \<Rightarrow>
             if CHR '':'' \<in> set (tl port) then (host, False) else (take (length host - length port) host, False)))"

definition cookie_zone :: "cstring \<Rightarrow> cstring" where
  "cookie_zone dst =
     (case strchr dst CHR ''%'' of
        None \<Rightarrow> dst
      | Some zone \<Rightarrow>
          if cbyte zone 1 = CHR ''2'' \<and> cbyte zone 2 = CHR ''5''
          then take (length dst - length zone) dst @ CHR ''%'' # drop 3 zone else dst)"

definition cookie_host :: "cookie_env \<Rightarrow> cstring \<Rightarrow> nat \<Rightarrow> cstring option" where
  "cookie_host env addr dst_size =
     (case cookie_host_part addr of
        (host, literal) \<Rightarrow>
          if length host = 0 \<or> length host \<ge> dst_size then None
          else
            let dst = hts_lowcase host in
            case (if hts_isStringAscii dst then Some dst
                  else if cookie_host_refusal dst \<noteq> None then None
                  else (case idna env dst of None \<Rightarrow> None | Some d \<Rightarrow> if length d < dst_size then Some d else None)) of
              None \<Rightarrow> None
            | Some dst \<Rightarrow> Some (if literal then cookie_zone dst else dst))"

section \<open>Records\<close>

definition cookie_nextfield :: "cstring \<Rightarrow> cstring" where
  "cookie_nextfield a = (case strchr a LF of None \<Rightarrow> [] | Some r \<Rightarrow> dropWhile (\<lambda>c. c = LF) (tl r))"

definition cookie_get :: "cstring \<Rightarrow> nat \<Rightarrow> cstring" where
  "cookie_get cookie_base param =
     (let line = takeWhile (\<lambda>c. c \<noteq> LF) (dropWhile (\<lambda>c. c = LF) cookie_base); fields = hts_spans TAB line
      in if param < length fields then fields ! param else [])"

lemma cookie_nextfield_shorter: "a \<noteq> [] \<Longrightarrow> length (cookie_nextfield a) < length a"
proof -
  assume "a \<noteq> []"
  have "length (dropWhile (\<lambda>c. c = LF) (tl r)) < length a" if "strchr a LF = Some r" for r
  proof -
    have "r = dropWhile (\<lambda>c. c \<noteq> LF) a" "r \<noteq> []" using that by (auto simp: strchr_def split: list.splits)
    then have "length r \<le> length a" "length (tl r) < length r" by (auto simp: length_dropWhile_le)
    then show ?thesis using length_dropWhile_le[of "\<lambda>c. c = LF" "tl r"] by simp
  qed
  then show ?thesis using \<open>a \<noteq> []\<close> by (auto simp: cookie_nextfield_def split: option.splits)
qed

text \<open>The walk over the records of a jar.\<close>

function cookie_records :: "cstring \<Rightarrow> cstring list" where
  "cookie_records a = (if a = [] then [] else a # cookie_records (cookie_nextfield a))"
  by pat_completeness auto
termination by (relation "measure length") (auto simp: cookie_nextfield_shorter)

declare cookie_records.simps [simp del]

definition strcmpnocase_eq :: "cstring \<Rightarrow> cstring \<Rightarrow> bool" where
  "strcmpnocase_eq a b \<longleftrightarrow> map hichar a = map hichar b"

definition cookie_is_host_only :: "cstring \<Rightarrow> bool" where
  "cookie_is_host_only r \<longleftrightarrow> \<not> strcmpnocase_eq (cookie_get r 1) ''TRUE''"

definition cookie_is_secure :: "cstring \<Rightarrow> bool" where
  "cookie_is_secure r \<longleftrightarrow> \<not> strcmpnocase_eq (cookie_get r 3) ''FALSE''"

definition skip_dot :: "cstring \<Rightarrow> cstring" where
  "skip_dot a = (if cbyte a 0 = CHR ''.'' then tl a else a)"

definition cookie_same_domain :: "cstring \<Rightarrow> cstring \<Rightarrow> bool" where
  "cookie_same_domain a b \<longleftrightarrow> strcmpnocase_eq (skip_dot a) (skip_dot b)"

definition cookie_is_self :: "cstring \<Rightarrow> cstring \<Rightarrow> cstring \<Rightarrow> cstring \<Rightarrow> bool" where
  "cookie_is_self a domain cook_name path \<longleftrightarrow>
     cookie_get a 5 = cook_name \<and> cookie_same_domain (cookie_get a 0) domain \<and> cookie_get a 2 = path"

definition cookie_find_exact :: "cstring \<Rightarrow> cstring \<Rightarrow> cstring \<Rightarrow> cstring \<Rightarrow> cstring option" where
  "cookie_find_exact s cook_name domain path =
     find (\<lambda>a. cookie_is_self a domain cook_name path) (cookie_records s)"

definition cookie_path_covers :: "cstring \<Rightarrow> cstring \<Rightarrow> bool" where
  "cookie_path_covers chk_path path \<longleftrightarrow>
     (let n = length chk_path in
      n \<le> length path \<and> take n path = chk_path \<and>
      (n = 0 \<or> cbyte chk_path (n - 1) = CHR ''/'' \<or> cbyte path n = NUL \<or> cbyte path n = CHR ''/'' \<or>
       cbyte path n = CHR ''?''))"

definition cookie_domain_match :: "cstring \<Rightarrow> cstring \<Rightarrow> bool" where
  "cookie_domain_match jar_dom host =
     (let jar_dom = skip_dot jar_dom; dom_len = length jar_dom; host_len = length host in
      if dom_len = 0 \<or> dom_len > host_len then False
      else if \<not> strcmpnocase_eq jar_dom (drop (host_len - dom_len) host) then False
      else if dom_len = host_len then True
      else if cbyte host (host_len - dom_len - 1) \<noteq> CHR ''.'' then False
      else if hts_host_is_address host then False
      else True)"

definition cookie_domain_is_suffix :: "cookie_env \<Rightarrow> cstring \<Rightarrow> bool" where
  "cookie_domain_is_suffix env domain =
     (let domain = skip_dot domain;
          dom = (if domain \<noteq> [] \<and> last domain = CHR ''.'' then butlast domain else domain)
      in if length dom = 0 \<or> psl env = None \<or> hts_host_is_address dom then False
         else if length dom \<ge> COOKIE_MAX_DOMAIN then False
         else hts_psl_registrable_domain (idna env) (psl env) (hts_lowcase dom) = None)"

definition cookie_domain_allowed :: "cookie_env \<Rightarrow> cstring \<Rightarrow> cstring \<Rightarrow> bool" where
  "cookie_domain_allowed env domain host =
     (let domain = skip_dot domain in
      if domain = [] \<or> length domain \<ge> COOKIE_MAX_DOMAIN then False
      else
        let dom = hts_lowcase domain in
        if dom = host then True
        else if \<not> cookie_domain_match dom host then False
        else \<not> cookie_domain_is_suffix env dom)"

section \<open>Expiry\<close>

definition COOKIE_MAX_LIFE :: int where "COOKIE_MAX_LIFE = 400 * 24 * 3600"
definition INT64_MAX :: int where "INT64_MAX = 9223372036854775807"

definition cookie_bound_expiry :: "int \<Rightarrow> int \<Rightarrow> int" where
  "cookie_bound_expiry t now =
     (if t > now + COOKIE_MAX_LIFE then now + COOKIE_MAX_LIFE else if t < 1 then 1 else t)"

text \<open>The decimal value, read while it is at most \<open>lim\<close>.\<close>

fun sat_digits :: "int \<Rightarrow> int \<Rightarrow> cstring \<Rightarrow> int" where
  "sat_digits lim v [] = v"
| "sat_digits lim v (c # cs) = (if v \<le> lim then sat_digits lim (v * 10 + int (digit_val c)) cs else v)"

definition cookie_is_number :: "cstring \<Rightarrow> bool" where
  "cookie_is_number s \<longleftrightarrow> s \<noteq> [] \<and> list_all isdigit s"

definition cookie_is_expiry :: "cstring \<Rightarrow> bool" where
  "cookie_is_expiry s \<longleftrightarrow> cookie_is_number s \<or> s = []"

definition cookie_max_age_time :: "cstring \<Rightarrow> int \<Rightarrow> int option" where
  "cookie_max_age_time v now =
     (let negative = (cbyte v 0 = CHR ''-''); digits = (if negative then tl v else v) in
      if \<not> cookie_is_number digits then None
      else
        let delta = sat_digits COOKIE_MAX_LIFE 0 digits in
        Some (if negative \<or> delta = 0 then 1 else cookie_bound_expiry (now + delta) now))"

definition cookie_expires_time :: "cstring \<Rightarrow> int \<Rightarrow> int option" where
  "cookie_expires_time v now =
     (case convert_time_rfc822_pivot v 69 of
        None \<Rightarrow> None
      | Some t \<Rightarrow> Some (cookie_bound_expiry (hts_utc_seconds t) now))"

definition cookie_record_expiry :: "cstring \<Rightarrow> int" where
  "cookie_record_expiry r =
     (let field = cookie_get r 4 in
      if \<not> cookie_is_number field then 0 else sat_digits (INT64_MAX div 10 - 9 - 1) 0 field)"

definition cookie_sendable :: "cstring \<Rightarrow> bool \<Rightarrow> int \<Rightarrow> bool" where
  "cookie_sendable r https now =
     (let e = cookie_record_expiry r in
      if e \<noteq> 0 \<and> e \<le> now then False else https \<or> \<not> cookie_is_secure r)"

section \<open>Making room\<close>

definition COOKIE_HOST_MAX_COUNT :: nat where "COOKIE_HOST_MAX_COUNT = 50"
definition COOKIE_HOST_MAX_BYTES :: nat where "COOKIE_HOST_MAX_BYTES = 8192"

definition rec_length :: "cstring \<Rightarrow> nat" where
  "rec_length r = length r - length (cookie_nextfield r)"

definition cookie_used :: "cstring \<Rightarrow> cstring option \<Rightarrow> nat" where
  "cookie_used s old = length s - (case old of None \<Rightarrow> 0 | Some r \<Rightarrow> rec_length r)"

definition cookie_fits :: "cstring \<Rightarrow> nat \<Rightarrow> cstring \<Rightarrow> cstring \<Rightarrow> cstring \<Rightarrow> nat \<Rightarrow> bool" where
  "cookie_fits s mx domain cook_name path need \<longleftrightarrow>
     need \<le> mx \<and> cookie_used s (cookie_find_exact s cook_name domain path) \<le> mx - need"

definition cookie_over_share :: "nat \<Rightarrow> nat \<Rightarrow> bool" where
  "cookie_over_share count bytes \<longleftrightarrow> count > COOKIE_HOST_MAX_COUNT \<or> bytes > COOKIE_HOST_MAX_BYTES"

record cookie_rec =
  clen :: nat
  plen :: nat
  cpos :: nat
  chost :: nat

record cookie_host_tally =
  tdom :: cstring
  tcount :: nat
  tbytes :: nat
  tcur :: nat
  tend :: nat

definition tally_over :: "cookie_host_tally \<Rightarrow> bool" where
  "tally_over h = cookie_over_share (tcount h) (tbytes h)"

text \<open>\<open>size_t\<close> has 64 bits and \<open>char\<close> is signed.\<close>

definition signed_byte :: "char \<Rightarrow> nat" where
  "signed_byte c = (if ord c \<ge> 128 then 2 ^ 64 - 256 + ord c else ord c)"

definition cookie_domain_hash :: "cstring \<Rightarrow> nat" where
  "cookie_domain_hash d = foldl (\<lambda>h c. (h * 33 + signed_byte (hichar c)) mod 2 ^ 64) 5381 (skip_dot d)"

definition rec_cmp :: "cookie_rec \<Rightarrow> cookie_rec \<Rightarrow> int" where
  "rec_cmp a b =
     (if chost a \<noteq> chost b then (if chost a < chost b then -1 else 1)
      else if plen a \<noteq> plen b then (if plen a < plen b then -1 else 1)
      else if cpos a < cpos b then -1 else if cpos a > cpos b then 1 else 0)"

function table_size :: "nat \<Rightarrow> nat \<Rightarrow> nat" where
  "table_size n msk = (if 0 < msk \<and> msk < 2 * (n + 1) then table_size n (msk * 2) else msk)"
  by pat_completeness auto
termination by (relation "measure (\<lambda>(n, msk). 2 * (n + 1) - msk)") auto

declare table_size.simps [simp del]

text \<open>
  The slot of a domain in the open-addressing table of host numbers, 0 for an empty slot; a full turn
  ends the search, which the source does not need since the table always has an empty slot.
\<close>

fun probe :: "nat \<Rightarrow> nat list \<Rightarrow> cookie_host_tally list \<Rightarrow> cstring \<Rightarrow> nat \<Rightarrow> nat" where
  "probe 0 table hosts d h = h"
| "probe (Suc n) table hosts d h =
     (if table ! h \<noteq> 0 \<and> \<not> cookie_same_domain (tdom (hosts ! (table ! h - 1))) d
      then probe n table hosts d ((h + 1) mod length table) else h)"

record room_state =
  rhosts :: "cookie_host_tally list"
  rtable :: "nat list"
  rrecs :: "cookie_rec list"
  rself :: "(nat \<times> nat) option"

definition room_init :: "nat \<Rightarrow> cstring \<Rightarrow> nat \<Rightarrow> room_state" where
  "room_init n domain rec_len =
     (let msk = table_size n 1 in
      \<lparr>rhosts = [\<lparr>tdom = domain, tcount = 1, tbytes = rec_len, tcur = 0, tend = 0\<rparr>],
       rtable = (replicate msk 0)[cookie_domain_hash domain mod msk := 1], rrecs = [], rself = None\<rparr>)"

definition room_tally :: "cstring \<Rightarrow> cstring \<Rightarrow> cstring \<Rightarrow> room_state \<Rightarrow> cstring \<Rightarrow> room_state" where
  "room_tally domain cook_name path st a =
     (let d = cookie_get a 0; msk = length (rtable st); i = length (rrecs st);
          h = probe msk (rtable st) (rhosts st) d (cookie_domain_hash d mod msk);
          (hosts, table) =
            (if rtable st ! h = 0
             then (rhosts st @ [\<lparr>tdom = d, tcount = 0, tbytes = 0, tcur = 0, tend = 0\<rparr>],
                   (rtable st)[h := Suc (length (rhosts st))])
             else (rhosts st, rtable st));
          host = table ! h - 1; ln = rec_length a
      in \<lparr>rhosts = hosts[host := (hosts ! host)\<lparr>tcount := tcount (hosts ! host) + 1, tbytes := tbytes (hosts ! host) + ln\<rparr>],
          rtable = table,
          rrecs = rrecs st @ [\<lparr>clen = ln, plen = length (cookie_get a 2), cpos = i, chost = host\<rparr>],
          rself = (if host = 0 \<and> rself st = None \<and> cookie_is_self a domain cook_name path then Some (i, ln)
                   else rself st)\<rparr>)"

text \<open>The range of each host in the sorted records.\<close>

definition set_range :: "cookie_rec list \<Rightarrow> cookie_host_tally list \<Rightarrow> nat \<Rightarrow> cookie_host_tally list" where
  "set_range recs hosts i =
     (let k = chost (recs ! i); t = hosts ! k;
          t = (if i = 0 \<or> k \<noteq> chost (recs ! (i - 1)) then t\<lparr>tcur := i\<rparr> else t)
      in hosts[k := t\<lparr>tend := i + 1\<rparr>])"

definition best_host :: "cookie_host_tally list \<Rightarrow> nat list \<Rightarrow> nat option" where
  "best_host hosts over =
     foldl (\<lambda>best k. if tally_over (hosts ! k) \<and> (case best of None \<Rightarrow> True | Some b \<Rightarrow> tbytes (hosts ! k) > tbytes (hosts ! b))
                     then Some k else best) None over"

text \<open>The record being replaced is skipped.\<close>

definition skip_self :: "cookie_rec list \<Rightarrow> nat option \<Rightarrow> cookie_host_tally \<Rightarrow> cookie_host_tally" where
  "skip_self recs self h =
     (if tcur h < tend h \<and> Some (cpos (recs ! tcur h)) = self then h\<lparr>tcur := tcur h + 1\<rparr> else h)"

lemma best_host_over: "best_host hosts over = Some k \<Longrightarrow> tally_over (hosts ! k) \<and> k \<in> set over"
proof -
  have "foldl (\<lambda>best k. if tally_over (hosts ! k) \<and> (case best of None \<Rightarrow> True | Some b \<Rightarrow> tbytes (hosts ! k) > tbytes (hosts ! b))
          then Some k else best) b over = Some k \<Longrightarrow> (\<forall>j. b = Some j \<longrightarrow> tally_over (hosts ! j)) \<Longrightarrow>
        tally_over (hosts ! k) \<and> (k \<in> set over \<or> b = Some k)" for b
    by (induction over arbitrary: b) (force split: if_splits)+
  from this[of None] show "best_host hosts over = Some k \<Longrightarrow> ?thesis" by (simp add: best_host_def)
qed

definition tally_left :: "cookie_host_tally \<Rightarrow> nat" where
  "tally_left h = (tend h - tcur h) + (if tally_over h then 1 else 0)"

lemma sum_update_less: "k < length xs \<Longrightarrow> f x < f (xs ! k) \<Longrightarrow> sum_list (map f (xs[k := x])) < sum_list (map f xs)" for f :: "'a \<Rightarrow> nat"
  by (induction xs arbitrary: k) (auto simp: nth_Cons split: nat.splits)

lemma skip_self_left: "tcount (skip_self recs self h) = tcount h" "tbytes (skip_self recs self h) = tbytes h"
  "tend (skip_self recs self h) = tend h" "tcur h \<le> tcur (skip_self recs self h)"
  by (simp_all add: skip_self_def)

text \<open>The positions to evict, \<open>None\<close> when no host is over its share.\<close>

function evict_loop :: "cookie_rec list \<Rightarrow> nat list \<Rightarrow> nat option \<Rightarrow> nat \<Rightarrow> cookie_host_tally list \<Rightarrow> nat \<Rightarrow> nat list \<Rightarrow>
    nat list option" where
  "evict_loop recs over self room hosts used out =
     (if used \<le> room then Some out
      else
        case best_host hosts over of
          None \<Rightarrow> None
        | Some k \<Rightarrow>
            if k \<ge> length hosts then None
            else
              let h = skip_self recs self (hosts ! k) in
              if tcur h \<ge> tend h then evict_loop recs over self room (hosts[k := h\<lparr>tcount := 0, tbytes := 0\<rparr>]) used out
              else
                let v = recs ! tcur h in
                evict_loop recs over self room
                  (hosts[k := h\<lparr>tcount := tcount h - 1, tbytes := tbytes h - clen v, tcur := tcur h + 1\<rparr>])
                  (used - clen v) (cpos v # out))"
  by pat_completeness auto

termination
proof (relation "measure (\<lambda>(recs, over, self, room, hosts, used, out). sum_list (map tally_left hosts))")
  fix recs over self room hosts k h and used :: nat and out :: "nat list"
  assume *: "best_host hosts over = Some k" "\<not> k \<ge> length hosts" "h = skip_self recs self (hosts ! k)"
  have over: "tally_over (hosts ! k)" using best_host_over[OF *(1)] by simp
  have step: "tally_left x < tally_left (hosts ! k) \<Longrightarrow> ((recs, over, self, room, hosts[k := x], u, o' :: nat list), recs, over, self, room, hosts, used, out)
      \<in> measure (\<lambda>(recs, over, self, room, hosts, used, out). sum_list (map tally_left hosts))" for x u o'
    using sum_update_less[of k hosts tally_left x] *(2) by simp
  note keep = skip_self_left[where recs = recs and self = self and h = "hosts ! k", folded *(3)]
  {
    assume "tcur h \<ge> tend h"
    show "((recs, over, self, room, hosts[k := h\<lparr>tcount := 0, tbytes := 0\<rparr>], used, out), recs, over, self, room, hosts, used, out)
      \<in> measure (\<lambda>(recs, over, self, room, hosts, used, out). sum_list (map tally_left hosts))"
      by (rule step) (use over keep in \<open>simp add: tally_left_def tally_over_def cookie_over_share_def\<close>)
  next
    fix v assume "\<not> tcur h \<ge> tend h"
    show "((recs, over, self, room, hosts[k := h\<lparr>tcount := tcount h - 1, tbytes := tbytes h - clen v, tcur := tcur h + 1\<rparr>],
        used - clen v, cpos v # out), recs, over, self, room, hosts, used, out)
      \<in> measure (\<lambda>(recs, over, self, room, hosts, used, out). sum_list (map tally_left hosts))"
      by (rule step) (use over keep \<open>\<not> tcur h \<ge> tend h\<close> in \<open>auto simp: tally_left_def\<close>)
  }
qed simp

declare evict_loop.simps [simp del]

text \<open>The new jar, or \<open>None\<close> when the jar stays as it is; \<open>calloc_ok\<close> is the outcome of the allocations.\<close>

definition cookie_make_room :: "bool \<Rightarrow> cstring \<Rightarrow> nat \<Rightarrow> cstring \<Rightarrow> cstring \<Rightarrow> cstring \<Rightarrow> nat \<Rightarrow> cstring option" where
  "cookie_make_room calloc_ok s mx domain cook_name path need =
     (if need > mx \<or> \<not> calloc_ok then None
      else
        let rec_len = need - COOKIE_HEADROOM; rs = cookie_records s; n = length rs;
            st = foldl (room_tally domain cook_name path) (room_init n domain rec_len) rs;
            self_len = (case rself st of None \<Rightarrow> 0 | Some (i, l) \<Rightarrow> l);
            used = length s - self_len;
            over = filter (\<lambda>i. tally_over (rhosts st ! i)) [0..<length (rhosts st)];
            freeable = sum_list (map (\<lambda>i. tbytes (rhosts st ! i) - (if i = 0 then rec_len + self_len else 0)) over)
        in
        if used > mx - need + freeable then None
        else
          let recs = qsort_cmp rec_cmp (rrecs st);
              hosts = foldl (set_range recs) (rhosts st) [0..<n]
          in
          case evict_loop recs over (map_option fst (rself st)) (mx - need) hosts used [] of
            None \<Rightarrow> None
          | Some out \<Rightarrow>
              Some (concat (map (\<lambda>i. if i \<in> set out then [] else take (rec_length (rs ! i)) (rs ! i)) [0..<n])))"

section \<open>Storing and finding\<close>

definition cookie_insert :: "cstring \<Rightarrow> cstring \<Rightarrow> cstring" where
  "cookie_insert s ins = ins @ s"

definition cookie_delete :: "cstring \<Rightarrow> nat \<Rightarrow> cstring" where
  "cookie_delete s pos = drop pos s"

text \<open>\<open>%lld\<close> of the C library.\<close>

function dec_nat :: "nat \<Rightarrow> cstring" where
  "dec_nat n = (if n < 10 then [chr (48 + n)] else dec_nat (n div 10) @ [chr (48 + n mod 10)])"
  by pat_completeness auto
termination by (relation "measure id") auto

declare dec_nat.simps [simp del]

definition dec_int :: "int \<Rightarrow> cstring" where
  "dec_int i = (if i < 0 then CHR ''-'' # dec_nat (nat (- i)) else dec_nat (nat i))"

definition c_bool :: "bool \<Rightarrow> cstring" where
  "c_bool b = (if b then ''TRUE'' else ''FALSE'')"

definition cookie_line :: "cstring \<Rightarrow> bool \<Rightarrow> cstring \<Rightarrow> cookie_attr \<Rightarrow> cstring \<Rightarrow> cstring \<Rightarrow> cstring" where
  "cookie_line domain ho path attr cook_name cook_value =
     domain @ [TAB] @ c_bool (\<not> ho) @ [TAB] @ path @ [TAB] @ c_bool (secure attr) @ [TAB] @
     dec_int (expires attr) @ [TAB] @ cook_name @ [TAB] @ cook_value @
     (if http_only attr then TAB # COOKIE_HTTPONLY_FIELD else []) @ [LF]"

text \<open>What follows the records whose path is at least \<open>n\<close> bytes long.\<close>

function insert_point :: "nat \<Rightarrow> cstring \<Rightarrow> cstring" where
  "insert_point n a =
     (if a = [] then a else if length (cookie_get a 2) < n then a else insert_point n (cookie_nextfield a))"
  by pat_completeness auto
termination by (relation "measure (\<lambda>(n, a). length a)") (auto simp: cookie_nextfield_shorter)

declare insert_point.simps [simp del]

definition forged :: "cstring \<Rightarrow> bool" where
  "forged s \<longleftrightarrow> list_ex (\<lambda>c. c = TAB \<or> c = CR \<or> c = LF) s"

text \<open>Once there is room: the jar, and whether the cookie was stored.\<close>

definition cookie_store :: "t_cookie \<Rightarrow> cstring \<Rightarrow> bool \<Rightarrow> cstring \<Rightarrow> cookie_attr \<Rightarrow> cstring \<Rightarrow> cstring \<Rightarrow> nat \<Rightarrow>
    t_cookie \<times> bool" where
  "cookie_store jar host ho path attr cook_name cook_value need =
     (let old = cookie_find_exact (jar_data jar) cook_name host path;
          used = cookie_used (jar_data jar) old
      in
      if need > max_len jar \<or> used > max_len jar - need then (jar, False)
      else
        let cook = cookie_line host ho path attr cook_name cook_value in
        if used \<ge> max_len jar \<or> length cook \<ge> max_len jar - used then (jar, False)
        else
          let s = jar_data jar;
              s = (case old of
                     None \<Rightarrow> s
                   | Some r \<Rightarrow> take (length s - length r) s @ cookie_delete r (rec_length r));
              p = insert_point (length path) s
          in (jar\<lparr>jar_data := take (length s - length p) s @ cookie_insert p cook\<rparr>, True))"

definition cookie_set_impl :: "cookie_env \<Rightarrow> bool \<Rightarrow> t_cookie \<Rightarrow> cstring \<Rightarrow> cstring \<Rightarrow> cstring \<Rightarrow> cstring \<Rightarrow>
    cookie_attr option \<Rightarrow> bool \<Rightarrow> t_cookie \<times> bool" where
  "cookie_set_impl env calloc_ok jar cook_name cook_value domain path attr cap_host =
     (let attr = (case attr of None \<Rightarrow> \<lparr>host_only = False, secure = False, http_only = False, expires = 0\<rparr> | Some a \<Rightarrow> a) in
      case cookie_host env domain COOKIE_MAX_DOMAIN of
        None \<Rightarrow> (jar, False)
      | Some host \<Rightarrow>
          if forged cook_name \<or> forged cook_value \<or> forged host \<or> forged path then (jar, False)
          else if length cook_name > COOKIE_MAX_PAIR \<or> length cook_value > COOKIE_MAX_PAIR - length cook_name then (jar, False)
          else if length path > COOKIE_MAX_PATH then (jar, False)
          else
            let ho = (host_only attr \<or> cookie_domain_is_suffix env host);
                need = length cook_value + length cook_name + length host + length path + COOKIE_HEADROOM;
                jar =
                  (if cap_host \<and> \<not> cookie_fits (jar_data jar) (max_len jar) host cook_name path need
                   then (case cookie_make_room calloc_ok (jar_data jar) (max_len jar) host cook_name path need of
                           None \<Rightarrow> jar | Some s \<Rightarrow> jar\<lparr>jar_data := s\<rparr>)
                   else jar)
            in cookie_store jar host ho path attr cook_name cook_value need)"

definition cookie_set :: "cookie_env \<Rightarrow> t_cookie \<Rightarrow> cstring \<Rightarrow> cstring \<Rightarrow> cstring \<Rightarrow> cstring \<Rightarrow> cookie_attr option \<Rightarrow>
    t_cookie \<times> bool" where
  "cookie_set env jar cook_name cook_value domain path attr =
     cookie_set_impl env True jar cook_name cook_value domain path attr False"

definition cookie_set_capped :: "cookie_env \<Rightarrow> bool \<Rightarrow> t_cookie \<Rightarrow> cstring \<Rightarrow> cstring \<Rightarrow> cstring \<Rightarrow> cstring \<Rightarrow>
    cookie_attr option \<Rightarrow> t_cookie \<times> bool" where
  "cookie_set_capped env calloc_ok jar cook_name cook_value domain path attr =
     cookie_set_impl env calloc_ok jar cook_name cook_value domain path attr True"

definition cookie_add :: "cookie_env \<Rightarrow> t_cookie \<Rightarrow> cstring \<Rightarrow> cstring \<Rightarrow> cstring \<Rightarrow> cstring \<Rightarrow> t_cookie \<times> bool" where
  "cookie_add env jar cook_name cook_value domain path = cookie_set env jar cook_name cook_value domain path None"

definition cookie_remove :: "cookie_env \<Rightarrow> t_cookie \<Rightarrow> cstring \<Rightarrow> cstring \<Rightarrow> cstring \<Rightarrow> t_cookie" where
  "cookie_remove env jar cook_name domain path =
     (case cookie_host env domain COOKIE_MAX_DOMAIN of
        None \<Rightarrow> jar
      | Some host \<Rightarrow>
          (case cookie_find_exact (jar_data jar) cook_name host path of
             None \<Rightarrow> jar
           | Some b \<Rightarrow>
               (let s = jar_data jar in
                jar\<lparr>jar_data := take (length s - length b) s @ cookie_delete b (rec_length b)\<rparr>)))"

definition cookie_is_secure_record :: "cookie_env \<Rightarrow> t_cookie \<Rightarrow> cstring \<Rightarrow> cstring \<Rightarrow> cstring \<Rightarrow> bool" where
  "cookie_is_secure_record env jar cook_name domain path =
     (case cookie_host env domain COOKIE_MAX_DOMAIN of
        None \<Rightarrow> False
      | Some host \<Rightarrow>
          (let new_dom = skip_dot host in
           list_ex (\<lambda>r. cookie_get r 5 = cook_name \<and> cookie_is_secure r \<and>
             (cookie_domain_match (cookie_get r 0) new_dom \<or> cookie_domain_match new_dom (cookie_get r 0)) \<and>
             cookie_path_covers (cookie_get r 2) path) (cookie_records (jar_data jar))))"

definition cookie_find :: "cstring \<Rightarrow> cstring \<Rightarrow> cstring \<Rightarrow> cstring \<Rightarrow> cstring option" where
  "cookie_find s cook_name domain path =
     find (\<lambda>a. (cook_name = [] \<or> cookie_get a 5 = cook_name) \<and>
       (let chk_dom = cookie_get a 0 in
        cookie_domain_match chk_dom domain \<and> (\<not> cookie_is_host_only a \<or> cookie_same_domain chk_dom domain) \<and>
        cookie_path_covers (cookie_get a 2) path)) (cookie_records s)"

section \<open>Basic authentication\<close>

definition bauth_prefix :: "cstring \<Rightarrow> cstring \<Rightarrow> cstring option" where
  "bauth_prefix addr fl =
     (let sz = HTS_URLMAXSIZE * 2; host = jump_identification addr;
          scheme = (if strfield addr ''https://'' \<noteq> 0 then ''https://'' else ''http://'');
          used = length scheme + length host
      in if used \<ge> sz \<or> length fl \<ge> sz - used then None
         else
           let p = takeWhile (\<lambda>c. c \<noteq> CHR ''?'') (scheme @ host @ fl) in
           Some (if CHR ''/'' \<in> set p then rev (dropWhile (\<lambda>c. c \<noteq> CHR ''/'') (rev p)) else p))"

definition bauth_find :: "bauth_chain list \<Rightarrow> cstring \<Rightarrow> cstring option" where
  "bauth_find chain k =
     map_option bauth (find (\<lambda>b. bprefix b \<noteq> [] \<and> take (length (bprefix b)) k = bprefix b) chain)"

definition BAUTH_SIZE :: nat where "BAUTH_SIZE = 1024"

definition bauth_add :: "t_cookie option \<Rightarrow> cstring \<Rightarrow> cstring \<Rightarrow> cstring \<Rightarrow> t_cookie option \<times> bool" where
  "bauth_add cookie addr fl a =
     (case cookie of
        None \<Rightarrow> (None, False)
      | Some jar \<Rightarrow>
          (case bauth_prefix addr fl of
             None \<Rightarrow> (Some jar, False)
           | Some p \<Rightarrow>
               if bauth_find (auth jar) p \<noteq> None then (Some jar, False)
               else if length p \<ge> BAUTH_SIZE \<or> length a \<ge> BAUTH_SIZE then (Some jar, False)
               else (Some (jar\<lparr>auth := auth jar @ [\<lparr>bprefix = p, bauth = a\<rparr>]\<rparr>), True)))"

definition bauth_free :: "t_cookie option \<Rightarrow> t_cookie option" where
  "bauth_free cookie = map_option (\<lambda>jar. jar\<lparr>auth := []\<rparr>) cookie"

definition bauth_check :: "t_cookie option \<Rightarrow> cstring \<Rightarrow> cstring \<Rightarrow> cstring option" where
  "bauth_check cookie addr fl =
     (case cookie of
        None \<Rightarrow> None
      | Some jar \<Rightarrow>
          (case bauth_prefix addr fl of
             None \<Rightarrow> None
           | Some p \<Rightarrow>
               (case bauth_find (auth jar) p of
                  Some a \<Rightarrow> Some a
                | None \<Rightarrow>
                    if strfield addr ''https://'' \<noteq> 0 then
                      (case bauth_prefix (drop 8 addr) fl of None \<Rightarrow> None | Some p \<Rightarrow> bauth_find (auth jar) p)
                    else None)))"

end
