(* ===== verification/CookieClaims.thy ===== *)
theory CookieClaims
  imports Cookies
begin

text \<open>
  The jar as a list of lines.  The invariant says that the records are whole lines below the size of
  the field buffers, longest path first, no two with the same name, domain and path, and that the jar
  fits its room; \<open>cookie_set\<close> puts one line in place of the record it replaces, and every sequence of
  operations keeps the invariant.  Lookups decide the domain and path matching of RFC 6265.
\<close>

section \<open>Fields of a line\<close>

fun line_field :: "cstring \<Rightarrow> nat \<Rightarrow> cstring" where
  "line_field s 0 = takeWhile (\<lambda>c. c \<noteq> TAB) s"
| "line_field s (Suc n) = line_field (drop 1 (dropWhile (\<lambda>c. c \<noteq> TAB) s)) n"

lemma line_field_Nil [simp]: "line_field [] n = []"
  by (induction n) auto

lemma hts_spans_Nil [simp]: "hts_spans sep [] = []"
  by (simp add: hts_spans.simps hts_span_next_def)

lemma spans_field: "line_field s n = (if n < length (hts_spans TAB s) then hts_spans TAB s ! n else [])"
proof (induction n arbitrary: s)
  case 0
  show ?case by (cases "s = []") (simp_all add: hts_spans.simps[of TAB s] hts_span_next_def)
next
  case (Suc n)
  show ?case by (cases "s = []") (simp_all add: Suc hts_spans.simps[of TAB s] hts_span_next_def)
qed

lemma cookie_get_line: "l \<noteq> [] \<Longrightarrow> LF \<notin> set l \<Longrightarrow> cookie_get (l @ LF # s) n = line_field l n"
proof -
  assume l: "l \<noteq> []" "LF \<notin> set l"
  then have "dropWhile (\<lambda>c. c = LF) (l @ LF # s) = l @ LF # s" by (cases l) auto
  then show ?thesis using l by (simp add: cookie_get_def spans_field Let_def takeWhile_free)
qed

fun tab_join :: "cstring list \<Rightarrow> cstring" where
  "tab_join [] = []"
| "tab_join [f] = f"
| "tab_join (f # g # fs) = f @ TAB # tab_join (g # fs)"

lemma line_field_join:
  "n < length fs \<Longrightarrow> \<forall>f \<in> set fs. TAB \<notin> set f \<Longrightarrow> line_field (tab_join fs) n = fs ! n"
proof (induction fs arbitrary: n rule: tab_join.induct)
  case (2 f)
  then have "takeWhile (\<lambda>c. c \<noteq> TAB) f = f" by (induction f) auto
  with 2 show ?case by simp
next
  case (3 f g fs)
  then have f: "takeWhile (\<lambda>c. c \<noteq> TAB) (f @ TAB # t) = f" "dropWhile (\<lambda>c. c \<noteq> TAB) (f @ TAB # t) = TAB # t" for t
    by (induction f) auto
  show ?case
  proof (cases n)
    case 0
    then show ?thesis using f by simp
  next
    case (Suc m)
    then show ?thesis using 3 f by simp
  qed
qed simp

section \<open>The jar as a list of lines\<close>

definition line_ok :: "cstring \<Rightarrow> bool" where
  "line_ok l \<longleftrightarrow> l \<noteq> [] \<and> LF \<notin> set l"

abbreviation jar_text :: "cstring list \<Rightarrow> cstring" where "jar_text ls \<equiv> close_segs LF ls"

lemma jar_text_head: "list_all line_ok ls \<Longrightarrow> dropWhile (\<lambda>c. c = LF) (jar_text ls) = jar_text ls"
  by (cases ls; cases "hd ls") (auto simp: line_ok_def)

lemma strchr_line: "LF \<notin> set l \<Longrightarrow> strchr (l @ LF # s) LF = Some (LF # s)"
  by (induction l) (auto simp: strchr_def)

lemma nextfield_line: "line_ok l \<Longrightarrow> list_all line_ok ls \<Longrightarrow> cookie_nextfield (l @ LF # jar_text ls) = jar_text ls"
  by (simp add: cookie_nextfield_def strchr_line line_ok_def jar_text_head)

lemma records_Nil [simp]: "cookie_records [] = []"
  by (simp add: cookie_records.simps)

lemma records_line:
  "line_ok l \<Longrightarrow> list_all line_ok ls \<Longrightarrow>
    cookie_records (l @ LF # jar_text ls) = (l @ LF # jar_text ls) # cookie_records (jar_text ls)"
  by (subst cookie_records.simps) (simp add: nextfield_line line_ok_def)

lemma get_line: "line_ok l \<Longrightarrow> cookie_get (l @ LF # s) n = line_field l n"
  by (simp add: cookie_get_line line_ok_def)

text \<open>Identity of a record: name, domain up to its leading dot and case, and path.\<close>

definition line_is :: "cstring \<Rightarrow> cstring \<Rightarrow> cstring \<Rightarrow> cstring \<Rightarrow> bool" where
  "line_is nm d p l \<longleftrightarrow> line_field l 5 = nm \<and> cookie_same_domain (line_field l 0) d \<and> line_field l 2 = p"

lemma find_exact_lines:
  "list_all line_ok ls \<Longrightarrow>
    cookie_find_exact (jar_text ls) nm d p =
      (case dropWhile (\<lambda>l. \<not> line_is nm d p l) ls of [] \<Rightarrow> None | l # ks \<Rightarrow> Some (jar_text (l # ks)))"
proof (induction ls)
  case (Cons l ls)
  have "cookie_is_self (l @ LF # jar_text ls) d nm p \<longleftrightarrow> line_is nm d p l"
    using Cons.prems by (simp add: cookie_is_self_def line_is_def get_line)
  then show ?case using Cons by (simp add: cookie_find_exact_def records_line)
qed (simp add: cookie_find_exact_def)

lemma insert_point_lines:
  "list_all line_ok ls \<Longrightarrow>
    insert_point n (jar_text ls) = jar_text (dropWhile (\<lambda>l. length (line_field l 2) \<ge> n) ls)"
proof (induction ls)
  case Nil
  show ?case by (simp add: insert_point.simps)
next
  case (Cons l ls)
  then show ?case by (subst insert_point.simps) (auto simp: get_line nextfield_line not_less)
qed

lemma jar_text_split: "jar_text (takeWhile P ls) @ jar_text (dropWhile P ls) = jar_text ls"
  by (metis close_segs_simps(3) takeWhile_dropWhile_id)

lemma cut_text: "take (length (jar_text ls) - length (jar_text (dropWhile P ls))) (jar_text ls) = jar_text (takeWhile P ls)"
proof -
  have "length (jar_text ls) - length (jar_text (dropWhile P ls)) = length (jar_text (takeWhile P ls))"
    unfolding jar_text_split[of P ls, symmetric] length_append by simp
  then show ?thesis by (metis append_eq_conv_conj jar_text_split)
qed

definition drop_hit :: "(cstring \<Rightarrow> bool) \<Rightarrow> cstring list \<Rightarrow> cstring list" where
  "drop_hit P ls = takeWhile (\<lambda>l. \<not> P l) ls @ tl (dropWhile (\<lambda>l. \<not> P l) ls)"

lemma drop_hit_subset: "set (drop_hit P ls) \<subseteq> set ls"
proof
  fix x assume "x \<in> set (drop_hit P ls)"
  then consider "x \<in> set (takeWhile (\<lambda>l. \<not> P l) ls)" | "x \<in> set (dropWhile (\<lambda>l. \<not> P l) ls)"
    unfolding drop_hit_def by (cases "dropWhile (\<lambda>l. \<not> P l) ls") auto
  then show "x \<in> set ls" by cases (auto dest: set_takeWhileD set_dropWhileD)
qed

lemma drop_hit_ok: "list_all Q ls \<Longrightarrow> list_all Q (drop_hit P ls)"
  using drop_hit_subset unfolding list_all_iff by blast

lemma remove_text:
  assumes "list_all line_ok ls" and "cookie_find_exact (jar_text ls) nm d p = Some r"
  shows "take (length (jar_text ls) - length r) (jar_text ls) @ cookie_delete r (rec_length r) =
      jar_text (drop_hit (line_is nm d p) ls)"
    and "length (jar_text ls) - rec_length r = length (jar_text (drop_hit (line_is nm d p) ls))"
proof -
  let ?P = "\<lambda>l. \<not> line_is nm d p l"
  obtain l ks where l: "dropWhile ?P ls = l # ks" "r = jar_text (l # ks)"
    using assms find_exact_lines[OF assms(1)] by (auto split: list.splits)
  have ok: "line_ok l" "list_all line_ok ks"
    using assms(1) set_dropWhileD[of _ ?P ls] l(1) unfolding list_all_iff by auto
  have n: "cookie_nextfield r = jar_text ks" using nextfield_line[OF ok] l(2) by simp
  have r: "r = (l @ [LF]) @ jar_text ks" using l(2) by simp
  have cut: "cookie_delete r (rec_length r) = jar_text ks"
    unfolding cookie_delete_def rec_length_def n unfolding r by simp
  show "take (length (jar_text ls) - length r) (jar_text ls) @ cookie_delete r (rec_length r) =
      jar_text (drop_hit (line_is nm d p) ls)"
    unfolding cut using cut_text[of ls ?P] l by (simp add: drop_hit_def)
  show "length (jar_text ls) - rec_length r = length (jar_text (drop_hit (line_is nm d p) ls))"
  proof -
    have "length (jar_text ls) = length (jar_text (takeWhile ?P ls)) + length r"
      unfolding jar_text_split[of ?P ls, symmetric] length_append l(1) l(2) ..
    moreover have "length (jar_text (drop_hit (line_is nm d p) ls)) = length (jar_text (takeWhile ?P ls)) + length (jar_text ks)"
      unfolding drop_hit_def l(1) list.sel(3) close_segs_simps(3) length_append ..
    moreover have "length (jar_text ks) \<le> length r" unfolding r by simp
    ultimately show ?thesis unfolding rec_length_def n by linarith
  qed
qed

lemma drop_hit_none: "cookie_find_exact (jar_text ls) nm d p = None \<Longrightarrow> list_all line_ok ls \<Longrightarrow> drop_hit (line_is nm d p) ls = ls"
  by (simp add: find_exact_lines drop_hit_def dropWhile_eq_Nil_conv[THEN iffD2] takeWhile_eq_all_conv[THEN iffD2] split: list.splits)

definition put_line :: "cstring \<Rightarrow> cstring \<Rightarrow> cstring list \<Rightarrow> cstring list" where
  "put_line path l ls =
     takeWhile (\<lambda>k. length (line_field k 2) \<ge> length path) ls @ l # dropWhile (\<lambda>k. length (line_field k 2) \<ge> length path) ls"

lemma insert_text:
  "list_all line_ok ls \<Longrightarrow>
    (let s = jar_text ls; q = insert_point (length path) s in take (length s - length q) s @ cookie_insert q (l @ [LF])) =
      jar_text (put_line path l ls)"
  by (simp add: Let_def insert_point_lines cut_text cookie_insert_def put_line_def)


section \<open>The invariant of the jar\<close>

definition same_line :: "cstring \<Rightarrow> cstring \<Rightarrow> bool" where
  "same_line a b \<longleftrightarrow> line_is (line_field a 5) (line_field a 0) (line_field a 2) b"

definition dom_key :: "cstring \<Rightarrow> cstring" where "dom_key d = map hichar (skip_dot d)"

lemma same_domain_key: "cookie_same_domain a b \<longleftrightarrow> dom_key a = dom_key b"
  by (simp add: cookie_same_domain_def strcmpnocase_eq_def dom_key_def)

lemma same_line_sym: "same_line a b \<Longrightarrow> same_line b a"
  by (auto simp: same_line_def line_is_def same_domain_key)

lemma line_is_same: "line_is nm d p a \<Longrightarrow> line_is nm d p b \<Longrightarrow> same_line a b"
  by (auto simp: same_line_def line_is_def same_domain_key)

lemma line_is_move: "same_line a b \<Longrightarrow> line_is nm d p a \<Longrightarrow> line_is nm d p b"
  by (auto simp: same_line_def line_is_def same_domain_key)

definition COOKIE_FIELD_BUFFER_SIZE :: nat where "COOKIE_FIELD_BUFFER_SIZE = 8192"

definition lines_inv :: "cstring list \<Rightarrow> bool" where
  "lines_inv ls \<longleftrightarrow> list_all line_ok ls \<and> list_all (\<lambda>l. length l < COOKIE_FIELD_BUFFER_SIZE) ls \<and>
     sorted_wrt (\<lambda>a b. length (line_field a 2) \<ge> length (line_field b 2)) ls \<and>
     sorted_wrt (\<lambda>a b. \<not> same_line a b) ls"

lemma split_hit:
  "drop_hit P ls = ls \<and> list_all (\<lambda>l. \<not> P l) ls \<or> (\<exists>pre h post. ls = pre @ h # post \<and> drop_hit P ls = pre @ post \<and> P h \<and> list_all (\<lambda>l. \<not> P l) pre)"
proof (cases "dropWhile (\<lambda>l. \<not> P l) ls")
  case Nil
  then have "\<forall>l \<in> set ls. \<not> P l" by (simp add: dropWhile_eq_Nil_conv)
  moreover have "takeWhile (\<lambda>l. \<not> P l) ls = ls" using Nil takeWhile_dropWhile_id[of "\<lambda>l. \<not> P l" ls] by simp
  ultimately show ?thesis unfolding drop_hit_def list_all_iff Nil by simp
next
  case (Cons h post)
  moreover from Cons have "P h" using hd_dropWhile[of "\<lambda>l. \<not> P l" ls] by auto
  moreover have "ls = takeWhile (\<lambda>l. \<not> P l) ls @ h # post" using Cons takeWhile_dropWhile_id[of "\<lambda>l. \<not> P l" ls] by simp
  ultimately show ?thesis using list_all_takeWhile[of "\<lambda>l. \<not> P l" ls] by (auto simp: drop_hit_def)
qed

lemma drop_hit_inv: "lines_inv ls \<Longrightarrow> lines_inv (drop_hit P ls)"
  using split_hit[of P ls] by (auto simp: lines_inv_def sorted_wrt_append)

lemma drop_hit_clear:
  assumes "sorted_wrt (\<lambda>a b. \<not> same_line a b) ls" and "k \<in> set (drop_hit (line_is nm d p) ls)"
  shows "\<not> line_is nm d p k"
  using split_hit[of "line_is nm d p" ls]
proof (elim disjE exE conjE)
  fix pre h post assume *: "ls = pre @ h # post" "drop_hit (line_is nm d p) ls = pre @ post" "line_is nm d p h"
    "list_all (\<lambda>l. \<not> line_is nm d p l) pre"
  then have "\<not> same_line h k" if "k \<in> set post" using assms(1) that by (auto simp: sorted_wrt_append)
  then show ?thesis using * assms(2) line_is_same by (auto simp: list_all_iff)
qed (use assms in \<open>auto simp: list_all_iff\<close>)

lemma sorted_wrt_put:
  assumes "sorted_wrt R ls" and "\<forall>k \<in> set ls. Q k \<longrightarrow> R k l" and "\<forall>k \<in> set ls. \<not> Q k \<longrightarrow> R l k"
    and "\<And>a b. R a b \<Longrightarrow> Q b \<Longrightarrow> Q a"
  shows "sorted_wrt R (takeWhile Q ls @ l # dropWhile Q ls)"
  using assms(1,2,3)
proof (induction ls)
  case (Cons a ls)
  have eq: "set (takeWhile Q ls @ l # dropWhile Q ls) = insert l (set ls)"
    by (metis Un_insert_right list.simps(15) set_append takeWhile_dropWhile_id)
  show ?case
  proof (cases "Q a")
    case True
    have "sorted_wrt R (takeWhile Q ls @ l # dropWhile Q ls)" using Cons by simp
    moreover have "\<forall>k \<in> set (takeWhile Q ls @ l # dropWhile Q ls). R a k" using Cons.prems True unfolding eq by simp
    ultimately show ?thesis using True by simp
  next
    case False
    have "R l k" if "k \<in> set (a # ls)" for k
      using that Cons.prems False assms(4) by (cases "Q k") auto
    then show ?thesis using False Cons.prems(1) by simp
  qed
qed simp

lemma put_line_inv:
  assumes "lines_inv ls" and "line_ok l" and "length l < COOKIE_FIELD_BUFFER_SIZE" and "line_field l 2 = path"
    and "\<forall>k \<in> set ls. \<not> same_line l k"
  shows "lines_inv (put_line path l ls)"
proof -
  let ?Q = "\<lambda>k. length (line_field k 2) \<ge> length path"
  have sub: "set (takeWhile ?Q ls @ l # dropWhile ?Q ls) = insert l (set ls)"
    by (metis Un_insert_right list.simps(15) set_append takeWhile_dropWhile_id)
  have "sorted_wrt (\<lambda>a b. length (line_field a 2) \<ge> length (line_field b 2)) (put_line path l ls)"
    unfolding put_line_def by (rule sorted_wrt_put) (use assms in \<open>auto simp: lines_inv_def\<close>)
  moreover have "sorted_wrt (\<lambda>a b. \<not> same_line a b) (put_line path l ls)"
  proof -
    have ls: "sorted_wrt (\<lambda>a b. \<not> same_line a b) (takeWhile ?Q ls @ dropWhile ?Q ls)"
      using assms(1) by (simp add: lines_inv_def)
    have "\<forall>k \<in> set ls. \<not> same_line k l" using assms(5) same_line_sym by blast
    then show ?thesis using ls assms(5)
      unfolding put_line_def sorted_wrt_append by (auto dest: set_takeWhileD set_dropWhileD)
  qed
  moreover have "list_all line_ok (put_line path l ls)" "list_all (\<lambda>l. length l < COOKIE_FIELD_BUFFER_SIZE) (put_line path l ls)"
    using assms(1-3) sub unfolding lines_inv_def put_line_def list_all_iff by auto
  ultimately show ?thesis by (simp add: lines_inv_def)
qed

section \<open>The line of a cookie\<close>

lemma dec_nat_digits: "list_all isdigit (dec_nat n)"
proof (induction n rule: dec_nat.induct)
  case (1 n)
  have d: "isdigit (chr (48 + m))" if "m < 10" for m using that by (simp add: isdigit_def)
  show ?case by (subst dec_nat.simps) (use 1 d[of n] d[of "n mod 10"] in auto)
qed

lemma dec_nat_nonempty: "dec_nat n \<noteq> []"
  by (subst dec_nat.simps) simp

lemma dec_nat_length: "n < 10 ^ k \<Longrightarrow> 0 < k \<Longrightarrow> length (dec_nat n) \<le> k"
proof (induction n arbitrary: k rule: dec_nat.induct)
  case (1 n)
  show ?case
  proof (cases "n < 10")
    case True
    then show ?thesis using 1 by (subst dec_nat.simps) simp
  next
    case False
    then obtain j where j: "k = Suc j" "0 < j" using 1(2,3) by (cases k; cases "k - 1") auto
    then have "n div 10 < 10 ^ j" using 1(2) by (simp add: less_mult_imp_div_less mult.commute)
    then have "length (dec_nat (n div 10)) \<le> j" using 1(1) False j by simp
    then show ?thesis using False j by (subst dec_nat.simps) simp
  qed
qed

definition attr_ok :: "cookie_attr \<Rightarrow> bool" where
  "attr_ok a \<longleftrightarrow> -(2 ^ 63) \<le> expires a \<and> expires a < 2 ^ 63"

lemma dec_int_chars: "c \<in> set (dec_int i) \<Longrightarrow> isdigit c \<or> c = CHR ''-''"
  using dec_nat_digits[of "nat i"] dec_nat_digits[of "nat (- i)"] by (auto simp: dec_int_def list_all_iff split: if_splits)

lemma dec_int_length: "attr_ok a \<Longrightarrow> length (dec_int (expires a)) \<le> 20"
proof -
  assume a: "attr_ok a"
  have "nat (expires a) < 10 ^ 19" "nat (- expires a) < 10 ^ 19" using a by (auto simp: attr_ok_def)
  then show ?thesis using dec_nat_length[of "nat (expires a)" 19] dec_nat_length[of "nat (- expires a)" 19]
    by (auto simp: dec_int_def)
qed

definition cookie_fields :: "cstring \<Rightarrow> bool \<Rightarrow> cstring \<Rightarrow> cookie_attr \<Rightarrow> cstring \<Rightarrow> cstring \<Rightarrow> cstring list" where
  "cookie_fields d ho p a nm v = [d, c_bool (\<not> ho), p, c_bool (secure a), dec_int (expires a), nm, v] @
     (if http_only a then [COOKIE_HTTPONLY_FIELD] else [])"

lemma cookie_line_join: "cookie_line d ho p a nm v = tab_join (cookie_fields d ho p a nm v) @ [LF]"
  by (simp add: cookie_line_def cookie_fields_def)

lemma not_forged: "\<not> forged s \<longleftrightarrow> TAB \<notin> set s \<and> CR \<notin> set s \<and> LF \<notin> set s"
  by (auto simp: forged_def list_ex_iff)

lemma dec_int_plain: "TAB \<notin> set (dec_int i)" "LF \<notin> set (dec_int i)" "dec_int i \<noteq> []"
  using dec_int_chars[of TAB i] dec_int_chars[of LF i] dec_nat_nonempty by (auto simp: isdigit_def dec_int_def)

lemma cookie_fields_plain:
  assumes "\<not> forged d" "\<not> forged p" "\<not> forged nm" "\<not> forged v"
  shows "\<forall>f \<in> set (cookie_fields d ho p a nm v). TAB \<notin> set f \<and> LF \<notin> set f"
  using assms dec_int_plain by (auto simp: cookie_fields_def not_forged c_bool_def COOKIE_HTTPONLY_FIELD_def)

lemma tab_join_LF: "\<forall>f \<in> set fs. LF \<notin> set f \<Longrightarrow> LF \<notin> set (tab_join fs)"
  by (induction fs rule: tab_join.induct) auto

lemma new_line:
  assumes "\<not> forged d" "\<not> forged p" "\<not> forged nm" "\<not> forged v" "attr_ok a"
    and "length d < COOKIE_MAX_DOMAIN" "length p \<le> COOKIE_MAX_PATH" "length nm + length v \<le> COOKIE_MAX_PAIR"
  shows "line_ok (tab_join (cookie_fields d ho p a nm v))"
    and "length (tab_join (cookie_fields d ho p a nm v)) < COOKIE_FIELD_BUFFER_SIZE"
    and "n < 7 \<Longrightarrow> line_field (tab_join (cookie_fields d ho p a nm v)) n = cookie_fields d ho p a nm v ! n"
proof -
  note plain = cookie_fields_plain[OF assms(1-4), of ho a]
  show "line_ok (tab_join (cookie_fields d ho p a nm v))"
    using tab_join_LF[of "cookie_fields d ho p a nm v"] plain by (simp add: line_ok_def cookie_fields_def)
  show "length (tab_join (cookie_fields d ho p a nm v)) < COOKIE_FIELD_BUFFER_SIZE"
    using assms(6-8) dec_int_length[OF assms(5)]
    by (simp add: cookie_fields_def COOKIE_FIELD_BUFFER_SIZE_def COOKIE_MAX_DOMAIN_def COOKIE_MAX_PATH_def COOKIE_MAX_PAIR_def
      COOKIE_HTTPONLY_FIELD_def c_bool_def)
  show "n < 7 \<Longrightarrow> line_field (tab_join (cookie_fields d ho p a nm v)) n = cookie_fields d ho p a nm v ! n"
    using line_field_join[of n "cookie_fields d ho p a nm v"] plain by (simp add: cookie_fields_def)
qed

section \<open>Storing and removing\<close>

definition jar_ok :: "t_cookie \<Rightarrow> bool" where
  "jar_ok jar \<longleftrightarrow> (\<exists>ls. jar_data jar = jar_text ls \<and> lines_inv ls) \<and> length (jar_data jar) < max_len jar"

text \<open>The attributes a missing argument stands for.\<close>

definition attr_of :: "cookie_attr option \<Rightarrow> cookie_attr" where
  "attr_of a = (case a of None \<Rightarrow> \<lparr>host_only = False, secure = False, http_only = False, expires = 0\<rparr> | Some a \<Rightarrow> a)"

lemma cookie_host_length: "cookie_host env addr n = Some h \<Longrightarrow> length h < n"
proof -
  have z: "length (cookie_zone s) \<le> length s" for s
  proof (cases "strchr s CHR ''%''")
    case (Some zone)
    then have "zone = dropWhile (\<lambda>c. c \<noteq> CHR ''%'') s" by (auto simp: strchr_def split: list.splits)
    then have "length zone \<le> length s" by (simp add: length_dropWhile_le)
    then show ?thesis using Some by (auto simp: cookie_zone_def cbyte_def split: if_splits)
  qed (simp add: cookie_zone_def)
  assume "cookie_host env addr n = Some h"
  then have "\<exists>d. length d < n \<and> (h = cookie_zone d \<or> h = d)"
    unfolding cookie_host_def Let_def by (force simp: hts_lowcase_def split: prod.splits if_splits option.splits)
  then show ?thesis using z by (auto intro: le_less_trans)
qed

lemma cookie_set_eq: "cookie_set env jar cook_name cook_value domain path attr =
     (let attr = (case attr of None \<Rightarrow> \<lparr>host_only = False, secure = False, http_only = False, expires = 0\<rparr> | Some a \<Rightarrow> a) in
      case cookie_host env domain COOKIE_MAX_DOMAIN of
        None \<Rightarrow> (jar, False)
      | Some host \<Rightarrow>
          if forged cook_name \<or> forged cook_value \<or> forged host \<or> forged path then (jar, False)
          else if length cook_name > COOKIE_MAX_PAIR \<or> length cook_value > COOKIE_MAX_PAIR - length cook_name then (jar, False)
          else if length path > COOKIE_MAX_PATH then (jar, False)
          else
            let ho = (host_only attr \<or> cookie_domain_is_suffix env host);
                need = length cook_value + length cook_name + length host + length path + COOKIE_HEADROOM;
                old = cookie_find_exact (jar_data jar) cook_name host path;
                used = cookie_used (jar_data jar) old
            in
            if need > max_len jar \<or> used > max_len jar - need then (jar, False)
            else
              let cook = cookie_line host ho path attr cook_name cook_value in
              if used \<ge> max_len jar \<or> length cook \<ge> max_len jar - used then (jar, False)
              else
                let s = jar_data jar;
                    s = (case old of
                           None \<Rightarrow> s
                         | Some r \<Rightarrow> take (length s - length r) s @ cookie_delete r (rec_length r));
                    p = insert_point (length path) s
                in (jar\<lparr>jar_data := take (length s - length p) s @ cookie_insert p cook\<rparr>, True))"
  unfolding cookie_set_def cookie_set_impl_def cookie_store_def simp_thms if_False Let_def ..

lemma refused_if: "\<not> snd (if c then (j, False) else X) \<Longrightarrow> (\<not> c \<Longrightarrow> \<not> snd X \<Longrightarrow> fst X = j) \<Longrightarrow> fst (if c then (j, False) else X) = j"
  by auto

lemma cookie_set_refused: "\<not> snd (cookie_set env jar nm v domain p a) \<Longrightarrow> fst (cookie_set env jar nm v domain p a) = jar"
  unfolding cookie_set_eq Let_def
  by (cases "cookie_host env domain COOKIE_MAX_DOMAIN"; simp only: option.case fst_conv; (elim refused_if)?) simp_all

lemma cookie_set_lines:
  assumes "jar_data jar = jar_text ls" and "lines_inv ls" and "length (jar_data jar) < max_len jar" and "attr_ok (attr_of a)"
  shows "(\<not> snd (cookie_set env jar nm v domain p a) \<and> fst (cookie_set env jar nm v domain p a) = jar) \<or>
    (\<exists>h l ls'. let a' = attr_of a in
       cookie_set env jar nm v domain p a = (jar\<lparr>jar_data := jar_text ls'\<rparr>, True) \<and>
       cookie_host env domain COOKIE_MAX_DOMAIN = Some h \<and>
       l = tab_join (cookie_fields h (host_only a' \<or> cookie_domain_is_suffix env h) p a' nm v) \<and>
       ls' = put_line p l (drop_hit (line_is nm h p) ls) \<and> lines_inv ls' \<and> length (jar_text ls') < max_len jar \<and>
       (\<forall>n < 7. line_field l n =
          cookie_fields h (host_only a' \<or> cookie_domain_is_suffix env h) p a' nm v ! n) \<and>
       (\<forall>k \<in> set (drop_hit (line_is nm h p) ls). \<not> line_is nm h p k))"
proof (cases "snd (cookie_set env jar nm v domain p a)")
  case False
  then show ?thesis using cookie_set_refused by blast
next
  case True
  note ok = assms(2)[unfolded lines_inv_def]
  obtain h where h: "cookie_host env domain COOKIE_MAX_DOMAIN = Some h"
    using True by (auto simp: cookie_set_eq Let_def split: option.splits)
  define a' where "a' = attr_of a"
  define ho where "ho = (host_only a' \<or> cookie_domain_is_suffix env h)"
  define l where "l = tab_join (cookie_fields h ho p a' nm v)"
  define rest where "rest = drop_hit (line_is nm h p) ls"
  define old where "old = cookie_find_exact (jar_data jar) nm h p"
  define used where "used = cookie_used (jar_data jar) old"
  define s where "s = (case old of None \<Rightarrow> jar_data jar
     | Some r \<Rightarrow> take (length (jar_data jar) - length r) (jar_data jar) @ cookie_delete r (rec_length r))"
  have t: "\<not> forged nm" "\<not> forged v" "\<not> forged h" "\<not> forged p" "\<not> length nm > COOKIE_MAX_PAIR"
    "\<not> length v > COOKIE_MAX_PAIR - length nm" "\<not> length p > COOKIE_MAX_PATH" "length (l @ [LF]) < max_len jar - used"
    and res: "cookie_set env jar nm v domain p a =
      (jar\<lparr>jar_data := take (length s - length (insert_point (length p) s)) s @ cookie_insert (insert_point (length p) s) (l @ [LF])\<rparr>, True)"
    using True unfolding cookie_set_eq Let_def h option.case attr_of_def[symmetric]
    unfolding a'_def[symmetric] ho_def[symmetric] cookie_line_join old_def[symmetric] used_def[symmetric] l_def[symmetric]
    unfolding s_def[symmetric]
    by (simp_all split: if_splits)
  have rest: "s = jar_text rest" "used = length (jar_text rest)"
  proof -
    show "s = jar_text rest"
    proof (cases old)
      case None
      then show ?thesis using drop_hit_none[of ls nm h p] ok assms(1) by (simp add: s_def old_def rest_def)
    next
      case (Some r)
      then show ?thesis using remove_text(1)[of ls nm h p r] ok assms(1) by (simp add: s_def old_def rest_def)
    qed
    show "used = length (jar_text rest)"
    proof (cases old)
      case None
      then show ?thesis using drop_hit_none[of ls nm h p] ok assms(1) by (simp add: used_def old_def rest_def cookie_used_def)
    next
      case (Some r)
      then show ?thesis using remove_text(2)[of ls nm h p r] ok assms(1) by (simp add: used_def old_def rest_def cookie_used_def)
    qed
  qed
  have rinv: "lines_inv rest" unfolding rest_def by (rule drop_hit_inv[OF assms(2)])
  have new: "line_ok l" "length l < COOKIE_FIELD_BUFFER_SIZE" "\<forall>n < 7. line_field l n = cookie_fields h ho p a' nm v ! n"
    using new_line[where d = h and p = p and nm = nm and v = v and a = a' and ho = ho] t cookie_host_length[OF h] assms(4) by (auto simp: l_def a'_def)
  have clear: "\<forall>k \<in> set rest. \<not> line_is nm h p k"
    using drop_hit_clear[of ls _ nm h p] ok unfolding rest_def by blast
  have "line_is nm h p l" using new(3)[rule_format, of 0] new(3)[rule_format, of 2] new(3)[rule_format, of 5]
    by (simp add: line_is_def cookie_fields_def same_domain_key)
  then have "\<forall>k \<in> set rest. \<not> same_line l k" using clear line_is_move by blast
  moreover have "line_field l 2 = p" using new(3) by (simp add: cookie_fields_def)
  ultimately have inv: "lines_inv (put_line p l rest)" by (intro put_line_inv[OF rinv new(1,2)])
  have txt_eq: "take (length s - length (insert_point (length p) s)) s @ cookie_insert (insert_point (length p) s) (l @ [LF]) =
      jar_text (put_line p l rest)"
    using insert_text[of rest p l] rinv unfolding rest(1)[symmetric] lines_inv_def Let_def by blast
  have "length (jar_text (put_line p l rest)) = length (jar_text rest) + length (l @ [LF])"
    using arg_cong[OF jar_text_split[of "\<lambda>k. length (line_field k 2) \<ge> length p" rest], of length] by (simp add: put_line_def)
  then have "length (jar_text (put_line p l rest)) < max_len jar" using t(8) rest(2) by simp
  then show ?thesis
    unfolding Let_def using res[unfolded txt_eq] h inv new(3) clear
    by (intro disjI2 exI[of _ h] exI[of _ l] exI[of _ "put_line p l rest"]) (simp add: a'_def ho_def l_def rest_def)
qed

lemma cookie_remove_lines:
  assumes "jar_data jar = jar_text ls" and "lines_inv ls"
  shows "cookie_remove env jar nm domain p = jar \<or>
    (\<exists>h. cookie_host env domain COOKIE_MAX_DOMAIN = Some h \<and>
       cookie_remove env jar nm domain p = jar\<lparr>jar_data := jar_text (drop_hit (line_is nm h p) ls)\<rparr>)"
  using remove_text(1)[of ls nm _ p] assms unfolding cookie_remove_def
  by (auto simp: lines_inv_def Let_def split: option.splits)

lemma drop_hit_text: "length (jar_text (drop_hit P ls)) \<le> length (jar_text ls)"
  using split_hit[of P ls] by auto

lemma jar_ok_set: "jar_ok jar \<Longrightarrow> attr_ok (attr_of a) \<Longrightarrow> jar_ok (fst (cookie_set env jar nm v d p a))"
proof -
  assume "jar_ok jar" and a: "attr_ok (attr_of a)"
  then obtain ls where ls: "jar_data jar = jar_text ls" "lines_inv ls" "length (jar_data jar) < max_len jar"
    by (auto simp: jar_ok_def)
  show ?thesis using cookie_set_lines[OF ls a, of env nm v d p] \<open>jar_ok jar\<close>
    by (elim disjE) (auto simp: jar_ok_def Let_def)
qed

lemma jar_ok_remove: "jar_ok jar \<Longrightarrow> jar_ok (cookie_remove env jar nm d p)"
proof -
  assume "jar_ok jar"
  then obtain ls where ls: "jar_data jar = jar_text ls" "lines_inv ls" "length (jar_data jar) < max_len jar"
    by (auto simp: jar_ok_def)
  then have fits: "length (jar_text (drop_hit P ls)) < max_len jar" for P
    using drop_hit_text[of P ls] by simp
  show ?thesis using cookie_remove_lines[OF ls(1,2), of env nm d p] \<open>jar_ok jar\<close> drop_hit_inv[OF ls(2)] fits
    by (elim disjE) (auto simp: jar_ok_def)
qed

section \<open>Making room\<close>

lemma records_lines: "list_all line_ok ls \<Longrightarrow> cookie_records (jar_text ls) = map (\<lambda>i. jar_text (drop i ls)) [0..<length ls]"
proof (induction ls)
  case (Cons l ls)
  have "map (\<lambda>i. jar_text (drop i (l # ls))) [0..<length (l # ls)] = jar_text (l # ls) # map (\<lambda>i. jar_text (drop i ls)) [0..<length ls]"
    by (simp add: map_upt_Suc del: upt_Suc)
  then show ?case using Cons by (simp add: records_line)
qed simp

lemma record_piece: "line_ok l \<Longrightarrow> list_all line_ok ls \<Longrightarrow> take (rec_length (jar_text (l # ls))) (jar_text (l # ls)) = l @ [LF]"
  by (simp add: rec_length_def nextfield_line)

lemma kept_lines:
  "concat (map (\<lambda>i. if i \<in> A then [] else ls ! i @ [LF]) [0..<length ls]) = jar_text (nths ls (- A))"
proof (induction ls rule: rev_induct)
  case (snoc l ls)
  have "map (\<lambda>i. if i \<in> A then [] else (ls @ [l]) ! i @ [LF]) [0..<length ls] = map (\<lambda>i. if i \<in> A then [] else ls ! i @ [LF]) [0..<length ls]"
    by (rule map_cong) (auto simp: nth_append)
  then have "concat (map (\<lambda>i. if i \<in> A then [] else (ls @ [l]) ! i @ [LF]) [0..<length ls]) = jar_text (nths ls (- A))"
    using snoc by (simp only:)
  then show ?case by (simp add: nths_append)
qed simp

lemma make_room_lines:
  assumes "list_all line_ok ls" and "cookie_make_room ok (jar_text ls) mx d nm p need = Some s"
  shows "\<exists>A. s = jar_text (nths ls A)"
proof -
  let ?rs = "cookie_records (jar_text ls)"
  have rs: "?rs = map (\<lambda>i. jar_text (drop i ls)) [0..<length ls]" by (rule records_lines[OF assms(1)])
  have piece: "take (rec_length (?rs ! i)) (?rs ! i) = ls ! i @ [LF]" if "i < length ls" for i
  proof -
    have "drop i ls = ls ! i # drop (Suc i) ls" using that by (simp add: Cons_nth_drop_Suc)
    moreover have "line_ok (ls ! i)" "list_all line_ok (drop (Suc i) ls)"
      using assms(1) that by (auto simp: list_all_iff dest: in_set_dropD)
    ultimately show ?thesis using that record_piece by (simp add: rs)
  qed
  obtain out where "s = concat (map (\<lambda>i. if i \<in> set out then [] else take (rec_length (?rs ! i)) (?rs ! i)) [0..<length ?rs])"
    using assms(2) by (auto simp: cookie_make_room_def Let_def split: if_splits option.splits)
  also have "\<dots> = concat (map (\<lambda>i. if i \<in> set out then [] else ls ! i @ [LF]) [0..<length ls])"
    using piece by (intro arg_cong[where f = concat] map_cong) (auto simp: rs)
  finally show ?thesis using kept_lines by blast
qed

lemma sorted_wrt_nths: "sorted_wrt R ls \<Longrightarrow> sorted_wrt R (nths ls A)"
proof (induction ls arbitrary: A)
  case (Cons l ls)
  then show ?case using set_nths_subset[of ls "{j. Suc j \<in> A}"] by (auto simp: nths_Cons)
qed simp

lemma lines_inv_nths: "lines_inv ls \<Longrightarrow> lines_inv (nths ls A)"
  using set_nths_subset[of ls A] by (auto simp: lines_inv_def sorted_wrt_nths list_all_iff)

lemma jar_text_nths: "length (jar_text (nths ls A)) \<le> length (jar_text ls)"
proof (induction ls arbitrary: A)
  case (Cons l ls)
  have "length (jar_text (nths ls {j. Suc j \<in> A})) \<le> length (jar_text ls)" by (rule Cons)
  then show ?case by (simp add: nths_Cons)
qed simp

text \<open>A capped store is a plain one, into the jar or into the jar with some records evicted.\<close>

lemma cookie_set_capped_eq:
  "cookie_set_capped env ok jar nm v domain p a = cookie_set env jar nm v domain p a \<or>
    (\<exists>h need s. cookie_make_room ok (jar_data jar) (max_len jar) h nm p need = Some s \<and>
       cookie_set_capped env ok jar nm v domain p a = cookie_set env (jar\<lparr>jar_data := s\<rparr>) nm v domain p a)"
proof (cases "cookie_host env domain COOKIE_MAX_DOMAIN")
  case None
  then show ?thesis by (simp add: cookie_set_capped_def cookie_set_impl_def cookie_set_def)
next
  case (Some h)
  define need where "need = length v + length nm + length h + length p + COOKIE_HEADROOM"
  show ?thesis
  proof (cases "\<not> cookie_fits (jar_data jar) (max_len jar) h nm p need \<and> \<not> (forged nm \<or> forged v \<or> forged h \<or> forged p) \<and>
      \<not> (length nm > COOKIE_MAX_PAIR \<or> length v > COOKIE_MAX_PAIR - length nm) \<and> \<not> length p > COOKIE_MAX_PATH")
    case True
    show ?thesis
    proof (cases "cookie_make_room ok (jar_data jar) (max_len jar) h nm p need")
      case None
      then show ?thesis using Some True
        unfolding cookie_set_capped_def cookie_set_impl_def cookie_set_def Let_def need_def by simp
    next
      case S: (Some s)
      have "cookie_set_capped env ok jar nm v domain p a = cookie_set env (jar\<lparr>jar_data := s\<rparr>) nm v domain p a"
        using Some True S unfolding cookie_set_capped_def cookie_set_impl_def cookie_set_def Let_def need_def by simp
      then show ?thesis using S by blast
    qed
  next
    case False
    then have "cookie_fits (jar_data jar) (max_len jar) h nm p need \<or> forged nm \<or> forged v \<or> forged h \<or> forged p \<or>
      length nm > COOKIE_MAX_PAIR \<or> length v > COOKIE_MAX_PAIR - length nm \<or> length p > COOKIE_MAX_PATH" by blast
    then have "cookie_set_capped env ok jar nm v domain p a = cookie_set env jar nm v domain p a"
      unfolding cookie_set_capped_def cookie_set_impl_def cookie_set_def Let_def Some option.case need_def[symmetric]
      by (elim disjE) simp_all
    then show ?thesis by blast
  qed
qed

lemma jar_ok_room:
  assumes "jar_ok jar" and "cookie_make_room ok (jar_data jar) (max_len jar) h nm p need = Some s"
  shows "jar_ok (jar\<lparr>jar_data := s\<rparr>)"
proof -
  obtain ls where ls: "jar_data jar = jar_text ls" "lines_inv ls" "length (jar_data jar) < max_len jar"
    using assms(1) by (auto simp: jar_ok_def)
  obtain A where "s = jar_text (nths ls A)"
    using make_room_lines[of ls ok "max_len jar" h nm p need s] assms(2) ls by (auto simp: lines_inv_def)
  then show ?thesis using lines_inv_nths[OF ls(2), of A] jar_text_nths[of ls A] ls by (auto simp: jar_ok_def)
qed

lemma jar_ok_capped: "jar_ok jar \<Longrightarrow> attr_ok (attr_of a) \<Longrightarrow> jar_ok (fst (cookie_set_capped env ok jar nm v d p a))"
  using cookie_set_capped_eq[of env ok jar nm v d p a] jar_ok_set jar_ok_room by metis

section \<open>Lookups on lines\<close>

lemma find_line:
  "list_all line_ok ls \<Longrightarrow>
    map_option (takeWhile (\<lambda>c. c \<noteq> LF)) (cookie_find_exact (jar_text ls) nm d p) = find (line_is nm d p) ls"
proof (induction ls)
  case (Cons l ls)
  have l: "takeWhile (\<lambda>c. c \<noteq> LF) (l @ LF # s) = l" for s using Cons.prems by (simp add: line_ok_def takeWhile_free)
  have "list_all line_ok ls" using Cons.prems by simp
  then show ?case using Cons l find_exact_lines[of ls nm d p] find_exact_lines[of "l # ls" nm d p] by auto
qed (simp add: cookie_find_exact_def)

lemma find_append: "find P (xs @ ys) = (case find P xs of None \<Rightarrow> find P ys | Some x \<Rightarrow> Some x)"
  by (induction xs) auto

lemma find_put: "\<not> Q l \<Longrightarrow> find Q (put_line p l ls) = find Q ls"
  by (metis find_append find.simps(2) put_line_def takeWhile_dropWhile_id)

lemma find_drop_hit: "(\<And>l. P l \<Longrightarrow> \<not> Q l) \<Longrightarrow> find Q (drop_hit P ls) = find Q ls"
proof -
  assume *: "\<And>l. P l \<Longrightarrow> \<not> Q l"
  show ?thesis using split_hit[of P ls]
  proof (elim disjE exE conjE)
    fix pre h post assume "ls = pre @ h # post" "drop_hit P ls = pre @ post" "P h"
    then show ?thesis using *[of h] by (cases "find Q pre") (simp_all add: find_append)
  qed simp
qed

lemma find_hit: "find P xs = Some x \<Longrightarrow> P x \<and> x \<in> set xs"
  by (induction xs) (auto split: if_splits)

lemma find_put_new: "Q l \<Longrightarrow> \<forall>k \<in> set ls. \<not> Q k \<Longrightarrow> find Q (put_line p l ls) = Some l"
  unfolding put_line_def find_append by (auto split: option.splits dest!: find_hit set_takeWhileD)

lemma find_exact_line:
  assumes "list_all line_ok ls" and "find (line_is nm d p) ls = Some l"
  shows "\<exists>r. cookie_find_exact (jar_text ls) nm d p = Some r \<and> (\<forall>n. cookie_get r n = line_field l n)"
proof -
  obtain r where r: "cookie_find_exact (jar_text ls) nm d p = Some r" "takeWhile (\<lambda>c. c \<noteq> LF) r = l"
    using find_line[OF assms(1), of nm d p] assms(2) by auto
  then obtain k ks where k: "r = jar_text (k # ks)" "k \<in> set ls"
    using find_exact_lines[OF assms(1), of nm d p] set_dropWhileD[of _ "\<lambda>l. \<not> line_is nm d p l" ls]
    by (auto split: list.splits)
  then have "line_ok k" using assms(1) by (simp add: list_all_iff)
  then have "\<forall>n. cookie_get r n = line_field k n" "takeWhile (\<lambda>c. c \<noteq> LF) r = k"
    using k(1) by (simp_all add: get_line line_ok_def takeWhile_free)
  then show ?thesis using r by auto
qed

section \<open>The expiry\<close>

lemma sat_digits_stop: "lim < v \<Longrightarrow> sat_digits lim v cs = v"
  by (cases cs) auto

lemma sat_digits_snoc:
  "sat_digits lim v (cs @ [c]) =
    (let w = sat_digits lim v cs in if w \<le> lim then w * 10 + int (digit_val c) else w)"
  by (induction cs arbitrary: v) (auto simp: Let_def sat_digits_stop)

lemma sat_digits_dec: "int n div 10 \<le> lim \<Longrightarrow> 0 \<le> lim \<Longrightarrow> sat_digits lim 0 (dec_nat n) = int n"
proof (induction n rule: dec_nat.induct)
  case (1 n)
  have d: "digit_val (chr (48 + m)) = m" if "m < 10" for m using that by (simp add: digit_val_def)
  show ?case
  proof (cases "n < 10")
    case True
    then show ?thesis using 1 d[of n] by (subst dec_nat.simps) simp
  next
    case False
    have "sat_digits lim 0 (dec_nat (n div 10)) = int (n div 10)"
      using 1 False by (auto simp: zdiv_int intro: order_trans[OF zdiv_mono1[of "int n div 10" "int n" 10, simplified]])
    moreover have "int n div 10 * 10 + int (n mod 10) = int n" by (simp add: zmod_int)
    ultimately show ?thesis using False d[of "n mod 10"] 1(2) by (subst dec_nat.simps) (simp add: sat_digits_snoc zdiv_int)
  qed
qed

lemma dec_number: "cookie_is_number (dec_nat n)"
  using dec_nat_digits dec_nat_nonempty by (simp add: cookie_is_number_def)

lemma record_expiry_dec: "cookie_get r 4 = dec_int e \<Longrightarrow> 0 \<le> e \<Longrightarrow> e < 2 ^ 62 \<Longrightarrow> cookie_record_expiry r = e"
  by (simp add: cookie_record_expiry_def dec_int_def dec_number sat_digits_dec INT64_MAX_def)

lemma c_bool_true: "strcmpnocase_eq (c_bool b) ''TRUE'' = b" "strcmpnocase_eq (c_bool b) ''FALSE'' = (\<not> b)"
  by (cases b; simp add: strcmpnocase_eq_def c_bool_def hichar_def)+

section \<open>Sequences of operations\<close>

inductive jar_step :: "cookie_env \<Rightarrow> t_cookie \<Rightarrow> t_cookie \<Rightarrow> bool" for env where
  Set: "attr_ok (attr_of a) \<Longrightarrow> jar_step env jar (fst (cookie_set env jar nm v d p a))"
| Capped: "attr_ok (attr_of a) \<Longrightarrow> jar_step env jar (fst (cookie_set_capped env ok jar nm v d p a))"
| Remove: "jar_step env jar (cookie_remove env jar nm d p)"
| Login: "fst (bauth_add (Some jar) u f a) = Some jar' \<Longrightarrow> jar_step env jar jar'"
| Logout: "bauth_free (Some jar) = Some jar' \<Longrightarrow> jar_step env jar jar'"

inductive jar_reach :: "cookie_env \<Rightarrow> t_cookie \<Rightarrow> bool" for env where
  Start: "0 < m \<Longrightarrow> jar_reach env \<lparr>max_len = m, jar_data = [], auth = []\<rparr>"
| Step: "jar_reach env jar \<Longrightarrow> jar_step env jar jar' \<Longrightarrow> jar_reach env jar'"

text \<open>The stored logins: sizes, schemes, and no entry hidden by an earlier one.\<close>

definition auth_ok :: "t_cookie \<Rightarrow> bool" where
  "auth_ok jar \<longleftrightarrow>
     list_all (\<lambda>b. length (bprefix b) < BAUTH_SIZE \<and> length (bauth b) < BAUTH_SIZE \<and>
       (prefix ''http://'' (bprefix b) \<or> prefix ''https://'' (bprefix b))) (auth jar) \<and>
     sorted_wrt (\<lambda>a b. \<not> prefix (bprefix a) (bprefix b)) (auth jar)"

lemma cut_after_slash: "prefix (a @ ''/'') (rev (dropWhile (\<lambda>c. c \<noteq> CHR ''/'') (rev (a @ CHR ''/'' # b))))"
proof (cases "CHR ''/'' \<in> set b")
  case True
  then have "dropWhile (\<lambda>c. c \<noteq> CHR ''/'') (rev b @ t) = dropWhile (\<lambda>c. c \<noteq> CHR ''/'') (rev b) @ t" for t
    by (simp add: dropWhile_append1[of "CHR ''/''"])
  then show ?thesis by simp
next
  case False
  then have "dropWhile (\<lambda>c. c \<noteq> CHR ''/'') (rev b @ CHR ''/'' # t) = CHR ''/'' # t" for t
    by (simp add: takeWhile_free)
  then show ?thesis by simp
qed

lemma bauth_prefix_scheme:
  assumes "bauth_prefix addr f = Some p"
  shows "if strfield addr ''https://'' \<noteq> 0 then prefix ''https://'' p else prefix ''http://'' p"
proof -
  define sch where "sch = (if strfield addr ''https://'' \<noteq> 0 then ''https:/'' else ''http:/'')"
  have q: "CHR ''?'' \<notin> set sch" by (simp add: sch_def)
  have "\<exists>b. p = rev (dropWhile (\<lambda>c. c \<noteq> CHR ''/'') (rev (sch @ CHR ''/'' # b)))"
    using assms by (auto simp: bauth_prefix_def Let_def sch_def split: if_splits)
  then have "prefix (sch @ ''/'') p" using cut_after_slash by blast
  then show ?thesis by (auto simp: sch_def split: if_splits)
qed

lemma prefix_take: "prefix p k \<longleftrightarrow> take (length p) k = p"
  by (metis append_eq_conv_conj prefix_def take_is_prefix)

lemma bauth_find_None: "bauth_find bs k = None \<longleftrightarrow> (\<forall>b \<in> set bs. bprefix b = [] \<or> \<not> prefix (bprefix b) k)"
  unfolding bauth_find_def prefix_take by (auto simp: find_None_iff)

lemma bauth_find_Some: "bauth_find bs k = Some a \<Longrightarrow> \<exists>b \<in> set bs. bauth b = a \<and> prefix (bprefix b) k"
  unfolding bauth_find_def prefix_take by (auto dest!: find_hit)

lemma auth_ok_add:
  assumes "auth_ok jar" and "fst (bauth_add (Some jar) u f a) = Some jar'"
  shows "auth_ok jar' \<and> jar_data jar' = jar_data jar \<and> max_len jar' = max_len jar"
proof (cases "jar' = jar")
  case False
  then obtain p where p: "bauth_prefix u f = Some p" "bauth_find (auth jar) p = None" "length p < BAUTH_SIZE" "length a < BAUTH_SIZE"
    "jar' = jar\<lparr>auth := auth jar @ [\<lparr>bprefix = p, bauth = a\<rparr>]\<rparr>"
    using assms(2) by (auto simp: bauth_add_def not_le split: option.splits if_splits)
  have "prefix ''http://'' p \<or> prefix ''https://'' p" using bauth_prefix_scheme[OF p(1)] by (auto split: if_splits)
  moreover have "\<forall>b \<in> set (auth jar). \<not> prefix (bprefix b) p"
    using p(2) assms(1) unfolding bauth_find_None auth_ok_def list_all_iff by (metis prefix_Nil list.distinct(1))
  ultimately show ?thesis using assms(1) p by (auto simp: auth_ok_def sorted_wrt_append)
qed (use assms in simp)

lemma jar_ok_data: "jar_data jar' = jar_data jar \<Longrightarrow> max_len jar' = max_len jar \<Longrightarrow> jar_ok jar' = jar_ok jar"
  by (simp add: jar_ok_def)

lemma set_auth: "auth (fst (cookie_set env jar nm v d p a)) = auth jar"
  using cookie_set_refused[of env jar nm v d p a]
  by (cases "snd (cookie_set env jar nm v d p a)") (auto simp: cookie_set_eq Let_def split: if_splits option.split_asm)


lemma capped_auth: "auth (fst (cookie_set_capped env ok jar nm v d p a)) = auth jar"
  using cookie_set_capped_eq[of env ok jar nm v d p a] by (elim disjE exE conjE) (simp_all add: set_auth)

lemma remove_auth: "auth (cookie_remove env jar nm d p) = auth jar \<and> max_len (cookie_remove env jar nm d p) = max_len jar"
  by (simp add: cookie_remove_def Let_def split: option.splits)

lemma auth_ok_frame: "auth jar' = auth jar \<Longrightarrow> auth_ok jar' = auth_ok jar"
  by (simp add: auth_ok_def)

section \<open>Matching\<close>

text \<open>RFC 6265, 5.1.3 and 5.1.4; the query of a request is not part of its path.\<close>

definition rfc_domain :: "cstring \<Rightarrow> cstring \<Rightarrow> bool" where
  "rfc_domain dm host \<longleftrightarrow> dm \<noteq> [] \<and>
     (map hichar dm = map hichar host \<or>
      (\<not> hts_host_is_address host \<and> (\<exists>p d. host = p @ CHR ''.'' # d \<and> map hichar d = map hichar dm)))"

definition rfc_path :: "cstring \<Rightarrow> cstring \<Rightarrow> bool" where
  "rfc_path cp rp \<longleftrightarrow>
     (\<exists>t. rp = cp @ t \<and> (cp = [] \<or> last cp = CHR ''/'' \<or> t = [] \<or> hd t = CHR ''/'' \<or> hd t = CHR ''?''))"

lemma domain_match_rfc: "cookie_domain_match d host = rfc_domain (skip_dot d) host"
proof -
  define dm where "dm = skip_dot d"
  define n where "n = length host - length dm"
  have split: "(\<exists>p d. host = p @ CHR ''.'' # d \<and> map hichar d = map hichar dm) \<longleftrightarrow>
      length dm < length host \<and> map hichar (drop n host) = map hichar dm \<and> cbyte host (n - 1) = CHR ''.''"
  proof
    assume "\<exists>p d. host = p @ CHR ''.'' # d \<and> map hichar d = map hichar dm"
    then obtain p d where h: "host = p @ CHR ''.'' # d" "map hichar d = map hichar dm" by blast
    then have "length d = length dm" by (metis length_map)
    then show "length dm < length host \<and> map hichar (drop n host) = map hichar dm \<and> cbyte host (n - 1) = CHR ''.''"
      using h by (simp add: n_def cbyte_def nth_append)
  next
    assume *: "length dm < length host \<and> map hichar (drop n host) = map hichar dm \<and> cbyte host (n - 1) = CHR ''.''"
    then have n: "n - 1 < length host" "Suc (n - 1) = n" by (auto simp: n_def)
    then have "host = take (n - 1) host @ host ! (n - 1) # drop n host" "host ! (n - 1) = CHR ''.''"
      using id_take_nth_drop[OF n(1)] * by (simp_all add: cbyte_def)
    then show "\<exists>p d. host = p @ CHR ''.'' # d \<and> map hichar d = map hichar dm" using * by metis
  qed
  have same: "map hichar dm = map hichar host \<Longrightarrow> length dm = length host" by (metis length_map)
  have "(if length dm = 0 \<or> length host < length dm then False
        else if map hichar dm \<noteq> map hichar (drop n host) then False
        else if length dm = length host then True
        else if cbyte host (n - 1) \<noteq> CHR ''.'' then False else if hts_host_is_address host then False else True) =
      (dm \<noteq> [] \<and> (map hichar dm = map hichar host \<or> \<not> hts_host_is_address host \<and>
        length dm < length host \<and> map hichar (drop n host) = map hichar dm \<and> cbyte host (n - 1) = CHR ''.''))"
  proof (cases "length dm" "length host" rule: linorder_cases)
    case less
    then have "map hichar dm \<noteq> map hichar host" using same by auto
    then show ?thesis using less by auto
  next
    case equal
    then show ?thesis by (auto simp: n_def)
  next
    case greater
    then have "map hichar dm \<noteq> map hichar host" using same by auto
    then show ?thesis using greater by auto
  qed
  then show ?thesis
    unfolding cookie_domain_match_def rfc_domain_def Let_def dm_def[symmetric] split strcmpnocase_eq_def n_def[symmetric] by simp
qed

lemma path_covers_rfc: "cstr_ok rp \<Longrightarrow> cookie_path_covers cp rp = rfc_path cp rp"
proof
  assume ok: "cstr_ok rp" and "cookie_path_covers cp rp"
  then have c: "take (length cp) rp = cp" "length cp \<le> length rp"
    "cp = [] \<or> cbyte cp (length cp - 1) = CHR ''/'' \<or> cbyte rp (length cp) \<in> {NUL, CHR ''/'', CHR ''?''}"
    by (auto simp: cookie_path_covers_def Let_def)
  obtain t where t: "rp = cp @ t" using c(1) by (metis append_take_drop_id)
  have "cp \<noteq> [] \<Longrightarrow> cbyte cp (length cp - 1) = last cp" by (simp add: cbyte_def last_conv_nth)
  moreover have "cbyte rp (length cp) = (if t = [] then NUL else hd t)" by (cases t) (simp_all add: t cbyte_def)
  moreover have "t \<noteq> [] \<Longrightarrow> hd t \<noteq> NUL" using ok t by (cases t) auto
  ultimately show "rfc_path cp rp" using c(3) t unfolding rfc_path_def by (intro exI[of _ t]) (auto split: if_splits)
next
  assume "cstr_ok rp" and "rfc_path cp rp"
  then obtain t where t: "rp = cp @ t" "cp = [] \<or> last cp = CHR ''/'' \<or> t = [] \<or> hd t = CHR ''/'' \<or> hd t = CHR ''?''"
    by (auto simp: rfc_path_def)
  then show "cookie_path_covers cp rp"
    by (cases t) (auto simp: cookie_path_covers_def Let_def cbyte_def last_conv_nth)
qed

section \<open>Reachable jars\<close>

lemma jar_step_ok: "jar_step env jar jar' \<Longrightarrow> jar_ok jar \<Longrightarrow> auth_ok jar \<Longrightarrow> jar_ok jar' \<and> auth_ok jar'"
proof (induction rule: jar_step.induct)
  case (Set a jar nm v d p)
  then show ?case using jar_ok_set[of jar a env nm v d p] auth_ok_frame[OF set_auth, of env jar nm v d p a] by simp
next
  case (Capped a jar ok nm v d p)
  then show ?case using jar_ok_capped[of jar a env ok nm v d p] auth_ok_frame[OF capped_auth, of env ok jar nm v d p a] by simp
next
  case (Remove jar nm d p)
  then show ?case using jar_ok_remove[of jar env nm d p] remove_auth auth_ok_frame by metis
next
  case (Login jar u f a jar')
  then show ?case using auth_ok_add jar_ok_data by metis
next
  case (Logout jar jar')
  then show ?case by (auto simp: bauth_free_def jar_ok_def auth_ok_def)
qed

lemma jar_inv: "jar_reach env jar \<Longrightarrow> jar_ok jar \<and> auth_ok jar"
proof (induction rule: jar_reach.induct)
  case (Start m)
  then show ?case by (auto simp: jar_ok_def auth_ok_def lines_inv_def intro!: exI[of _ "[]"])
qed (use jar_step_ok in blast)

section \<open>Properties\<close>

text \<open>
  C3. Whatever the sequence of stored, removed, logged in and logged out entries, the jar is a list
  of whole lines that fit their buffers and its room, longest path first, with no two records of one
  name, domain and path; every login fits its entry, names its scheme, and none is hidden by an
  earlier one.
\<close>

theorem jar_reach_ok:
  assumes "jar_reach env jar"
  shows "jar_ok jar \<and> auth_ok jar"
  by (rule jar_inv[OF assms])

theorem jar_reach_ok_witness:
  "jar_ok (fst (cookie_set \<lparr>idna = Some, psl = None\<rparr> \<lparr>max_len = 300, jar_data = [], auth = []\<rparr> ''a'' ''b'' ''x.com'' ''/'' None)) \<and>
   auth_ok (fst (cookie_set \<lparr>idna = Some, psl = None\<rparr> \<lparr>max_len = 300, jar_data = [], auth = []\<rparr> ''a'' ''b'' ''x.com'' ''/'' None))"
  by (rule jar_reach_ok, rule jar_reach.Step[OF jar_reach.Start jar_step.Set]) (simp_all add: attr_of_def attr_ok_def)

text \<open>
  C4. A cookie that is stored can be read back: the record found under its name, host and path holds
  its value, its flags and its expiry, and the record of every other identity is left as it was.
\<close>

theorem cookie_set_stored:
  assumes "jar_ok jar" and "attr_ok (attr_of a)" and "cookie_set env jar nm v domain p a = (jar', True)"
  shows "\<exists>h r. cookie_host env domain COOKIE_MAX_DOMAIN = Some h \<and>
    cookie_find_exact (jar_data jar') nm h p = Some r \<and>
    cookie_get r 6 = v \<and> cookie_is_secure r = secure (attr_of a) \<and>
    cookie_is_host_only r = (host_only (attr_of a) \<or> cookie_domain_is_suffix env h) \<and>
    (0 \<le> expires (attr_of a) \<and> expires (attr_of a) < 2 ^ 62 \<longrightarrow> cookie_record_expiry r = expires (attr_of a)) \<and>
    (\<forall>nm' d' p'. \<not> (nm' = nm \<and> cookie_same_domain d' h \<and> p' = p) \<longrightarrow>
      map_option (takeWhile (\<lambda>c. c \<noteq> LF)) (cookie_find_exact (jar_data jar') nm' d' p') =
      map_option (takeWhile (\<lambda>c. c \<noteq> LF)) (cookie_find_exact (jar_data jar) nm' d' p'))"
proof -
  obtain ls where ls: "jar_data jar = jar_text ls" "lines_inv ls" "length (jar_data jar) < max_len jar"
    using assms(1) by (auto simp: jar_ok_def)
  obtain h l where *: "jar' = jar\<lparr>jar_data := jar_text (put_line p l (drop_hit (line_is nm h p) ls))\<rparr>"
    "cookie_host env domain COOKIE_MAX_DOMAIN = Some h" "lines_inv (put_line p l (drop_hit (line_is nm h p) ls))"
    "\<forall>n < 7. line_field l n = cookie_fields h (host_only (attr_of a) \<or> cookie_domain_is_suffix env h) p (attr_of a) nm v ! n"
    "\<forall>k \<in> set (drop_hit (line_is nm h p) ls). \<not> line_is nm h p k"
    using cookie_set_lines[OF ls assms(2), of env nm v domain p] assms(3) by (auto simp: Let_def)
  note f = *(4)[rule_format]
  have self: "line_is nm h p l" using f[of 0] f[of 2] f[of 5] by (simp add: line_is_def cookie_fields_def same_domain_key)
  have ok: "list_all line_ok (put_line p l (drop_hit (line_is nm h p) ls))" "list_all line_ok ls"
    using *(3) ls(2) by (simp_all add: lines_inv_def)
  obtain r where r: "cookie_find_exact (jar_data jar') nm h p = Some r" "\<forall>n. cookie_get r n = line_field l n"
    using find_exact_line[OF ok(1) find_put_new[of "line_is nm h p", OF self *(5)]] *(1) by auto
  have get: "cookie_get r n = cookie_fields h (host_only (attr_of a) \<or> cookie_domain_is_suffix env h) p (attr_of a) nm v ! n"
    if "n < 7" for n using r(2) f[OF that] by simp
  have other: "map_option (takeWhile (\<lambda>c. c \<noteq> LF)) (cookie_find_exact (jar_data jar') nm' d' p') =
      map_option (takeWhile (\<lambda>c. c \<noteq> LF)) (cookie_find_exact (jar_data jar) nm' d' p')"
    if "\<not> (nm' = nm \<and> cookie_same_domain d' h \<and> p' = p)" for nm' d' p'
  proof -
    have no: "line_is nm h p k \<Longrightarrow> \<not> line_is nm' d' p' k" for k using that by (auto simp: line_is_def same_domain_key)
    show ?thesis
      using find_line[OF ok(1), of nm' d' p'] find_line[OF ok(2), of nm' d' p'] no[OF self] *(1) ls(1)
      by (simp add: find_put find_drop_hit[OF no])
  qed
  show ?thesis
    using *(2) r(1) get[of 6] get[of 3] get[of 1] get[of 4] other record_expiry_dec[of r "expires (attr_of a)"]
    by (intro exI[of _ h] exI[of _ r])
      (simp add: cookie_fields_def cookie_is_secure_def cookie_is_host_only_def c_bool_true)
qed

theorem cookie_set_stored_witness:
  "\<exists>r. cookie_find_exact (jar_data (fst (cookie_set \<lparr>idna = Some, psl = None\<rparr> \<lparr>max_len = 300, jar_data = [], auth = []\<rparr>
      ''a'' ''b'' ''X.com'' ''/'' None))) ''a'' ''x.com'' ''/'' = Some r \<and> cookie_get r 6 = ''b''"
proof -
  let ?env = "\<lparr>idna = Some, psl = None\<rparr>" and ?jar = "\<lparr>max_len = 300, jar_data = [], auth = []\<rparr>"
  have ok: "jar_ok ?jar" by (auto simp: jar_ok_def lines_inv_def intro!: exI[of _ "[]"])
  have h: "cookie_host ?env ''X.com'' COOKIE_MAX_DOMAIN = Some ''x.com''" by code_simp
  have "snd (cookie_set ?env ?jar ''a'' ''b'' ''X.com'' ''/'' None)" by code_simp
  then have "cookie_set ?env ?jar ''a'' ''b'' ''X.com'' ''/'' None =
      (fst (cookie_set ?env ?jar ''a'' ''b'' ''X.com'' ''/'' None), True)" by (simp add: prod_eq_iff)
  from cookie_set_stored[OF ok _ this] h show ?thesis by (auto simp: attr_of_def attr_ok_def)
qed

text \<open>
  C17. The lookup for a request returns the first record of the name, any name when none is given,
  whose domain matches the host, equals it when the record is host-only, and whose path matches the
  path of the request, as RFC 6265 defines the two matches.
\<close>

theorem cookie_find_rfc6265:
  assumes "cstr_ok path"
  shows "cookie_find s cook_name host path =
    find (\<lambda>r. (cook_name = [] \<or> cookie_get r 5 = cook_name) \<and> rfc_domain (skip_dot (cookie_get r 0)) host \<and>
      (cookie_is_host_only r \<longrightarrow> cookie_same_domain (cookie_get r 0) host) \<and> rfc_path (cookie_get r 2) path) (cookie_records s)"
  unfolding cookie_find_def Let_def domain_match_rfc path_covers_rfc[OF assms]
  by (rule arg_cong[where f = "\<lambda>P. find P (cookie_records s)"]) auto

theorem cookie_find_rfc6265_witness:
  "find (\<lambda>r. (''n'' = [] \<or> cookie_get r 5 = ''n'') \<and> rfc_domain (skip_dot (cookie_get r 0)) ''y.x.com'' \<and>
      (cookie_is_host_only r \<longrightarrow> cookie_same_domain (cookie_get r 0) ''y.x.com'') \<and> rfc_path (cookie_get r 2) ''/a/b'')
     (cookie_records (jar_text [tab_join [''x.com'', ''TRUE'', ''/a'', ''FALSE'', ''0'', ''n'', ''v'']])) \<noteq> None"
proof -
  have ok: "cstr_ok ''/a/b''" by simp
  have "cookie_find (jar_text [tab_join [''x.com'', ''TRUE'', ''/a'', ''FALSE'', ''0'', ''n'', ''v'']]) ''n'' ''y.x.com'' ''/a/b'' \<noteq> None"
    by code_simp
  then show ?thesis unfolding cookie_find_rfc6265[OF ok] .
qed

text \<open>
  C18. The login sent with a request is one stored for a prefix of its key, or, for an https request,
  of the key it has over http; a request that is not https never gets a login learned over https.
\<close>

theorem bauth_check_scope:
  assumes "jar_reach env jar" and "bauth_check (Some jar) addr f = Some c"
  shows "\<exists>b \<in> set (auth jar). bauth b = c \<and>
    (\<exists>k. (bauth_prefix addr f = Some k \<or> strfield addr ''https://'' \<noteq> 0 \<and> bauth_prefix (drop 8 addr) f = Some k) \<and>
      prefix (bprefix b) k) \<and>
    (strfield addr ''https://'' = 0 \<longrightarrow> prefix ''http://'' (bprefix b))"
proof -
  have schemes: "prefix ''http://'' (bprefix b) \<or> prefix ''https://'' (bprefix b)" if "b \<in> set (auth jar)" for b
    using jar_inv[OF assms(1)] that by (auto simp: auth_ok_def list_all_iff)
  consider (same) k where "bauth_prefix addr f = Some k" "bauth_find (auth jar) k = Some c"
    | (plain) k where "strfield addr ''https://'' \<noteq> 0" "bauth_prefix (drop 8 addr) f = Some k" "bauth_find (auth jar) k = Some c"
    using assms(2) by (auto simp: bauth_check_def split: option.splits if_splits)
  then show ?thesis
  proof cases
    case (same k)
    then obtain b where b: "b \<in> set (auth jar)" "bauth b = c" "prefix (bprefix b) k" using bauth_find_Some by blast
    have "prefix ''http://'' (bprefix b)" if "strfield addr ''https://'' = 0"
    proof -
      have "prefix ''http://'' k" using bauth_prefix_scheme[OF same(1)] that by simp
      then have "\<not> prefix ''https://'' (bprefix b)" using b(3) by (auto simp: prefix_def)
      then show ?thesis using schemes[OF b(1)] by blast
    qed
    then show ?thesis using b same(1) by (intro bexI[OF _ b(1)]) auto
  next
    case (plain k)
    then show ?thesis using bauth_find_Some[OF plain(3)] by auto
  qed
qed

theorem bauth_check_scope_witness:
  "\<exists>jar. jar_reach \<lparr>idna = Some, psl = None\<rparr> jar \<and> bauth_check (Some jar) ''h.com'' ''/d/y'' = Some ''tok'' \<and>
     (\<exists>b \<in> set (auth jar). prefix ''http://'' (bprefix b))"
proof -
  let ?jar = "\<lparr>max_len = 9, jar_data = [], auth = [\<lparr>bprefix = ''http://h.com/d/'', bauth = ''tok''\<rparr>]\<rparr>"
  have "fst (bauth_add (Some \<lparr>max_len = 9, jar_data = [], auth = []\<rparr>) ''h.com'' ''/d/x?q'' ''tok'') = Some ?jar" by code_simp
  then have r: "jar_reach \<lparr>idna = Some, psl = None\<rparr> ?jar" by (intro jar_reach.Step[OF jar_reach.Start jar_step.Login]) simp_all
  have c: "bauth_check (Some ?jar) ''h.com'' ''/d/y'' = Some ''tok''" by code_simp
  have "strfield ''h.com'' ''https://'' = 0" by code_simp
  then show ?thesis using bauth_check_scope[OF r c] r c by blast
qed
end
