(* ===== verification/LinkTools.thy ===== *)
theory LinkTools
  imports Url Utf8
begin

text \<open>
  The link tools of \<open>htstools.c\<close>: the absolute form of a link found in a page (\<open>ident_url_relatif\<close>),
  the relative form of a link (\<open>lienrelatif\<close>), the tests on the shape of a link and the 8-3 names.
  An empty address or path stands for a null pointer too.  The outer \<open>None\<close> of \<open>ident_url_relatif\<close>
  and of \<open>lienrelatif\<close> is the abort of a bounded copy; what an error leaves in the buffers is not
  part of the result, as the callers drop it.
\<close>

section \<open>The shape of a link\<close>

definition link_has_authority :: "cstring \<Rightarrow> bool" where
  "link_has_authority lien =
     (if isalpha (cbyte lien 0) then
        (let a = dropWhile isalpha lien in
         if cbyte a 0 = CHR '':'' then take 2 (tl a) = ''//'' else False)
      else take 2 lien = ''//'')"

definition link_base_is_hostname :: "cstring \<Rightarrow> bool" where
  "link_base_is_hostname lien \<longleftrightarrow>
     cbyte lien 0 \<noteq> CHR ''.'' \<and> (\<exists>c \<in> set (takeWhile (\<lambda>c. c \<notin> set ''/?#'') lien). c = CHR ''.'' \<or> c = CHR '':'')"

definition link_dir_is_multisegment :: "cstring \<Rightarrow> bool" where
  "link_dir_is_multisegment lien \<longleftrightarrow>
     count_list lien CHR ''/'' \<ge> 2 \<and> length (filter (\<lambda>c. c \<noteq> CHR ''/'') lien) \<noteq> 0"

definition link_dir_has_fragment_or_query :: "cstring \<Rightarrow> bool" where
  "link_dir_has_fragment_or_query lien =
     (let ct = length (takeWhile (\<lambda>c. c \<notin> set ''#?&'') lien) in
      if ct = 0 \<or> cbyte lien ct = NUL \<or> cbyte lien ct = CHR ''&'' \<or> cbyte lien (ct - 1) \<noteq> CHR ''/'' then False
      else ct = 1 \<or> length (takeWhile (\<lambda>c. c = CHR ''/'') lien) < ct)"

definition link_has_authorization :: "cstring \<Rightarrow> bool" where
  "link_has_authorization lien =
     (let a = jump_protocol lien in
      case (strchr a CHR ''/'', strchr a CHR ''@'') of
        (Some firstslash, Some detect) \<Rightarrow> length detect > length firstslash
      | (Some _, None) \<Rightarrow> False
      | (None, detect) \<Rightarrow> detect \<noteq> None)"

fun hts_memstr :: "cstring \<Rightarrow> cstring \<Rightarrow> cstring option" where
  "hts_memstr [] needle = None"
| "hts_memstr (h # hay) needle =
     (if needle = [] \<or> length (h # hay) < length needle then None
      else if h = hd needle \<and> take (length needle) (h # hay) = needle then Some (h # hay)
      else hts_memstr hay needle)"

section \<open>Relative links\<close>

definition cut_query :: "cstring \<Rightarrow> cstring" where
  "cut_query s = takeWhile (\<lambda>c. c \<noteq> CHR ''?'') s"

text \<open>The current path up to its last slash; a path without a slash is kept whole.\<close>

definition curr_path :: "cstring \<Rightarrow> cstring" where
  "curr_path s = (if CHR ''/'' \<in> set s then rev (dropWhile (\<lambda>c. c \<noteq> CHR ''/'') (rev s)) else s)"

definition skip_slash :: "cstring \<Rightarrow> cstring" where
  "skip_slash s = (if cbyte s 0 = CHR ''/'' then tl s else s)"

fun common_chars :: "cstring \<Rightarrow> cstring \<Rightarrow> nat" where
  "common_chars (l # link) (c # cur) = (if streql l c then Suc (common_chars link cur) else 0)"
| "common_chars link cur = 0"

text \<open>Back to a whole directory: the last position where both paths have a slash.\<close>

fun common_dir :: "cstring \<Rightarrow> cstring \<Rightarrow> nat \<Rightarrow> nat" where
  "common_dir link cur 0 = 0"
| "common_dir link cur (Suc n) =
     (if cbyte link (Suc n) \<noteq> CHR ''/'' \<or> cbyte cur (Suc n) \<noteq> CHR ''/'' then common_dir link cur n else Suc n)"

definition lienrelatif :: "nat \<Rightarrow> cstring \<Rightarrow> cstring \<Rightarrow> (int \<times> cstring) option" where
  "lienrelatif ssize link curr_fil =
     (let curr_fil = cut_query curr_fil;
          fits = (CHR ''?'' \<notin> set link \<or> length (cut_query link) < HTS_URLMAXSIZE * 2);
          link = skip_slash (cut_query link);
          cur = skip_slash (curr_path curr_fil);
          n = common_dir link cur (common_chars link cur);
          s = concat (replicate (count_list (skip_slash (drop n cur)) CHR ''/'') ''../'') @ skip_slash (drop n link)
      in if \<not> fits \<or> length curr_fil \<ge> HTS_URLMAXSIZE * 2 \<or> length s \<ge> ssize then None
         else Some (if length s \<ge> HTS_URLMAXSIZE then -1 else 0, s))"

section \<open>Absolute links\<close>

text \<open>The scheme a relative link may carry: what is left of the link, and the address it stands for.\<close>

definition relative_scheme :: "cstring \<Rightarrow> cstring \<Rightarrow> cstring \<times> cstring" where
  "relative_scheme lien origin_adr =
     (if strfield lien ''http:'' \<noteq> 0 then (drop 5 lien, jump_protocol origin_adr)
      else if strfield lien ''https:'' \<noteq> 0 then (drop 6 lien, ''https://'' @ jump_protocol origin_adr)
      else if strfield lien ''ftp:'' \<noteq> 0 then (drop 4 lien, ''ftp://'' @ jump_protocol origin_adr)
      else (lien, origin_adr))"

definition relative_fil :: "cstring \<Rightarrow> cstring \<Rightarrow> cstring option" where
  "relative_fil lien origin_fil =
     (if cbyte lien 0 \<noteq> CHR ''/'' then
        if lien = [] then Some origin_fil
        else if cbyte lien 0 = CHR ''?'' then
          (if length lien < HTS_URLMAXSIZE - length (cut_query origin_fil) then Some (cut_query origin_fil @ lien) else None)
        else
          (let d = cut_query origin_fil in
           if CHR ''/'' \<in> set d then
             (if length (curr_path d) + length lien < HTS_URLMAXSIZE then Some (fil_simplifie (curr_path d @ lien)) else None)
           else None)
      else Some (fil_simplifie lien))"

definition relative_url :: "cstring \<Rightarrow> cstring \<Rightarrow> cstring \<Rightarrow> lien_adrfil option" where
  "relative_url lien origin_adr origin_fil =
     (if length origin_adr < HTS_URLMAXSIZE \<and> length origin_fil < HTS_URLMAXSIZE \<and> length lien < HTS_URLMAXSIZE then
        (let r = relative_scheme lien origin_adr in
         map_option (\<lambda>f. \<lparr>adr = snd r, fil = f\<rparr>) (relative_fil (fst r) origin_fil))
      else None)"

text \<open>The host is put in lower case, then in its ASCII form for HTTP.\<close>

definition idna_host :: "(cstring \<Rightarrow> cstring option) \<Rightarrow> cstring \<Rightarrow> cstring option" where
  "idna_host idna ad =
     (let a = jump_identification ad; off = length ad - length a in
      if (\<not> link_has_authority ad \<or> strfield ad ''https:'' \<noteq> 0) \<and> \<not> hts_isStringAscii a then
        (case idna a of
           None \<Rightarrow> Some ad
         | Some i \<Rightarrow>
             if length i < HTS_URLMAXSIZE then
               (if length i < HTS_URLMAXSIZE * 2 - off then Some (take off ad @ i) else None)
             else Some ad)
      else Some ad)"

text \<open>\<open>Inl\<close> is the error code: -1 for an error, -2 for a protocol that is not supported.\<close>

definition ident_url_relatif ::
  "bool \<Rightarrow> bool \<Rightarrow> (cstring \<Rightarrow> cstring option) \<Rightarrow> cstring \<Rightarrow> cstring \<Rightarrow> cstring \<Rightarrow> (int + lien_adrfil) option" where
  "ident_url_relatif use_ssl ftp_available idna lien origin_adr origin_fil =
     (let scheme = (cbyte (dropWhile isalpha lien) 0 = CHR '':'');
          absolute = (case ident_url_absolute use_ssl lien of None \<Rightarrow> Inl (-1) | Some af \<Rightarrow> Inr af);
          r = (if lien = [] then Inl (-1)
               else if \<not> use_ssl \<and> strfield lien ''https:'' \<noteq> 0 then Inl (-2)
               else if strfield lien ''http://'' \<noteq> 0 \<or> strfield lien ''file://'' \<noteq> 0 \<or> take 2 lien = ''//'' then absolute
               else if strfield lien ''ftp://'' \<noteq> 0 then (if ftp_available then absolute else Inl (-2))
               else if strfield lien ''https://'' \<noteq> 0 then absolute
               else if scheme \<and> strfield lien ''http:'' = 0 \<and> strfield lien ''https:'' = 0 \<and> strfield lien ''ftp:'' = 0
                 then Inl (-1)
               else if origin_adr = [] \<or> origin_fil = [] then Inl (-1)
               else (case relative_url lien origin_adr origin_fil of None \<Rightarrow> Inl (-1) | Some af \<Rightarrow> Inr af))
      in case r of
           Inl e \<Rightarrow> Some (Inl e)
         | Inr af \<Rightarrow> map_option (\<lambda>a. Inr (af\<lparr>adr := a\<rparr>)) (idna_host idna (lower_host (adr af))))"

section \<open>8-3 names\<close>

definition N83_BUF :: nat where "N83_BUF = 256"

definition upper83 :: "char \<Rightarrow> char" where
  "upper83 c = (if ord CHR ''a'' \<le> ord c \<and> ord c \<le> ord CHR ''z'' then chr (ord c - 32) else c)"

definition ok83 :: "char \<Rightarrow> bool" where
  "ok83 c \<longleftrightarrow> (ord CHR ''A'' \<le> ord c \<and> ord c \<le> ord CHR ''Z'') \<or> isdigit c \<or> c = CHR ''_'' \<or> c = CHR ''.''"

text \<open>No starting dot, and a single dot, the last one.\<close>

definition dots83 :: "cstring \<Rightarrow> cstring" where
  "dots83 save =
     (let save = (if cbyte save 0 = CHR ''.'' then CHR ''_'' # tl save else save);
          tail = takeWhile (\<lambda>c. c \<noteq> CHR ''.'') (rev save)
      in if CHR ''.'' \<in> set save then
           map (\<lambda>c. if c = CHR ''.'' then CHR ''_'' else c) (take (length save - length tail - 1) save) @ CHR ''.'' # rev tail
         else save)"

text \<open>The characters kept, in upper case; \<open>w\<close> is what is written, and a run of others gives one underscore.\<close>

fun chars83 :: "cstring \<Rightarrow> cstring \<Rightarrow> cstring" where
  "chars83 w [] = w"
| "chars83 w (a # save) =
     (if upper83 a \<noteq> a then chars83 (w @ [upper83 a]) save
      else if \<not> ok83 a then
        (if w \<noteq> [] \<and> last w = CHR ''_'' then chars83 w save else chars83 (w @ [CHR ''_'']) save)
      else chars83 (w @ [a]) save)"

definition longfile_to_83 :: "int \<Rightarrow> cstring \<Rightarrow> cstring" where
  "longfile_to_83 mode save =
     (let mx = (if mode = 2 then 31 else 8);
          save = chars83 [] (dots83 save);
          nom = take mx (takeWhile (\<lambda>c. c \<noteq> CHR ''.'') save);
          ext = (if length nom < length save \<and> CHR ''.'' \<in> set save
                 then take 3 (rev (takeWhile (\<lambda>c. c \<noteq> CHR ''.'') (rev save))) else [])
      in nom @ (if ext \<noteq> [] then CHR ''.'' # ext else []))"

function long_to_83_loop :: "int \<Rightarrow> nat \<Rightarrow> cstring \<Rightarrow> cstring \<Rightarrow> cstring option" where
  "long_to_83_loop mode n83size n83 save =
     (if save = [] then Some n83
      else
        let seg = takeWhile (\<lambda>c. c \<noteq> CHR ''/'') save; rest = dropWhile (\<lambda>c. c \<noteq> CHR ''/'') save;
            n83 = n83 @ longfile_to_83 mode (take (N83_BUF - 1) seg)
        in if length n83 \<ge> n83size then None
           else if rest = [] then Some n83
           else if length (n83 @ ''/'') \<ge> n83size then None
           else long_to_83_loop mode n83size (n83 @ ''/'') (tl rest))"
  by pat_completeness auto
termination
proof (relation "measure (\<lambda>(_, _, _, save). length save)", goal_cases)
  case (2 mode n83size n83 save seg rest n83')
  then have "rest \<noteq> []" "length rest \<le> length save" by (auto simp: length_dropWhile_le)
  then show ?case by (cases rest) auto
qed simp

declare long_to_83_loop.simps [simp del]

definition long_to_83 :: "int \<Rightarrow> nat \<Rightarrow> cstring \<Rightarrow> cstring option" where
  "long_to_83 mode n83size save = long_to_83_loop mode n83size [] save"

end
