(* ===== verification/LinkClaims.thy ===== *)
theory LinkClaims
  imports LinkTools UrlClaims
begin

text \<open>
  The relative form of a link against its absolute form: what \<open>lienrelatif\<close> builds,
  \<open>ident_url_relatif\<close> resolves to the link again, up to the case of the directories both paths
  share.  The shared directories are found character by character in the code, and segment by
  segment here (\<open>shared\<close>).
\<close>

definition same_text :: "cstring \<Rightarrow> cstring \<Rightarrow> bool" where
  "same_text s t \<longleftrightarrow> list_all2 streql s t"

lemma same_text_refl [simp]: "same_text s s"
  by (simp add: same_text_def list_all2_refl streql_refl)

lemma same_text_length: "same_text s t \<Longrightarrow> length s = length t"
  by (simp add: same_text_def list_all2_lengthD)

lemma same_text_append: "same_text s t \<Longrightarrow> same_text u v \<Longrightarrow> same_text (s @ u) (t @ v)"
  by (simp add: same_text_def list_all2_appendI)

lemma hichar_punct: "ord x < 65 \<Longrightarrow> hichar c = x \<longleftrightarrow> c = x"
proof
  assume x: "ord x < 65" and h: "hichar c = x"
  show "c = x"
  proof (cases "97 \<le> ord c \<and> ord c \<le> 122")
    case True
    moreover have "ord c - 32 < 256" using True by linarith
    ultimately have "ord (hichar c) = ord c - 32" by (simp add: hichar_def)
    with h have "ord x = ord c - 32" by simp
    with True x have False by linarith
    then show ?thesis ..
  next
    case False
    then have "ord c < 97 \<or> 122 < ord c" by linarith
    with h hichar_id show ?thesis by metis
  qed
qed (simp add: hichar_id)

lemma streql_punct: "ord x < 65 \<Longrightarrow> streql x c \<longleftrightarrow> c = x" "ord x < 65 \<Longrightarrow> streql c x \<longleftrightarrow> c = x"
  using hichar_punct[of x c] hichar_punct[of x x] by (auto simp: streql_def)

lemma same_text_sym: "same_text s t \<Longrightarrow> same_text t s"
  by (auto simp: same_text_def list_all2_conv_all_nth streql_sym)

lemma same_text_close: "list_all2 same_text ss ts \<Longrightarrow> same_text (close_segs SLASH ss) (close_segs SLASH ts)"
  by (induction rule: list_all2_induct)
    (auto simp: same_text_append[of _ _ "SLASH # _" "SLASH # _"] same_text_def streql_refl list_all2_appendI)

lemma streql_slash: "streql SLASH c \<longleftrightarrow> c = SLASH" "streql c SLASH \<longleftrightarrow> c = SLASH"
  by (simp_all add: streql_punct)

section \<open>The shared directories\<close>

fun shared :: "cstring list \<Rightarrow> cstring list \<Rightarrow> nat" where
  "shared (d # ds) (c # cs) = (if same_text d c then Suc (shared ds cs) else 0)"
| "shared ds cs = 0"

lemma shared_le: "shared ds cs \<le> length ds" "shared ds cs \<le> length cs"
  by (induction ds cs rule: shared.induct) auto

lemma shared_same: "list_all2 same_text (take (shared ds cs) ds) (take (shared ds cs) cs)"
  by (induction ds cs rule: shared.induct) auto

lemma common_chars_same:
  "same_text d c \<Longrightarrow> common_chars (d @ u) (c @ v) = length d + common_chars u v"
  unfolding same_text_def by (induction d c rule: list_all2_induct) auto

lemma common_chars_nth:
  "i < common_chars l c \<Longrightarrow> i < length l \<and> i < length c \<and> streql (l ! i) (c ! i)"
  by (induction l c arbitrary: i rule: common_chars.induct) (auto simp: nth_Cons less_Suc_eq_0_disj split: if_splits)

lemma common_dir_zero: "(\<And>i. 0 < i \<Longrightarrow> i \<le> n \<Longrightarrow> \<not> (cbyte l i = SLASH \<and> cbyte c i = SLASH)) \<Longrightarrow> common_dir l c n = 0"
  by (induction n) auto

lemma common_dir_shift:
  assumes "length d = length c" "d \<noteq> []" "cbyte u 0 \<noteq> SLASH"
  shows "common_dir (d @ SLASH # u) (c @ SLASH # v) (Suc (length d) + j) =
     (if common_dir u v j = 0 then length d else Suc (length d) + common_dir u v j)"
proof (induction j)
  case 0
  obtain m where m: "length d = Suc m" using assms(2) by (cases d) auto
  have "cbyte (d @ SLASH # u) (Suc (length d)) \<noteq> SLASH" using assms(3) by (cases u) (auto simp: cbyte_def nth_append)
  moreover have "cbyte (d @ SLASH # u) (length d) = SLASH" "cbyte (c @ SLASH # v) (length d) = SLASH"
    using assms(1) by (simp_all add: cbyte_def nth_append)
  ultimately show ?case by (simp add: m)
next
  case (Suc j)
  have "cbyte (d @ SLASH # u) (Suc (length d) + Suc j) = cbyte u (Suc j)"
    "cbyte (c @ SLASH # v) (Suc (length d) + Suc j) = cbyte v (Suc j)"
    using assms(1) by (auto simp: cbyte_def nth_append)
  then show ?case using Suc by simp
qed

lemma cbyte_free: "c \<notin> set s \<Longrightarrow> c \<noteq> NUL \<Longrightarrow> cbyte s i \<noteq> c"
  by (auto simp: cbyte_def dest: nth_mem)

lemma both_slash_same:
  assumes "SLASH \<notin> set d" "SLASH \<notin> set c" "0 < i" "i \<le> common_chars (d @ SLASH # u) (c @ SLASH # v)"
    and at: "cbyte (d @ SLASH # u) i = SLASH" "cbyte (c @ SLASH # v) i = SLASH"
  shows "same_text d c"
proof -
  note eq = common_chars_nth[of _ "d @ SLASH # u" "c @ SLASH # v"]
  have "length d \<le> i"
    using at(1) assms(1) nth_mem[of i d] by (cases "i < length d") (auto simp: cbyte_def nth_append)
  moreover have "length c \<le> i"
    using at(2) assms(2) nth_mem[of i c] by (cases "i < length c") (auto simp: cbyte_def nth_append)
  ultimately have ge: "length d \<le> i" "length c \<le> i" by simp_all
  have "length c \<le> length d"
  proof (rule ccontr)
    assume *: "\<not> length c \<le> length d"
    then have "length d < common_chars (d @ SLASH # u) (c @ SLASH # v)" using ge assms(4) by simp
    from eq[OF this] * have "c ! length d = SLASH" by (simp add: nth_append streql_slash)
    with * assms(2) show False by (metis not_le nth_mem)
  qed
  moreover have "length d \<le> length c"
  proof (rule ccontr)
    assume *: "\<not> length d \<le> length c"
    then have "length c < common_chars (d @ SLASH # u) (c @ SLASH # v)" using ge assms(4) by simp
    from eq[OF this] * have "d ! length c = SLASH" by (simp add: nth_append streql_slash)
    with * assms(1) show False by (metis not_le nth_mem)
  qed
  ultimately have len: "length d = length c" by simp
  moreover have "streql (d ! k) (c ! k)" if "k < length d" for k
    using eq[of k] that ge assms(4) len by (simp add: nth_append)
  ultimately show ?thesis by (simp add: same_text_def list_all2_conv_all_nth)
qed

definition dir_name :: "cstring \<Rightarrow> bool" where
  "dir_name s \<longleftrightarrow> s \<noteq> [] \<and> s \<noteq> ''.'' \<and> s \<noteq> ''..'' \<and> SLASH \<notin> set s \<and> CHR ''?'' \<notin> set s \<and> CHR '':'' \<notin> set s \<and> NUL \<notin> set s"

lemma close_start: "list_all dir_name ds \<Longrightarrow> dir_name f \<Longrightarrow> cbyte (close_segs SLASH ds @ f) 0 \<noteq> SLASH"
  by (cases ds; cases f; cases "hd ds") (auto simp: dir_name_def)

lemma close_start': "list_all dir_name cs \<Longrightarrow> cbyte (close_segs SLASH cs) 0 \<noteq> SLASH"
  by (cases cs; cases "hd cs") (auto simp: dir_name_def)

lemma skip_slash_id: "cbyte s 0 \<noteq> SLASH \<Longrightarrow> skip_slash s = s"
  by (simp add: skip_slash_def)

definition dir_split :: "cstring \<Rightarrow> cstring \<Rightarrow> nat" where
  "dir_split l c = common_dir l c (common_chars l c)"

lemma dir_split_shared:
  assumes "list_all dir_name ds" "list_all dir_name cs" "dir_name f"
  shows "skip_slash (drop (dir_split (close_segs SLASH ds @ f) (close_segs SLASH cs)) (close_segs SLASH ds @ f)) =
      close_segs SLASH (drop (shared ds cs) ds) @ f \<and>
    skip_slash (drop (dir_split (close_segs SLASH ds @ f) (close_segs SLASH cs)) (close_segs SLASH cs)) =
      close_segs SLASH (drop (shared ds cs) cs)"
  using assms
proof (induction ds cs rule: shared.induct, goal_cases)
  case (1 d ds c cs)
  let ?l = "close_segs SLASH ds @ f" and ?c = "close_segs SLASH cs"
  have ok: "d \<noteq> []" "SLASH \<notin> set d" "SLASH \<notin> set c" "list_all dir_name ds" "list_all dir_name cs"
    using 1(2,3) unfolding list.pred_inject(2) dir_name_def[of d] dir_name_def[of c] by simp_all
  show ?case
  proof (cases "same_text d c")
    case True
    note IH = 1(1)[OF True ok(4,5) 1(4)]
    have len: "length d = length c" using True by (rule same_text_length)
    have "common_chars (d @ SLASH # ?l) (c @ SLASH # ?c) = Suc (length d) + common_chars ?l ?c"
      using common_chars_same[OF True, of "SLASH # ?l" "SLASH # ?c"] by (simp add: streql_slash)
    then have sp: "dir_split (d @ SLASH # ?l) (c @ SLASH # ?c) =
        (if dir_split ?l ?c = 0 then length d else Suc (length d) + dir_split ?l ?c)"
      unfolding dir_split_def
      using common_dir_shift[OF len ok(1) close_start[OF ok(4) 1(4)], of ?c "common_chars ?l ?c"] by simp
    show ?thesis
    proof (cases "dir_split ?l ?c = 0")
      case True2: True
      then have "skip_slash ?l = close_segs SLASH (drop (shared ds cs) ds) @ f"
        "skip_slash ?c = close_segs SLASH (drop (shared ds cs) cs)" using IH by simp_all
      then show ?thesis
        using sp True2 True len skip_slash_id[OF close_start[OF ok(4) 1(4)]] skip_slash_id[OF close_start'[OF ok(5)]]
        by (simp add: skip_slash_def)
    next
      case False
      then show ?thesis using sp True len IH by simp
    qed
  next
    case False
    have "dir_split (d @ SLASH # ?l) (c @ SLASH # ?c) = 0"
      unfolding dir_split_def
      by (rule common_dir_zero) (use both_slash_same[OF ok(2,3)] False in blast)
    then show ?thesis
      using False skip_slash_id[OF close_start[OF 1(2,4)]] skip_slash_id[OF close_start'[OF 1(3)]] by simp
  qed
next
  case (2 cs)
  have "dir_split f (close_segs SLASH cs) = 0"
    unfolding dir_split_def
    by (rule common_dir_zero) (use 2(3) cbyte_free[of SLASH f] in \<open>auto simp: dir_name_def\<close>)
  then show ?case
    using 2 skip_slash_id[OF close_start[of "[]" f]] skip_slash_id[OF close_start'[of cs]] by simp
next
  case (3 ds)
  then show ?case using skip_slash_id[OF close_start[of ds f]]
    by (simp add: dir_split_def skip_slash_def)
qed

section \<open>Building the relative link\<close>

lemma close_append_nochar: "c \<noteq> SLASH \<Longrightarrow> list_all (\<lambda>s. c \<notin> set s) ds \<Longrightarrow> c \<notin> set f \<Longrightarrow> c \<notin> set (close_segs SLASH ds @ f)"
  by (induction ds) auto

lemma dir_names: "list_all dir_name ds \<Longrightarrow> list_all (\<lambda>s. SLASH \<notin> set s) ds" "list_all dir_name ds \<Longrightarrow> list_all (\<lambda>s. CHR ''?'' \<notin> set s) ds"
    "list_all dir_name ds \<Longrightarrow> list_all (\<lambda>s. CHR '':'' \<notin> set s) ds" "list_all dir_name ds \<Longrightarrow> list_all (\<lambda>s. NUL \<notin> set s) ds"
  by (auto simp: list_all_iff dir_name_def)

lemma count_close: "list_all (\<lambda>s. SLASH \<notin> set s) cs \<Longrightarrow> count_list (close_segs SLASH cs) SLASH = length cs"
  by (induction cs) (auto simp: count_list_0_iff)

lemma cut_query_plain: "CHR ''?'' \<notin> set s \<Longrightarrow> q = [] \<or> hd q = CHR ''?'' \<Longrightarrow> cut_query (s @ q) = s"
  by (cases q) (auto simp: cut_query_def takeWhile_free)

lemma curr_path_close: "SLASH \<notin> set g \<Longrightarrow> curr_path (SLASH # close_segs SLASH cs @ g) = SLASH # close_segs SLASH cs"
proof -
  assume g: "SLASH \<notin> set g"
  have "\<exists>u. SLASH # close_segs SLASH cs = u @ [SLASH]"
    by (cases cs rule: rev_cases) (auto intro: exI[of _ "SLASH # close_segs SLASH (butlast cs) @ last cs"])
  then obtain u where u: "SLASH # close_segs SLASH cs = u @ [SLASH]" by blast
  have "dropWhile (\<lambda>c. c \<noteq> SLASH) (rev g @ SLASH # rev u) = SLASH # rev u"
    using g by (subst dropWhile_append2) auto
  then have "curr_path ((u @ [SLASH]) @ g) = u @ [SLASH]" by (simp add: curr_path_def)
  then show ?thesis by (simp flip: u)
qed

definition ups :: "nat \<Rightarrow> cstring" where
  "ups n = concat (replicate n ''../'')"

lemma ups_close: "ups n = close_segs SLASH (replicate n ''..'')"
  by (induction n) (auto simp: ups_def)

lemma length_ups: "length (ups n) = 3 * n"
  by (induction n) (auto simp: ups_def)

lemma length_close_drop: "length (close_segs SLASH (drop k ds)) \<le> length (close_segs SLASH ds)"
  by (metis append_take_drop_id close_segs_simps(3) length_append le_add2)

definition rel_link :: "cstring list \<Rightarrow> cstring list \<Rightarrow> cstring \<Rightarrow> cstring" where
  "rel_link cs ds f = ups (length cs - shared ds cs) @ close_segs SLASH (drop (shared ds cs) ds) @ f"

lemma lienrelatif_eq:
  assumes "list_all dir_name ds" "list_all dir_name cs" "dir_name f" "SLASH \<notin> set g" "CHR ''?'' \<notin> set g"
    "q = [] \<or> hd q = CHR ''?''" and fits: "length (SLASH # close_segs SLASH cs @ g) < HTS_URLMAXSIZE * 2"
  shows "lienrelatif ssize (SLASH # close_segs SLASH ds @ f) (SLASH # close_segs SLASH cs @ g @ q) =
    (if length (rel_link cs ds f) \<ge> ssize then None
     else Some (if length (rel_link cs ds f) \<ge> HTS_URLMAXSIZE then -1 else 0, rel_link cs ds f))"
proof -
  have f: "SLASH \<notin> set f" "CHR ''?'' \<notin> set f" using assms(3) by (simp_all add: dir_name_def)
  have nq: "CHR ''?'' \<notin> set (SLASH # close_segs SLASH ds @ f)" "CHR ''?'' \<notin> set (SLASH # close_segs SLASH cs @ g)"
    using close_append_nochar[OF _ dir_names(2)[OF assms(1)] f(2)] close_append_nochar[OF _ dir_names(2)[OF assms(2)] assms(5)] by auto
  have l: "cut_query (SLASH # close_segs SLASH ds @ f) = SLASH # close_segs SLASH ds @ f"
    using cut_query_plain[OF nq(1), of "[]"] by simp
  have c: "cut_query (SLASH # close_segs SLASH cs @ g @ q) = SLASH # close_segs SLASH cs @ g"
    using cut_query_plain[OF nq(2) assms(6)] by simp
  note sp = dir_split_shared[OF assms(1-3), unfolded dir_split_def]
  have cnt: "count_list (close_segs SLASH (drop (shared ds cs) cs)) SLASH = length cs - shared ds cs"
    using count_close[of "drop (shared ds cs) cs"] dir_names(1)[OF assms(2)] set_drop_subset[of "shared ds cs" cs]
    by (auto simp: list_all_iff)
  have sk: "skip_slash (SLASH # s) = s" for s by (simp add: skip_slash_def)
  show ?thesis
    unfolding lienrelatif_def Let_def l c curr_path_close[OF assms(4)] sk conjunct1[OF sp] conjunct2[OF sp] cnt
      rel_link_def ups_def[symmetric]
    using fits nq(1) by simp
qed

section \<open>Resolving it\<close>

lemma strfield_has: "strfield s p \<noteq> 0 \<Longrightarrow> c \<in> set p \<Longrightarrow> ord c < 65 \<Longrightarrow> c \<in> set s"
proof -
  assume a: "strfield s p \<noteq> 0" "c \<in> set p" "ord c < 65"
  then have "list_all2 streql (take (length p) s) p" by (auto simp: strfield_eq split: if_splits)
  moreover obtain i where "i < length p" "p ! i = c" using a(2) by (auto simp: in_set_conv_nth)
  ultimately have "i < length (take (length p) s)" "streql (take (length p) s ! i) c"
    by (auto simp: list_all2_conv_all_nth)
  with a(3) show ?thesis by (metis streql_punct(2) nth_mem in_set_takeD)
qed

lemma strfield_colon: "CHR '':'' \<notin> set s \<Longrightarrow> CHR '':'' \<in> set p \<Longrightarrow> strfield s p = 0"
  using strfield_has[of s p "CHR '':''"] by auto

lemma dir_steps_push: "list_all dir_name ds \<Longrightarrow> foldl (dir_step True) st ds = st @ ds"
  by (induction ds arbitrary: st) (auto simp: dir_step_def dir_name_def)

lemma dir_steps_pop: "n \<le> length cs \<Longrightarrow> foldl (dir_step True) ([] # cs) (replicate n ''..'') = [] # take (length cs - n) cs"
proof (induction n)
  case (Suc n)
  have "foldl (dir_step True) ([] # cs) (replicate (Suc n) ''..'') =
      dir_step True (foldl (dir_step True) ([] # cs) (replicate n ''..'')) ''..''"
    by (metis foldl_Cons foldl_Nil foldl_append replicate_Suc replicate_append_same)
  also have "\<dots> = dir_step True ([] # take (length cs - n) cs) ''..''" using Suc by simp
  also have "\<dots> = [] # take (length cs - Suc n) cs"
    using Suc.prems by (auto simp: dir_step_def dir_pop_def butlast_take)
  finally show ?case .
qed simp

lemma simplify_rel:
  assumes "list_all dir_name ds" "list_all dir_name cs" "dir_name f" "2 * length cs + length ds < 126"
  shows "fil_simplifie (SLASH # close_segs SLASH cs @ rel_link cs ds f) =
    SLASH # close_segs SLASH (take (shared ds cs) cs @ drop (shared ds cs) ds) @ f"
proof -
  let ?k = "shared ds cs"
  define dirs where "dirs = cs @ replicate (length cs - ?k) ''..'' @ drop ?k ds"
  define p where "p = close_segs SLASH ([] # dirs) @ f"
  have p: "SLASH # close_segs SLASH cs @ rel_link cs ds f = p"
    by (simp add: p_def rel_link_def dirs_def ups_close)
  have dk: "list_all dir_name (drop ?k ds)" using assms(1) set_drop_subset[of ?k ds] by (auto simp: list_all_iff)
  have free: "list_all (\<lambda>s. c \<notin> set s) ([] # dirs)" if "c \<in> {SLASH, CHR ''?'', NUL}" for c
    using that dir_names[OF assms(2)] dir_names[OF dk] unfolding dirs_def list_all_append list.pred_inject(2)
    by (auto simp: list_all_iff)
  have f: "SLASH \<notin> set f" "CHR ''?'' \<notin> set f" "NUL \<notin> set f" "f \<noteq> ''..''" using assms(3) by (simp_all add: dir_name_def)
  have nq: "CHR ''?'' \<notin> set p" unfolding p_def by (rule close_append_nochar) (use free f in auto)
  have ok: "cstr_ok p" unfolding p_def cstr_ok_def by (rule close_append_nochar) (use free f in auto)
  have "count_list p SLASH = length ([] # dirs)"
    unfolding p_def count_list_append using count_close[OF free] f(1) by (simp add: count_list_0_iff)
  then have slashes: "count_list p SLASH < 127" using assms(4) by (simp add: dirs_def)
  have segs: "path_segs p = ([] # dirs) @ [f]"
    unfolding path_segs_def using nq free f(1) unfolding p_def
    by (subst takeWhile_free) (auto simp: list_all_iff intro!: split_on_close)
  have q: "path_query p = []" unfolding path_query_def using nq by (simp add: takeWhile_free)
  have ab: "cbyte p 0 = SLASH" by (simp add: p_def)
  have "foldl (dir_step True) [] ([] # dirs) = [] # take ?k cs @ drop ?k ds"
    using shared_le[of ds cs] dir_steps_pop[of "length cs - ?k" cs]
    by (simp add: dirs_def dir_step_def dir_steps_push[OF assms(2)] dir_steps_push[OF dk] dir_steps_push)
  then have r: "path_reading p = SLASH # close_segs SLASH (take ?k cs @ drop ?k ds) @ f"
    unfolding path_reading_def segs q ab using f(4) by (simp add: stack_path_def Let_def)
  show ?thesis
    unfolding p fil_simplifie_def Let_def path_parts(6)[OF ok slashes] r by simp
qed

section \<open>Properties\<close>

lemma shared_target:
  "same_text (SLASH # close_segs SLASH (take (shared ds cs) cs @ drop (shared ds cs) ds) @ f) (SLASH # close_segs SLASH ds @ f) \<and>
   ((\<forall>d \<in> set ds. \<forall>c \<in> set cs. same_text d c \<longrightarrow> d = c) \<longrightarrow>
      SLASH # close_segs SLASH (take (shared ds cs) cs @ drop (shared ds cs) ds) @ f = SLASH # close_segs SLASH ds @ f)"
proof -
  let ?k = "shared ds cs"
  have split: "SLASH # close_segs SLASH ds @ f = SLASH # close_segs SLASH (take ?k ds @ drop ?k ds) @ f" by simp
  have "same_text (close_segs SLASH (take ?k cs)) (close_segs SLASH (take ?k ds))"
    by (rule same_text_sym[OF same_text_close[OF shared_same]])
  then have "same_text (SLASH # close_segs SLASH (take ?k cs @ drop ?k ds) @ f) (SLASH # close_segs SLASH ds @ f)"
    unfolding split close_segs_simps(3) using same_text_append[of "[SLASH]" "[SLASH]"] same_text_append by simp
  moreover have "take ?k ds = take ?k cs" if "\<forall>d \<in> set ds. \<forall>c \<in> set cs. same_text d c \<longrightarrow> d = c"
  proof -
    have "list_all2 (=) (take ?k ds) (take ?k cs)"
      using shared_same[of ds cs] that by (auto simp: list_all2_conv_all_nth)
    then show ?thesis by (simp add: list.rel_eq)
  qed
  ultimately show ?thesis by (metis append_take_drop_id)
qed

text \<open>
  C15. A saved link survives the way out and back: for two absolute paths of proper names, the
  relative link built by \<open>lienrelatif\<close> from the page at the second to the first is resolved by
  \<open>ident_url_relatif\<close>, on the host of the page, to the first path again, whatever query the page has;
  the directories both paths share are spelled as in the page, so the path is the same up to ASCII
  case, and is exactly the same when no two of their directories differ by case only.
\<close>

theorem lienrelatif_resolves:
  assumes names: "list_all dir_name ds" "list_all dir_name cs" "dir_name f"
    and page: "SLASH \<notin> set g" "CHR ''?'' \<notin> set g" "q = [] \<or> hd q = CHR ''?''"
    and host: "ad \<noteq> []" "length ad < HTS_URLMAXSIZE" "lower_host ad = ad" "hts_isStringAscii (jump_identification ad)"
    and sizes: "2 * length cs + length ds < 126"
      "length (close_segs SLASH cs @ g @ q) + length (close_segs SLASH ds @ f) + 3 * length cs + 2 < HTS_URLMAXSIZE"
  shows "\<exists>s p. lienrelatif (HTS_URLMAXSIZE * 2) (SLASH # close_segs SLASH ds @ f) (SLASH # close_segs SLASH cs @ g @ q) = Some (0, s) \<and>
    ident_url_relatif use_ssl ftp idna s ad (SLASH # close_segs SLASH cs @ g @ q) = Some (Inr \<lparr>adr = ad, fil = p\<rparr>) \<and>
    same_text p (SLASH # close_segs SLASH ds @ f) \<and>
    ((\<forall>d \<in> set ds. \<forall>c \<in> set cs. same_text d c \<longrightarrow> d = c) \<longrightarrow> p = SLASH # close_segs SLASH ds @ f)"
proof -
  let ?k = "shared ds cs" and ?cur = "SLASH # close_segs SLASH cs @ g @ q"
  define s where "s = rel_link cs ds f"
  define p where "p = SLASH # close_segs SLASH (take ?k cs @ drop ?k ds) @ f"
  have len: "length s \<le> 3 * length cs + length (close_segs SLASH ds @ f)"
    using length_close_drop[of ?k ds] by (simp add: s_def rel_link_def length_ups)
  have U: "HTS_URLMAXSIZE = 1024" by (rule HTS_URLMAXSIZE_def)
  have build: "lienrelatif (HTS_URLMAXSIZE * 2) (SLASH # close_segs SLASH ds @ f) ?cur = Some (0, s)"
    using lienrelatif_eq[OF names page] sizes(2) len by (simp add: s_def U)
  have f: "f \<noteq> []" "SLASH \<notin> set f" "CHR '':'' \<notin> set f" "CHR ''?'' \<notin> set f" using names(3) by (simp_all add: dir_name_def)
  have dk: "list_all dir_name (drop ?k ds)" using names(1) set_drop_subset[of ?k ds] by (auto simp: list_all_iff)
  have nc: "c \<notin> set s" if "c \<in> {CHR '':'', CHR ''?''}" for c
    unfolding s_def rel_link_def ups_close append_assoc[symmetric] close_segs_simps(3)[symmetric]
    by (rule close_append_nochar) (use that dir_names[OF dk] f in \<open>auto simp: list_all_iff\<close>)
  have start: "cbyte s 0 \<noteq> SLASH" "s \<noteq> []"
    using close_start[OF dk names(3)] f(1) unfolding s_def rel_link_def ups_close
    by (cases "length cs - ?k"; simp)+
  have first: "cbyte s 0 \<noteq> CHR ''?''" "cbyte (dropWhile isalpha s) 0 \<noteq> CHR '':''"
    using nc cbyte_free[of "CHR ''?''" s 0] cbyte_free[of "CHR '':''" "dropWhile isalpha s" 0]
    by (auto dest: set_dropWhileD)
  have sch: "relative_scheme s ad = (s, ad)" and no: "strfield s p = 0" if "CHR '':'' \<in> set p" for p
    using strfield_colon[of s] nc that by (simp_all add: relative_scheme_def)
  have two: "take 2 s \<noteq> ''//''" using start by (cases s) auto
  have nq: "CHR ''?'' \<notin> set (SLASH # close_segs SLASH cs @ g)"
    using close_append_nochar[OF _ dir_names(2)[OF names(2)] page(2)] by simp
  have cut: "cut_query ?cur = SLASH # close_segs SLASH cs @ g" using cut_query_plain[OF nq page(3)] by simp
  have "relative_fil s ?cur = Some p"
    unfolding relative_fil_def Let_def cut curr_path_close[OF page(1)]
    using start first(1) sizes(2) len simplify_rel[OF names sizes(1)] by (simp add: s_def[symmetric] p_def U)
  then have rel: "relative_url s ad ?cur = Some \<lparr>adr = ad, fil = p\<rparr>"
    using host(2) sizes(2) len sch[of "'':''"] by (simp add: relative_url_def U)
  have id: "idna_host idna ad = Some ad" using host(4) by (simp add: idna_host_def Let_def)
  have resolve: "ident_url_relatif use_ssl ftp idna s ad ?cur = Some (Inr \<lparr>adr = ad, fil = p\<rparr>)"
    unfolding ident_url_relatif_def Let_def using start first two no host(1,3) rel id by simp
  from build resolve shared_target[of ds cs f, folded p_def] show ?thesis by blast
qed

theorem lienrelatif_resolves_witness:
  "\<exists>s p. lienrelatif (HTS_URLMAXSIZE * 2) ''/img/a/logo.png'' ''/img/b/c/page.html?x=/y'' = Some (0, s) \<and>
    ident_url_relatif True True (\<lambda>_. None) s ''www.x.com'' ''/img/b/c/page.html?x=/y'' = Some (Inr \<lparr>adr = ''www.x.com'', fil = p\<rparr>) \<and>
    same_text p ''/img/a/logo.png'' \<and>
    ((\<forall>d \<in> set [''img'', ''a'']. \<forall>c \<in> set [''img'', ''b'', ''c'']. same_text d c \<longrightarrow> d = c) \<longrightarrow> p = ''/img/a/logo.png'')"
proof -
  have "lower_host ''www.x.com'' = ''www.x.com''" "hts_isStringAscii (jump_identification ''www.x.com'')" by code_simp+
  from lienrelatif_resolves[of "[''img'', ''a'']" "[''img'', ''b'', ''c'']" "''logo.png''" "''page.html''" "''?x=/y''"
      "''www.x.com''" True True "\<lambda>_. None", OF _ _ _ _ _ _ _ _ this]
  show ?thesis by (simp add: dir_name_def HTS_URLMAXSIZE_def)
qed


text \<open>
  C27. A relative link is one \<open>../\<close> per level to climb, then the rest of the target; it overflows the
  buffer of the caller, and so aborts the program, exactly when that is not shorter than the buffer.
  Two paths that each fit a URL (\<open>HTS_URLMAXSIZE\<close>) can be enough.
\<close>

theorem lienrelatif_aborts:
  assumes "list_all dir_name ds" and "list_all dir_name cs" and "dir_name f" and "SLASH \<notin> set g" and "CHR ''?'' \<notin> set g"
    and "q = [] \<or> hd q = CHR ''?''" and "length (SLASH # close_segs SLASH cs @ g) < HTS_URLMAXSIZE * 2"
  shows "lienrelatif ssize (SLASH # close_segs SLASH ds @ f) (SLASH # close_segs SLASH cs @ g @ q) = None \<longleftrightarrow>
    ssize \<le> 3 * (length cs - shared ds cs) + (\<Sum>d \<leftarrow> drop (shared ds cs) ds. length d + 1) + length f"
proof -
  have "length (close_segs SLASH xs) = (\<Sum>d \<leftarrow> xs. length d + 1)" for xs :: "cstring list" by (induction xs) auto
  moreover have "length (ups n) = 3 * n" for n unfolding ups_def by (induction n) auto
  ultimately show ?thesis by (simp add: lienrelatif_eq[OF assms] rel_link_def)
qed

definition deep_page :: cstring where
  "deep_page = SLASH # close_segs SLASH (replicate 510 ''a'') @ ''p''"

definition long_name :: cstring where
  "long_name = replicate 600 CHR ''z''"

theorem lienrelatif_aborts_witness:
  "length deep_page < HTS_URLMAXSIZE \<and> length (SLASH # long_name) < HTS_URLMAXSIZE \<and>
   lienrelatif (HTS_URLMAXSIZE * 2) (SLASH # long_name) deep_page = None"
proof -
  have l: "length (close_segs SLASH (replicate n ''a'')) = 2 * n" for n by (induction n) auto
  have n: "list_all dir_name (replicate 510 ''a'')" "dir_name long_name"
    by (auto simp: dir_name_def long_name_def list_all_iff dest: arg_cong[of _ _ length])
  have "length deep_page = 1022" by (simp add: deep_page_def l)
  moreover have "shared [] (replicate 510 ''a'') = 0" by (cases "replicate 510 ''a''") simp_all
  ultimately show ?thesis
    using lienrelatif_aborts[of "[]" "replicate 510 ''a''" long_name "''p''" "[]" "HTS_URLMAXSIZE * 2"] n l[of 510]
    by (simp add: deep_page_def HTS_URLMAXSIZE_def long_name_def)
qed

end
