(* ===== verification/Mime.thy ===== *)
theory Mime
  imports Url UrlNorm
begin

text \<open>
  File types, from \<open>htslib.c\<close>, \<open>htslib.h\<close> and \<open>htsconcat.c\<close>: the extension of a path, the tables of
  MIME types, the types the user declares (\<open>--assume\<close>), and the tests on types.  The empty row that
  ends a table in the code is the end of the list here.  Paths are shorter than the
  \<open>HTS_URLMAXSIZE * 2\<close> bytes of the fields they come from.
\<close>

section \<open>Paths\<close>

definition HTS_MIMETYPE_SIZE :: nat where "HTS_MIMETYPE_SIZE = 128"
definition CATBUFF_SIZE :: nat where "CATBUFF_SIZE = 8192"

definition hts_concat :: "nat \<Rightarrow> cstring \<Rightarrow> cstring \<Rightarrow> cstring" where
  "hts_concat sz a b =
     (if a \<noteq> [] \<and> length a + 1 \<ge> sz then []
      else if b \<noteq> [] \<and> length a + length b + 1 \<ge> sz then a
      else a @ b)"

definition fslash :: "nat \<Rightarrow> cstring \<Rightarrow> cstring" where
  "fslash sz a = map (\<lambda>c. if c = BACKSLASH then CHR ''/'' else c) (hts_concat sz a [])"

definition get_ext :: "nat \<Rightarrow> cstring \<Rightarrow> cstring" where
  "get_ext sz fl =
     (let p = takeWhile (\<lambda>c. c \<noteq> CHR ''?'') fl; ext = rev (takeWhile (\<lambda>c. c \<noteq> CHR ''.'') (rev p)) in
      if CHR ''.'' \<in> set p \<and> ext \<noteq> [] \<and> length ext < sz then ext else [])"

section \<open>Tables\<close>

type_synonym mime_row = "cstring \<times> cstring"

definition hts_mime :: "mime_row list" where
  "hts_mime = [
    (''application/acad'', ''dwg''), (''application/arj'', ''arj''), (''application/clariscad'', ''ccad''),
    (''application/drafting'', ''drw''), (''application/dxf'', ''dxf''), (''application/excel'', ''xls''),
    (''application/i-deas'', ''unv''), (''application/iges'', ''isg''), (''application/iges'', ''iges''),
    (''application/mac-binhex40'', ''hqx''), (''application/mac-compactpro'', ''cpt''),
    (''application/msword'', ''doc''), (''application/msword'', ''w6w''), (''application/msword'', ''word''),
    (''application/mswrite'', ''wri''), (''application/oda'', ''oda''), (''application/pdf'', ''pdf''),
    (''application/postscript'', ''ps''), (''application/postscript'', ''ai''),
    (''application/postscript'', ''eps''), (''application/powerpoint'', ''ppt''), (''application/pro_eng'', ''prt''),
    (''application/pro_eng'', ''part''), (''application/rtf'', ''rtf''), (''application/set'', ''set''),
    (''application/sla'', ''stl''), (''application/smil'', ''smi''), (''application/smil'', ''smil''),
    (''application/smil'', ''sml''), (''application/solids'', ''sol''), (''application/STEP'', ''stp''),
    (''application/STEP'', ''step''), (''application/vda'', ''vda''), (''application/x-authorware-map'', ''aam''),
    (''application/x-authorware-seg'', ''aas''), (''application/x-authorware-bin'', ''aab''),
    (''application/x-bzip2'', ''bz2''), (''application/x-cocoa'', ''cco''), (''application/x-csh'', ''csh''),
    (''application/x-director'', ''dir''), (''application/x-director'', ''dcr''),
    (''application/x-director'', ''dxr''), (''application/x-mif'', ''mif''), (''application/x-dvi'', ''dvi''),
    (''application/x-gzip'', ''gz''), (''application/x-gzip'', ''gzip''), (''application/x-hdf'', ''hdf''),
    (''application/x-javascript'', ''js''), (''application/x-koan'', ''skp''), (''application/x-koan'', ''skd''),
    (''application/x-koan'', ''skt''), (''application/x-koan'', ''skm''), (''application/x-latex'', ''latex''),
    (''application/x-netcdf'', ''nc''), (''application/x-netcdf'', ''cdf''), (''application/x-shar'', ''shar''),
    (''application/x-stuffit'', ''sit''), (''application/x-tcl'', ''tcl''), (''application/x-tex'', ''tex''),
    (''application/x-texinfo'', ''texinfo''), (''application/x-texinfo'', ''texi''),
    (''application/x-troff'', ''t''), (''application/x-troff'', ''tr''), (''application/x-troff'', ''roff''),
    (''application/x-troff-man'', ''man''), (''application/x-troff-me'', ''ms''),
    (''application/x-wais-source'', ''src''), (''application/zip'', ''zip''),
    (''application/x-zip-compressed'', ''zip''), (''application/x-bcpio'', ''bcpio''),
    (''application/x-cdlink'', ''vcd''), (''application/x-cpio'', ''cpio''), (''application/x-gtar'', ''tgz''),
    (''application/x-gtar'', ''gtar''), (''application/x-shar'', ''shar''),
    (''application/x-shockwave-flash'', ''swf''), (''application/x-sv4cpio'', ''sv4cpio''),
    (''application/x-sv4crc'', ''sv4crc''), (''application/x-tar'', ''tar''), (''application/x-ustar'', ''ustar''),
    (''application/x-winhelp'', ''hlp''), (''application/xml'', ''xml''), (''audio/midi'', ''mid''),
    (''audio/midi'', ''midi''), (''audio/midi'', ''kar''), (''audio/mpeg'', ''mp3''), (''audio/mpeg'', ''mpga''),
    (''audio/mpeg'', ''mp2''), (''audio/basic'', ''au''), (''audio/basic'', ''snd''), (''audio/x-aiff'', ''aif''),
    (''audio/x-aiff'', ''aiff''), (''audio/x-aiff'', ''aifc''), (''audio/x-pn-realaudio'', ''rm''),
    (''audio/x-pn-realaudio'', ''ram''), (''audio/x-pn-realaudio'', ''ra''),
    (''audio/x-pn-realaudio-plugin'', ''rpm''), (''audio/x-wav'', ''wav''), (''chemical/x-pdb'', ''pdb''),
    (''chemical/x-pdb'', ''xyz''), (''drawing/x-dwf'', ''dwf''), (''image/gif'', ''gif''), (''image/ief'', ''ief''),
    (''image/jpeg'', ''jpg''), (''image/jpeg'', ''jpe''), (''image/jpeg'', ''jpeg''), (''image/pict'', ''pict''),
    (''image/png'', ''png''), (''image/tiff'', ''tiff''), (''image/tiff'', ''tif''), (''image/svg+xml'', ''svg''),
    (''image/svg-xml'', ''svg''), (''image/x-cmu-raster'', ''ras''), (''image/x-freehand'', ''fh4''),
    (''image/x-freehand'', ''fh7''), (''image/x-freehand'', ''fh5''), (''image/x-freehand'', ''fhc''),
    (''image/x-freehand'', ''fh''), (''image/x-portable-anymap'', ''pnm''), (''image/x-portable-bitmap'', ''pgm''),
    (''image/x-portable-pixmap'', ''ppm''), (''image/x-rgb'', ''rgb''), (''image/x-xbitmap'', ''xbm''),
    (''image/x-xpixmap'', ''xpm''), (''image/x-xwindowdump'', ''xwd''), (''model/mesh'', ''msh''),
    (''model/mesh'', ''mesh''), (''model/mesh'', ''silo''), (''multipart/x-zip'', ''zip''),
    (''multipart/x-gzip'', ''gzip''), (''text/css'', ''css''), (''text/html'', ''html''), (''text/html'', ''htm''),
    (''text/plain'', ''txt''), (''text/plain'', ''g''), (''text/plain'', ''h''), (''text/plain'', ''c''),
    (''text/plain'', ''cc''), (''text/plain'', ''hh''), (''text/plain'', ''m''), (''text/plain'', ''f90''),
    (''text/richtext'', ''rtx''), (''text/tab-separated-values'', ''tsv''), (''text/x-setext'', ''etx''),
    (''text/x-sgml'', ''sgml''), (''text/x-sgml'', ''sgm''), (''text/xml'', ''xml''), (''text/xml'', ''dtd''),
    (''video/mpeg'', ''mpeg''), (''video/mpeg'', ''mpg''), (''video/mpeg'', ''mpe''), (''video/quicktime'', ''qt''),
    (''video/quicktime'', ''mov''), (''video/x-msvideo'', ''avi''), (''video/x-sgi-movie'', ''movie''),
    (''x-conference/x-cooltalk'', ''ice''), (''x-world/x-vrml'', ''wrl''), (''application/envoy'', ''evy''),
    (''application/fractals'', ''fif''), (''application/futuresplash'', ''spl''), (''application/hta'', ''hta''),
    (''application/internet-property-stream'', ''acx''), (''application/msword'', ''dot''),
    (''application/olescript'', ''axs''), (''application/pics-rules'', ''prf''), (''application/pkcs10'', ''p10''),
    (''application/pkix-crl'', ''crl''), (''application/set-payment-initiation'', ''setpay''),
    (''application/set-registration-initiation'', ''setreg''), (''application/vnd.ms-excel'', ''xls''),
    (''application/vnd.ms-excel'', ''xla''), (''application/vnd.ms-excel'', ''xlc''),
    (''application/vnd.ms-excel'', ''xlm''), (''application/vnd.ms-excel'', ''xlt''),
    (''application/vnd.ms-excel'', ''xlw''), (''application/vnd.ms-pkicertstore'', ''sst''),
    (''application/vnd.ms-pkiseccat'', ''cat''), (''application/vnd.ms-powerpoint'', ''ppt''),
    (''application/vnd.ms-powerpoint'', ''pot''), (''application/vnd.ms-powerpoint'', ''pps''),
    (''application/vnd.ms-project'', ''mpp''), (''application/vnd.ms-works'', ''wcm''),
    (''application/vnd.ms-works'', ''wdb''), (''application/vnd.ms-works'', ''wks''),
    (''application/vnd.ms-works'', ''wps''), (''application/vnd.oasis.opendocument.chart'', ''odc''),
    (''application/vnd.oasis.opendocument.database'', ''odb''),
    (''application/vnd.oasis.opendocument.formula'', ''odf''),
    (''application/vnd.oasis.opendocument.graphics'', ''odg''),
    (''application/vnd.oasis.opendocument.graphics-template'', ''otg''),
    (''application/vnd.oasis.opendocument.image'', ''odi''),
    (''application/vnd.oasis.opendocument.presentation'', ''odp''),
    (''application/vnd.oasis.opendocument.presentation-template'', ''otp''),
    (''application/vnd.oasis.opendocument.spreadsheet'', ''ods''),
    (''application/vnd.oasis.opendocument.spreadsheet-template'', ''ots''),
    (''application/vnd.oasis.opendocument.text'', ''odt''),
    (''application/vnd.oasis.opendocument.text-master'', ''odm''),
    (''application/vnd.oasis.opendocument.text-template'', ''ott''),
    (''application/vnd.oasis.opendocument.text-web'', ''oth''),
    (''application/vnd.openxmlformats-officedocument.presentationml.presentation'', ''pptx''),
    (''application/vnd.openxmlformats-officedocument.presentationml.slide'', ''sldx''),
    (''application/vnd.openxmlformats-officedocument.presentationml.slideshow'', ''ppsx''),
    (''application/vnd.openxmlformats-officedocument.presentationml.template'', ''potx''),
    (''application/vnd.openxmlformats-officedocument.spreadsheetml.sheet'', ''xlsx''),
    (''application/vnd.openxmlformats-officedocument.spreadsheetml.template'', ''xltx''),
    (''application/vnd.openxmlformats-officedocument.wordprocessingml.document'', ''docx''),
    (''application/vnd.openxmlformats-officedocument.wordprocessingml.template'', ''dotx''),
    (''application/x-compress'', ''z''), (''application/x-compressed'', ''tgz''),
    (''application/x-internet-signup'', ''ins''), (''application/x-internet-signup'', ''isp''),
    (''application/x-iphone'', ''iii''), (''application/x-javascript'', ''js''),
    (''application/x-msaccess'', ''mdb''), (''application/x-mscardfile'', ''crd''),
    (''application/x-msclip'', ''clp''), (''application/x-msmediaview'', ''m13''),
    (''application/x-msmediaview'', ''m14''), (''application/x-msmediaview'', ''mvb''),
    (''application/x-msmetafile'', ''wmf''), (''application/x-msmoney'', ''mny''),
    (''application/x-mspublisher'', ''pub''), (''application/x-msschedule'', ''scd''),
    (''application/x-msterminal'', ''trm''), (''application/x-perfmon'', ''pma''),
    (''application/x-perfmon'', ''pmc''), (''application/x-perfmon'', ''pml''), (''application/x-perfmon'', ''pmr''),
    (''application/x-perfmon'', ''pmw''), (''application/x-pkcs12'', ''p12''), (''application/x-pkcs12'', ''pfx''),
    (''application/x-pkcs7-certificates'', ''p7b''), (''application/x-pkcs7-certificates'', ''spc''),
    (''application/x-pkcs7-certreqresp'', ''p7r''), (''application/x-pkcs7-mime'', ''p7c''),
    (''application/x-pkcs7-mime'', ''p7m''), (''application/x-pkcs7-signature'', ''p7s''),
    (''application/x-troff-me'', ''me''), (''application/x-x509-ca-cert'', ''cer''),
    (''application/x-x509-ca-cert'', ''crt''), (''application/x-x509-ca-cert'', ''der''),
    (''application/ynd.ms-pkipko'', ''pko''), (''audio/mid'', ''mid''), (''audio/mid'', ''rmi''),
    (''audio/mpeg'', ''mp3''), (''audio/x-mpegurl'', ''m3u''), (''image/bmp'', ''bmp''),
    (''image/cis-cod'', ''cod''), (''image/pipeg'', ''jfif''), (''image/x-cmx'', ''cmx''),
    (''image/x-icon'', ''ico''), (''image/x-portable-bitmap'', ''pbm''), (''message/rfc822'', ''mht''),
    (''message/rfc822'', ''mhtml''), (''message/rfc822'', ''nws''), (''text/css'', ''css''),
    (''text/h323'', ''323''), (''text/html'', ''stm''), (''text/iuls'', ''uls''), (''text/plain'', ''bas''),
    (''text/scriptlet'', ''sct''), (''text/webviewhtml'', ''htt''), (''text/x-component'', ''htc''),
    (''text/x-vcard'', ''vcf''), (''video/mpeg'', ''mp2''), (''video/mpeg'', ''mpa''), (''video/mpeg'', ''mpv2''),
    (''video/x-la-asf'', ''lsf''), (''video/x-la-asf'', ''lsx''), (''video/x-ms-asf'', ''asf''),
    (''video/x-ms-asf'', ''asr''), (''video/x-ms-asf'', ''asx''), (''video/x-ms-wmv'', ''wmv''),
    (''x-world/x-vrml'', ''flr''), (''x-world/x-vrml'', ''vrml''), (''x-world/x-vrml'', ''wrz''),
    (''x-world/x-vrml'', ''xaf''), (''x-world/x-vrml'', ''xof''), (''application/ogg'', ''ogg''),
    (''application/x-java-vm'', ''class''), (''application/x-bittorrent'', ''torrent'')]"

definition hts_mime_modern :: "mime_row list" where
  "hts_mime_modern = [
    (''image/webp'', ''webp''), (''image/avif'', ''avif''), (''image/heic'', ''heic''), (''font/woff'', ''woff''),
    (''font/woff2'', ''woff2''), (''font/ttf'', ''ttf''), (''font/otf'', ''otf''), (''application/json'', ''json''),
    (''application/ld+json'', ''jsonld''), (''application/manifest+json'', ''webmanifest''),
    (''application/wasm'', ''wasm''), (''text/javascript'', ''js''), (''text/javascript'', ''mjs''),
    (''text/markdown'', ''md''), (''video/mp4'', ''mp4''), (''video/webm'', ''webm''), (''video/ogg'', ''ogv''),
    (''video/mp2t'', ''ts''), (''audio/mp4'', ''m4a''), (''audio/aac'', ''aac''), (''audio/ogg'', ''oga''),
    (''audio/opus'', ''opus''), (''audio/flac'', ''flac''), (''audio/webm'', ''weba''),
    (''application/x-7z-compressed'', ''7z''), (''application/x-rar-compressed'', ''rar''),
    (''application/zstd'', ''zst'')]"

definition hts_mime_keep :: "cstring list" where
  "hts_mime_keep = [''application/octet-stream'', ''text/plain'', ''application/xml'', ''text/xml'']"

definition hts_mime_bogus_multiple :: "cstring list" where
  "hts_mime_bogus_multiple = [''application/x-wais-source'']"

definition hts_ext_dynamic :: "cstring list" where
  "hts_ext_dynamic = [''php3'', ''php'', ''php4'', ''php2'', ''cgi'', ''asp'', ''jsp'', ''pl'', ''cfm'', ''nsf'']"

text \<open>The other column of the first row whose column \<open>ext\<close> is the needle; \<open>ext\<close> is true for the extension.\<close>

definition mime_col :: "bool \<Rightarrow> mime_row \<Rightarrow> cstring" where
  "mime_col ext r = (if ext then snd r else fst r)"

fun hts_mime_lookup :: "mime_row list \<Rightarrow> bool \<Rightarrow> cstring \<Rightarrow> cstring option" where
  "hts_mime_lookup [] ext needle = None"
| "hts_mime_lookup (r # rs) ext needle =
     (if strfield2 (mime_col ext r) needle \<noteq> 0 \<and> cbyte (mime_col (\<not> ext) r) 0 \<noteq> CHR ''*''
      then Some (mime_col (\<not> ext) r) else hts_mime_lookup rs ext needle)"

definition mime_tables :: "bool \<Rightarrow> cstring \<Rightarrow> cstring option" where
  "mime_tables ext needle =
     (case hts_mime_lookup hts_mime ext needle of
        Some r \<Rightarrow> Some r
      | None \<Rightarrow> hts_mime_lookup hts_mime_modern ext needle)"

section \<open>Tests on types\<close>

definition HTS_HYPERTEXT_DEFAULT_MIME :: cstring where "HTS_HYPERTEXT_DEFAULT_MIME = ''text/html''"
definition HTS_UNKNOWN_MIME :: cstring where "HTS_UNKNOWN_MIME = ''unknown/unknown''"

definition hts_effective_mime :: "cstring \<Rightarrow> cstring" where
  "hts_effective_mime m = (if strfield2 m HTS_UNKNOWN_MIME \<noteq> 0 then HTS_HYPERTEXT_DEFAULT_MIME else m)"

definition mime_in :: "cstring list \<Rightarrow> cstring \<Rightarrow> bool" where
  "mime_in ms a \<longleftrightarrow> list_ex (\<lambda>m. strfield2 a m \<noteq> 0) ms"

definition is_html_mime_type :: "cstring \<Rightarrow> bool" where
  "is_html_mime_type a = mime_in [''text/html'', ''application/xhtml+xml'', HTS_UNKNOWN_MIME] a"

definition is_javascript_mime_type :: "cstring \<Rightarrow> bool" where
  "is_javascript_mime_type a =
     mime_in [''text/javascript'', ''application/javascript'', ''application/x-javascript'', ''application/ecmascript''] a"

definition is_hypertext_mime_type :: "cstring \<Rightarrow> bool" where
  "is_hypertext_mime_type a \<longleftrightarrow>
     is_html_mime_type a \<or> is_javascript_mime_type a \<or>
     mime_in [''text/css'', ''image/svg+xml'', ''image/svg-xml'', ''application/x-authorware-map''] a"

definition may_be_hypertext_mime_type :: "cstring \<Rightarrow> bool" where
  "may_be_hypertext_mime_type a = mime_in [''audio/x-pn-realaudio'', ''audio/x-mpegurl''] a"

section \<open>Types declared by the user\<close>

text \<open>
  The text of the declarations, one per line: items separated by spaces, then \<open>=type\<close>.  \<open>item_scan\<close>
  compares one item, \<open>def_items\<close> the items of a line (\<open>Inl\<close> the type, \<open>Inr\<close> where it stopped),
  \<open>def_lines\<close> the lines, and \<open>user_loop\<close> does it for every shorter path of the file.
\<close>

definition def_stop :: "char \<Rightarrow> bool" where
  "def_stop c \<longleftrightarrow> c = LF \<or> c = CHR ''=''"

fun item_scan :: "cstring \<Rightarrow> cstring \<Rightarrow> cstring \<times> cstring" where
  "item_scan (m # ms) (s # ss) =
     (if m \<noteq> CHR '' '' \<and> \<not> def_stop m \<and> m = s then item_scan ms ss else (m # ms, s # ss))"
| "item_scan ms ss = (ms, ss)"

definition item_skip :: "cstring \<Rightarrow> cstring" where
  "item_skip m =
     (let m = dropWhile (\<lambda>c. \<not> def_stop c \<and> c \<noteq> CHR '' '') m in if cbyte m 0 = CHR '' '' then tl m else m)"

lemma item_scan_suffix: "suffix (fst (item_scan m s)) m"
  by (induction m s rule: item_scan.induct) (auto intro: suffix_ConsI)

lemma item_skip_suffix: "suffix (item_skip m) m"
  unfolding item_skip_def Let_def
  by (auto simp: suffix_dropWhile intro: suffix_order.trans[OF suffix_tl suffix_dropWhile])

lemma item_skip_progress: "item_skip m \<noteq> [] \<Longrightarrow> \<not> def_stop (hd (item_skip m)) \<Longrightarrow> length (item_skip m) < length m"
proof -
  define d where "d = dropWhile (\<lambda>c. \<not> def_stop c \<and> c \<noteq> CHR '' '') m"
  have sk: "item_skip m = (if cbyte d 0 = CHR '' '' then tl d else d)" by (simp add: item_skip_def d_def)
  have len: "length d \<le> length m" unfolding d_def by (rule length_dropWhile_le)
  assume a: "item_skip m \<noteq> []" "\<not> def_stop (hd (item_skip m))"
  then have ne: "d \<noteq> []" using sk by (auto split: if_splits)
  then have "def_stop (hd d) \<or> hd d = CHR '' ''"
    using hd_dropWhile[of "\<lambda>c. \<not> def_stop c \<and> c \<noteq> CHR '' ''" m] unfolding d_def by blast
  with a(2) have "item_skip m = tl d" unfolding sk using ne by (cases d) (auto split: if_splits)
  with ne len show ?thesis by (cases d) auto
qed

definition item_hit :: "cstring \<Rightarrow> cstring \<Rightarrow> bool" where
  "item_hit m s \<longleftrightarrow> (cbyte m 0 = CHR ''='' \<or> cbyte m 0 = CHR '' '') \<and> s = []"

definition item_end :: "cstring \<Rightarrow> cstring \<Rightarrow> cstring" where
  "item_end m s = (if item_hit m s then dropWhile (\<lambda>c. \<not> def_stop c) m else m)"

lemma item_end_suffix: "suffix (item_end m s) m"
  by (simp add: item_end_def suffix_dropWhile)

function def_items :: "cstring \<Rightarrow> cstring \<Rightarrow> cstring + cstring" where
  "def_items seg m =
     (let (m', s') = item_scan m seg; e = item_end m' s' in
      if item_hit m' s' \<and> cbyte e 0 = CHR ''='' then Inl (takeWhile (\<lambda>c. c \<noteq> LF) (tl e))
      else if item_skip e = [] \<or> def_stop (hd (item_skip e)) then Inr (item_skip e)
      else def_items seg (item_skip e))"
  by pat_completeness auto
termination
proof (relation "measure (\<lambda>(seg, m). length m)", goal_cases)
  case (2 seg m p m' s' e)
  then have m: "suffix m' m" using item_scan_suffix[of m seg] by (metis fst_conv)
  have e: "length e \<le> length m"
    using suffix_length_le[OF item_end_suffix[of m' s']] suffix_length_le[OF m] 2(3) by simp
  have "length (item_skip e) < length e" using 2(5) item_skip_progress by blast
  with e show ?case by simp
qed simp

declare def_items.simps [simp del]

lemma def_items_suffix: "def_items seg m = Inr r \<Longrightarrow> suffix r m"
proof (induction seg m rule: def_items.induct)
  case (1 seg m)
  obtain m' s' where sc: "item_scan m seg = (m', s')" by fastforce
  define e where "e = item_end m' s'"
  have s: "suffix (item_skip e) m"
    using item_scan_suffix[of m seg] item_end_suffix[of m' s'] item_skip_suffix[of e] sc
    unfolding e_def by (metis fst_conv suffix_order.trans)
  consider "r = item_skip e" | "def_items seg (item_skip e) = Inr r" "\<not> (item_hit m' s' \<and> cbyte e 0 = CHR ''='')"
      "\<not> (item_skip e = [] \<or> def_stop (hd (item_skip e)))"
    using 1(2) unfolding def_items.simps[of seg m] sc Let_def prod.case e_def[symmetric]
    by (cases "item_hit m' s' \<and> cbyte e 0 = CHR ''=''"; cases "item_skip e = [] \<or> def_stop (hd (item_skip e))") auto
  then show ?case
  proof cases
    case 2
    from 1(1)[OF sc[symmetric] refl e_def 2(2,3,1)] s show ?thesis by (rule suffix_order.trans)
  qed (use s in simp)
qed

function def_lines :: "cstring \<Rightarrow> cstring \<Rightarrow> cstring option" where
  "def_lines seg m =
     (if m = [] then None
      else
        (case def_items seg (if hd m = LF then tl m else m) of
           Inl v \<Rightarrow> Some v
         | Inr r \<Rightarrow> def_lines seg (dropWhile (\<lambda>c. c \<noteq> LF) r)))"
  by pat_completeness auto
termination
proof (relation "measure (\<lambda>(seg, m). length m)", goal_cases)
  case (2 seg m r)
  define m' where "m' = (if hd m = LF then tl m else m)"
  have suf: "suffix r m'" using def_items_suffix 2(2) by (simp add: m'_def)
  have d: "length (dropWhile (\<lambda>c. c \<noteq> LF) r) \<le> length r" by (rule length_dropWhile_le)
  note l = suffix_length_le[OF suf]
  show ?case
  proof (cases "hd m = LF")
    case True
    then show ?thesis using d l 2(1) by (cases m) (simp_all add: m'_def)
  next
    case False
    show ?thesis
    proof (cases "r = m")
      case True
      then show ?thesis using False 2(1) length_dropWhile_less[of "\<lambda>c. c \<noteq> LF" "hd m" "tl m"] by (cases m) simp_all
    next
      case ne: False
      then have "length r < length m" using suf l False suffix_length_inj[OF suf, of m] by (auto simp: m'_def le_less)
      then show ?thesis using d by simp
    qed
  qed
qed simp

declare def_lines.simps [simp del]

lemma strchr_length: "strchr s c = Some r \<Longrightarrow> length r \<le> length s"
  using length_dropWhile_le[of "\<lambda>x. x \<noteq> c" s]
  by (cases "dropWhile (\<lambda>x. x \<noteq> c) s") (auto simp: strchr_def)

function user_loop :: "cstring \<Rightarrow> cstring \<Rightarrow> cstring option" where
  "user_loop mimedefs fl =
     (case def_lines (tl fl) mimedefs of
        Some v \<Rightarrow> Some v
      | None \<Rightarrow>
          (case strchr (tl fl) CHR ''/'' of
             Some nx \<Rightarrow> user_loop mimedefs nx
           | None \<Rightarrow>
               (case strchr (tl fl) CHR ''.'' of
                  Some nx \<Rightarrow> user_loop mimedefs nx
                | None \<Rightarrow> None)))"
  by pat_completeness auto
termination
proof (relation "measure (\<lambda>(mimedefs, fl). length fl)", goal_cases)
  case (2 mimedefs fl nx)
  have "length nx \<le> length (tl fl)" using 2 strchr_length[of "tl fl" _ nx] by blast
  moreover have "fl \<noteq> []" using 2 by (cases fl) (simp_all add: strchr_def)
  ultimately show ?case by (cases fl) simp_all
next
  case (3 mimedefs fl nx)
  have "length nx \<le> length (tl fl)" using 3 strchr_length[of "tl fl" _ nx] by blast
  moreover have "fl \<noteq> []" using 3 by (cases fl) (simp_all add: strchr_def)
  ultimately show ?case by (cases fl) simp_all
qed simp

declare user_loop.simps [simp del]

definition get_userhttptype :: "cstring \<Rightarrow> nat \<Rightarrow> cstring \<Rightarrow> cstring option" where
  "get_userhttptype mimedefs ssize fl =
     (if fl = [] \<or> mimedefs = [] then None
      else map_option (take (ssize - 1)) (user_loop mimedefs fl))"

definition is_userknowntype :: "cstring \<Rightarrow> cstring \<Rightarrow> int" where
  "is_userknowntype mimedefs fl =
     (case get_userhttptype mimedefs 1024 fl of
        None \<Rightarrow> 0
      | Some mime \<Rightarrow> if mime = [] then 0 else if is_html_mime_type mime then 2 else 1)"

fun known_rows :: "mime_row list \<Rightarrow> cstring \<Rightarrow> int option" where
  "known_rows [] ext = None"
| "known_rows (r # rs) ext =
     (if strfield2 (snd r) ext \<noteq> 0 then Some (if is_html_mime_type (fst r) then 2 else 1) else known_rows rs ext)"

definition is_knowntype :: "cstring \<Rightarrow> cstring \<Rightarrow> int" where
  "is_knowntype mimedefs fl =
     (case known_rows hts_mime (get_ext CATBUFF_SIZE fl) of
        Some k \<Rightarrow> k
      | None \<Rightarrow> is_userknowntype mimedefs fl)"

definition is_dyntype :: "cstring \<Rightarrow> bool" where
  "is_dyntype fl \<longleftrightarrow> fl \<noteq> [] \<and> list_ex (\<lambda>e. strfield2 e fl \<noteq> 0) hts_ext_dynamic"

section \<open>The type of a path\<close>

definition ishtml_ext :: "cstring \<Rightarrow> int" where
  "ishtml_ext a =
     (if list_ex (\<lambda>e. strfield2 a e \<noteq> 0)
           [''html'', ''htm'', ''shtml'', ''phtml'', ''htmlx'', ''shtm'', ''phtm'', ''htmx'']
      then 1 else -1)"

text \<open>The path from its last dot on, when no slash follows it.\<close>

definition dotted :: "cstring \<Rightarrow> cstring option" where
  "dotted fl =
     (let e = takeWhile (\<lambda>c. c \<noteq> CHR ''.'' \<and> c \<noteq> CHR ''/'') (rev fl); n = length fl - length e in
      if n > 0 \<and> fl ! (n - 1) = CHR ''.'' then Some (drop (n - 1) fl) else None)"

definition ishtml :: "cstring \<Rightarrow> cstring \<Rightarrow> int" where
  "ishtml mimedefs fl =
     (let noquery = takeWhile (\<lambda>c. c \<noteq> CHR ''?'') fl in
      case get_userhttptype mimedefs 256 noquery of
        Some mime \<Rightarrow> if is_html_mime_type mime then 1 else 0
      | None \<Rightarrow>
          if noquery = [] then -2
          else
            (case dotted noquery of
               None \<Rightarrow> -2
             | Some d \<Rightarrow>
                 let ret = ishtml_ext (take HTS_URLMAXSIZE (tl d)) in
                 if ret = -1 then
                   (let k = is_knowntype mimedefs d in if k = 1 then 0 else if k = 2 then 1 else -1)
                 else ret))"

text \<open>The outer \<open>None\<close> is the abort of a bounded copy.\<close>

definition get_httptype_sized :: "cstring \<Rightarrow> nat \<Rightarrow> cstring \<Rightarrow> bool \<Rightarrow> cstring option option" where
  "get_httptype_sized mimedefs ssize fl flag =
     (case get_userhttptype mimedefs ssize fl of
        Some s \<Rightarrow> Some (if s \<noteq> [] then Some s else None)
      | None \<Rightarrow>
          if ishtml mimedefs fl = 1 then (if ssize > 9 then Some (Some ''text/html'') else None)
          else
            (case dotted fl of
               Some d \<Rightarrow>
                 if length d < 32 then
                   (case mime_tables True (tl d) of
                      Some m \<Rightarrow> if length m < ssize then Some (Some m) else None
                    | None \<Rightarrow> Some (if flag then Some (take (ssize - 1) (''application/'' @ tl d)) else None))
                 else if flag then (if ssize > 24 then Some (Some ''application/octet-stream'') else None)
                 else Some None
             | None \<Rightarrow>
                 if flag then (if ssize > 24 then Some (Some ''application/octet-stream'') else None)
                 else Some None))"

definition guess_httptype_sized :: "cstring \<Rightarrow> nat \<Rightarrow> cstring \<Rightarrow> cstring option option" where
  "guess_httptype_sized mimedefs ssize fl = get_httptype_sized mimedefs ssize fl True"

definition give_mimext :: "nat \<Rightarrow> cstring \<Rightarrow> cstring option option" where
  "give_mimext ssize st =
     (let st = hts_effective_mime st; fit = (\<lambda>e. if length e < ssize then Some (Some e) else None) in
      case mime_tables False st of
        Some e \<Rightarrow> fit e
      | None \<Rightarrow>
          let p = (if strfield st ''application/x-'' \<noteq> 0 then strfield st ''application/x-'' else strfield st ''application/'') in
          if p \<noteq> 0 \<and> 1 \<le> length (drop p st) \<and> length (drop p st) \<le> 4 then fit (drop p st) else Some None)"

section \<open>Hypertext\<close>

text \<open>The type the path suggests, for a declared type that says nothing (a buffer of 256 bytes).\<close>

definition guessed_mime :: "cstring \<Rightarrow> cstring \<Rightarrow> cstring option" where
  "guessed_mime mimedefs fl = (case guess_httptype_sized mimedefs 256 fl of None \<Rightarrow> None | Some g \<Rightarrow> g)"

definition may_unknown :: "cstring \<Rightarrow> bool" where
  "may_unknown st \<longleftrightarrow> may_be_hypertext_mime_type st \<or> mime_in hts_mime_keep st"

definition is_hypertext_mime :: "cstring \<Rightarrow> cstring \<Rightarrow> cstring \<Rightarrow> bool" where
  "is_hypertext_mime mimedefs mime fl \<longleftrightarrow>
     is_hypertext_mime_type mime \<or>
     (may_unknown mime \<and> (case guessed_mime mimedefs fl of None \<Rightarrow> False | Some g \<Rightarrow> is_hypertext_mime_type g))"

definition is_javascript_mime :: "cstring \<Rightarrow> cstring \<Rightarrow> cstring \<Rightarrow> bool" where
  "is_javascript_mime mimedefs mime fl \<longleftrightarrow>
     is_javascript_mime_type mime \<or>
     (fl \<noteq> [] \<and> may_unknown mime \<and> (case guessed_mime mimedefs fl of None \<Rightarrow> False | Some g \<Rightarrow> is_javascript_mime_type g))"

definition may_be_hypertext_mime :: "cstring \<Rightarrow> cstring \<Rightarrow> cstring \<Rightarrow> bool" where
  "may_be_hypertext_mime mimedefs mime fl \<longleftrightarrow>
     may_be_hypertext_mime_type mime \<or>
     (fl \<noteq> [] \<and> may_unknown mime \<and> (case guessed_mime mimedefs fl of None \<Rightarrow> False | Some g \<Rightarrow> may_be_hypertext_mime_type g))"

definition compare_mime :: "cstring \<Rightarrow> cstring \<Rightarrow> cstring \<Rightarrow> cstring \<Rightarrow> bool" where
  "compare_mime mimedefs mime fl reference =
     (if is_hypertext_mime_type mime \<or> may_be_hypertext_mime_type mime then strfield2 mime reference \<noteq> 0
      else fl \<noteq> [] \<and> may_unknown mime \<and>
        (case guessed_mime mimedefs fl of None \<Rightarrow> False | Some g \<Rightarrow> strfield2 g reference \<noteq> 0))"

text \<open>A multiple extension such as \<open>src.rpm\<close> that a server reads as the type of its middle part.\<close>

fun bogus_ext :: "cstring \<Rightarrow> char \<Rightarrow> cstring \<Rightarrow> bool" where
  "bogus_ext ext prev [] = False"
| "bogus_ext ext prev (c # s) =
     ((prev = CHR ''.'' \<and> length ext \<le> length (c # s) \<and> strcaseeq (take (length ext) (c # s)) ext \<and>
       cbyte (c # s) (length ext) \<in> {NUL, CHR ''.'', CHR ''?''}) \<or> bogus_ext ext c s)"

definition strrchr :: "cstring \<Rightarrow> char \<Rightarrow> cstring option" where
  "strrchr s c = (if c \<in> set s then Some (c # rev (takeWhile (\<lambda>x. x \<noteq> c) (rev s))) else None)"

definition may_bogus_multiple :: "cstring \<Rightarrow> cstring \<Rightarrow> bool" where
  "may_bogus_multiple mime filename \<longleftrightarrow>
     mime_in hts_mime_bogus_multiple mime \<and>
     (case give_mimext 64 mime of
        Some (Some ext) \<Rightarrow> (case strrchr filename CHR ''/'' of None \<Rightarrow> False | Some f \<Rightarrow> bogus_ext ext NUL f)
      | _ \<Rightarrow> False)"

definition may_unknown2 :: "cstring \<Rightarrow> cstring \<Rightarrow> bool" where
  "may_unknown2 mime filename \<longleftrightarrow> may_unknown mime \<or> may_bogus_multiple mime filename"

end
