(* ===== verification/Wizard.thy ===== *)
theory Wizard
  imports LinkTools Mime Filters Robots
begin

text \<open>
  The link wizard of \<open>htswizard.c\<close>: whether a link found in a page is followed, and the filters that
  the answers to its questions leave behind.  \<open>httrackp\<close> has the fields of the option record that the
  wizard reads and writes, \<open>wiz_env\<close> what it calls outside: the link table (over the coucal hash
  tables), the callbacks of the front end and the outcome of allocations.  Log messages are left out.
  Paths and addresses are shorter than the \<open>HTS_URLMAXSIZE * 2\<close> bytes of the fields they come from.
  \<open>None\<close> is an abort of the program (a bounded copy, or no room for one more filter).
\<close>

section \<open>Options and links\<close>

datatype hts_wizard = HTS_WIZARD_NONE | HTS_WIZARD_ASK | HTS_WIZARD_AUTO

datatype hts_robots = HTS_ROBOTS_NEVER | HTS_ROBOTS_SOMETIMES | HTS_ROBOTS_ALWAYS | HTS_ROBOTS_ALWAYS_STRICT

definition HTS_GETMODE_NONHTML :: int where "HTS_GETMODE_NONHTML = 2"
definition HTS_SEEKER_DOWN :: int where "HTS_SEEKER_DOWN = 1"
definition HTS_SEEKER_UP :: int where "HTS_SEEKER_UP = 2"
definition HTS_TRAVEL_SAME_ADDRESS :: int where "HTS_TRAVEL_SAME_ADDRESS = 0"
definition HTS_TRAVEL_SAME_DOMAIN :: int where "HTS_TRAVEL_SAME_DOMAIN = 1"
definition HTS_TRAVEL_SAME_TLD :: int where "HTS_TRAVEL_SAME_TLD = 2"
definition HTS_TRAVEL_EVERYWHERE :: int where "HTS_TRAVEL_EVERYWHERE = 7"
definition HTS_TRAVEL_TEST_ALL :: int where "HTS_TRAVEL_TEST_ALL = 256"
definition HTS_TRAVEL_SCOPE_MASK :: int where "HTS_TRAVEL_SCOPE_MASK = 255"

record lien_url =
  l_adr :: cstring
  l_fil :: cstring
  depth :: int
  premier :: nat
  precedent :: nat
  link_import :: bool

record httrackp =
  liens :: "lien_url list"
  nearlink :: bool
  getmode :: int
  wizard :: hts_wizard
  travel :: int
  seeker :: int
  extdepth :: int
  mirror_first_page :: bool
  robots :: hts_robots
  robotsptr :: "robots_wizard list"
  filters :: "cstring list"
  maxfilter :: int
  wizard_filters :: nat
  upper_links_refused :: bool
  mimedefs :: cstring
  host_alias :: cstring
  urlhack :: bool
  no_www_dedup :: bool

record wiz_env =
  known :: "cstring \<Rightarrow> cstring \<Rightarrow> bool"
  query3 :: "cstring \<Rightarrow> cstring"
  check_link :: "cstring \<Rightarrow> cstring \<Rightarrow> int \<Rightarrow> int"
  check_mime :: "cstring \<Rightarrow> cstring \<Rightarrow> cstring \<Rightarrow> int \<Rightarrow> int"
  calloc_ok :: bool
  realloc_ok :: bool

abbreviation heap :: "httrackp \<Rightarrow> nat \<Rightarrow> lien_url" where
  "heap opt n \<equiv> liens opt ! n"

definition hts_host_alias_rules :: "httrackp \<Rightarrow> cstring option" where
  "hts_host_alias_rules opt = (if host_alias opt \<noteq> [] then Some (host_alias opt) else None)"

definition hts_host_alias_collapse_www :: "httrackp \<Rightarrow> bool" where
  "hts_host_alias_collapse_www opt \<longleftrightarrow> urlhack opt \<and> \<not> no_www_dedup opt"

section \<open>Tags\<close>

definition isalnum :: "char \<Rightarrow> bool" where
  "isalnum c \<longleftrightarrow> isalpha c \<or> isdigit c"

definition hts_cmp_tag_token :: "cstring option \<Rightarrow> cstring \<Rightarrow> bool" where
  "hts_cmp_tag_token tag cmp =
     (case tag of
        None \<Rightarrow> False
      | Some t \<Rightarrow> length cmp \<le> length t \<and> strcaseeq (take (length cmp) t) cmp \<and> \<not> isalnum (cbyte t (length cmp)))"

definition hts_detect_embed :: "(cstring \<times> cstring) list" where
  "hts_detect_embed = [(''img'', ''src''), (''link'', ''href''), (''script'', ''.src''), (''style'', ''import'')]"

definition hts_detect_embed_html5 :: "(cstring \<times> cstring) list" where
  "hts_detect_embed_html5 =
     [(''source'', ''src''), (''source'', ''srcset''), (''track'', ''src''),
      (''img'', ''srcset''), (''img'', ''data-srcset''), (''img'', ''data-src'')]"

definition is_embed_pair :: "(cstring \<times> cstring) list \<Rightarrow> cstring option \<Rightarrow> cstring option \<Rightarrow> bool" where
  "is_embed_pair table tag attribute =
     list_ex (\<lambda>(t, a). hts_cmp_tag_token tag t \<and> hts_cmp_tag_token attribute a) table"

section \<open>The filters of an answer\<close>

definition HTS_WIZARD_SCOPE_INCLUDE :: int where "HTS_WIZARD_SCOPE_INCLUDE = 1000"
definition HTS_WIZARD_SCOPE_EXCLUDE :: int where "HTS_WIZARD_SCOPE_EXCLUDE = 2000"
definition HTS_WIZARD_MAX_FILTERS :: nat where "HTS_WIZARD_MAX_FILTERS = 2"
definition HTS_WIZARD_FILTER_SUFFIX :: cstring where "HTS_WIZARD_FILTER_SUFFIX = ''*[file]''"
definition HTS_FILTER_SLOT_SIZE :: nat where
  "HTS_FILTER_SLOT_SIZE = 1 + (HTS_URLMAXSIZE * 2 - 1) + 1 + (HTS_URLMAXSIZE * 2 - 1) + 8"
definition HTS_FILTERSINC :: int where "HTS_FILTERSINC = 1000"
definition HTS_FILTERS_MAX :: int where
  "HTS_FILTERS_MAX = 2147483647 div int HTS_FILTER_SLOT_SIZE - HTS_FILTERSINC - 2"
definition HTS_FILTER_MAXLEN :: nat where
  "HTS_FILTER_MAXLEN = min (HTS_FILTER_SLOT_SIZE - 1) STRJOKER_MAXLEN"

definition wizard_cat_host :: "cstring \<Rightarrow> cstring \<Rightarrow> cstring" where
  "wizard_cat_host sign ad = sign @ jump_identification ad"

definition wizard_cat_path :: "cstring \<Rightarrow> cstring \<Rightarrow> cstring \<Rightarrow> nat \<Rightarrow> cstring" where
  "wizard_cat_path sign ad fl ln =
     wizard_cat_host sign ad @ (if cbyte fl 0 \<noteq> CHR ''/'' then ''/'' else []) @ take ln fl"

definition hts_wizard_prompt_url :: "nat \<Rightarrow> cstring \<Rightarrow> cstring \<Rightarrow> cstring" where
  "hts_wizard_prompt_url dstsize ad fl =
     take (dstsize - 1) (ad @ (if cbyte fl 0 \<noteq> CHR ''/'' then ''/'' else []) @ fl)"

text \<open>The labels left when \<open>k\<close> leading ones are dropped.\<close>

fun drop_labels :: "nat \<Rightarrow> cstring \<Rightarrow> cstring option" where
  "drop_labels 0 scope = Some scope"
| "drop_labels (Suc k) scope =
     (if CHR ''.'' \<in> set scope then drop_labels k (tl (dropWhile (\<lambda>c. c \<noteq> CHR ''.'') scope)) else None)"

definition hts_wizard_host_scope :: "cstring \<Rightarrow> int \<Rightarrow> nat \<Rightarrow> cstring option" where
  "hts_wizard_host_scope question k dstsize =
     (let host = jump_identification question;
          hostpart = takeWhile (\<lambda>c. c \<noteq> CHR ''/'') host;
          n = (case jump_toport question of
                 Some port \<Rightarrow> min (length host - length port) (length hostpart)
               | None \<Rightarrow> length hostpart);
          n = (if n > 0 \<and> host ! (n - 1) = CHR ''.'' then n - 1 else n)
      in if k < 0 \<or> dstsize = 0 \<or> n = 0 \<or> cbyte host 0 = CHR ''['' \<or> hts_host_is_ipv4 (take n host) then None
         else
           case drop_labels (nat k) (take n host) of
             None \<Rightarrow> None
           | Some scope \<Rightarrow>
               let dst = drop (n - length scope) hostpart in
               if CHR ''.'' \<notin> set scope \<or> length dst \<ge> dstsize then None else Some dst)"

text \<open>\<open>Some True\<close> excludes the scope, \<open>Some False\<close> includes it.\<close>

definition hts_wizard_scope_answer :: "int \<Rightarrow> bool option" where
  "hts_wizard_scope_answer n =
     (if n \<ge> HTS_WIZARD_SCOPE_EXCLUDE then Some True
      else if n \<ge> HTS_WIZARD_SCOPE_INCLUDE then Some False else None)"

definition wizard_answer_scope :: "cstring \<Rightarrow> int \<Rightarrow> nat \<Rightarrow> cstring option" where
  "wizard_answer_scope ad n dstsize =
     hts_wizard_host_scope ad
       (n - (if hts_wizard_scope_answer n = Some True then HTS_WIZARD_SCOPE_EXCLUDE else HTS_WIZARD_SCOPE_INCLUDE)) dstsize"

definition wizard_cat_scope :: "cstring \<Rightarrow> cstring \<Rightarrow> int \<Rightarrow> nat \<Rightarrow> cstring" where
  "wizard_cat_scope sign ad n slot =
     (if slot \<ge> HTS_WIZARD_MAX_FILTERS then []
      else
        case wizard_answer_scope ad n HTS_URLMAXSIZE of
          None \<Rightarrow> if slot = 0 then wizard_cat_host sign ad @ ''/*'' else []
        | Some scope \<Rightarrow> sign @ (if slot = 0 then ''*.'' else []) @ scope @ ''/*'')"

text \<open>The offset of the last slash of the path, or 0.\<close>

definition last_slash :: "cstring \<Rightarrow> nat" where
  "last_slash fl = length fl - 1 - length (takeWhile (\<lambda>c. c \<noteq> CHR ''/'') (rev fl))"

definition hts_wizard_answer_filter :: "nat \<Rightarrow> int \<Rightarrow> cstring \<Rightarrow> cstring \<Rightarrow> bool \<Rightarrow> cstring" where
  "hts_wizard_answer_filter slot n ad fl seeker_up =
     (let dir = last_slash fl; slash = (cbyte fl dir = CHR ''/'') in
      case hts_wizard_scope_answer n of
        Some excl \<Rightarrow> wizard_cat_scope (if excl then ''-'' else ''+'') ad n slot
      | None \<Rightarrow>
          if slot \<noteq> 0 then []
          else if n = 0 \<or> n = -999 then wizard_cat_path ''-'' ad fl (length fl)
          else if n = 1 then
            (if slash then
               let f = wizard_cat_path ''-'' ad fl dir in (if last f \<noteq> CHR ''/'' then f @ ''/'' else f) @ ''*''
             else [])
          else if n = 2 then wizard_cat_host ''-'' ad @ ''/*''
          else if n = 5 then
            (if \<not> seeker_up then (if slash then wizard_cat_path ''+'' ad fl (dir + 1) @ ''*'' else [])
             else wizard_cat_host ''+'' ad @ ''/*'')
          else if n = 6 then wizard_cat_host ''+'' ad @ ''/*''
          else if n = 7 then
            (if slash then wizard_cat_path ''+'' ad fl (dir + 1) @ HTS_WIZARD_FILTER_SUFFIX else [])
          else [])"

text \<open>The filter array: growing it, and inserting a rule.\<close>

definition filters_may_grow :: "int \<Rightarrow> bool" where
  "filters_may_grow mxfilter \<longleftrightarrow> mxfilter \<le> HTS_FILTERS_MAX"

definition filters_grow :: "bool \<Rightarrow> httrackp \<Rightarrow> nat \<Rightarrow> httrackp option" where
  "filters_grow more_ok opt n =
     (if int (length (filters opt) + n) \<ge> maxfilter opt \<and> filters_may_grow (maxfilter opt) then
        (if more_ok then Some (opt\<lparr>maxfilter := maxfilter opt + HTS_FILTERSINC\<rparr>) else None)
      else Some opt)"

definition filters_insert :: "httrackp \<Rightarrow> nat \<Rightarrow> cstring \<Rightarrow> (httrackp \<times> bool) option" where
  "filters_insert opt pos pattern =
     (if pos > length (filters opt) then None
      else if length pattern > HTS_FILTER_MAXLEN then Some (opt, False)
      else if int (length (filters opt) + 1) \<ge> maxfilter opt then Some (opt, False)
      else Some (opt\<lparr>filters := take pos (filters opt) @ pattern # drop pos (filters opt)\<rparr>, True))"

definition filters_remove :: "httrackp \<Rightarrow> nat \<Rightarrow> nat \<Rightarrow> httrackp option" where
  "filters_remove opt pos n =
     (if pos + n > length (filters opt) then None
      else Some (opt\<lparr>filters := take pos (filters opt) @ drop (pos + n) (filters opt)\<rparr>))"

fun insert_slots :: "httrackp \<Rightarrow> nat \<Rightarrow> cstring list \<Rightarrow> (httrackp \<times> nat) option" where
  "insert_slots opt inserted [] = Some (opt, inserted)"
| "insert_slots opt inserted (f # fs) =
     (if f = [] then Some (opt, inserted)
      else
        (case filters_insert opt (wizard_filters opt) f of
           None \<Rightarrow> None
         | Some (opt, ok) \<Rightarrow>
             if ok then insert_slots (opt\<lparr>wizard_filters := wizard_filters opt + 1\<rparr>) (inserted + 1) fs
             else insert_slots opt inserted fs))"

definition hts_wizard_insert_filters :: "bool \<Rightarrow> httrackp \<Rightarrow> int \<Rightarrow> cstring \<Rightarrow> cstring \<Rightarrow> bool \<Rightarrow> (httrackp \<times> nat) option" where
  "hts_wizard_insert_filters more_ok opt n ad fl seeker_up =
     (case filters_grow more_ok opt 2 of
        None \<Rightarrow> None
      | Some opt \<Rightarrow>
          let opt = (if wizard_filters opt > length (filters opt) then opt\<lparr>wizard_filters := length (filters opt)\<rparr> else opt) in
          insert_slots opt 0 (map (\<lambda>slot. hts_wizard_answer_filter slot n ad fl seeker_up) [0..<HTS_WIZARD_MAX_FILTERS]))"

text \<open>The verdict half of an answer: the wizard mode, the verdict and the depth.\<close>

definition hts_wizard_apply_verdict :: "httrackp \<Rightarrow> int \<Rightarrow> int \<Rightarrow> int \<Rightarrow> httrackp \<times> int \<times> int" where
  "hts_wizard_apply_verdict opt n forbidden_url prio =
     (let refuse = (n \<in> {-1, 0, 1, 2, 3, -999} \<or>
                    (n \<notin> {4, 5, 6, 7, 50} \<and> hts_wizard_scope_answer n = Some True));
          fb = (if refuse then 1 else forbidden_url)
      in (if n = -1 then opt\<lparr>wizard := HTS_WIZARD_AUTO\<rparr> else opt,
          if fb = -1 then 0 else fb,
          if n = 4 then 0 + 1 else prio))"

section \<open>Accepting a link\<close>

definition hts_robots_forbids :: "httrackp \<Rightarrow> cstring \<Rightarrow> cstring \<Rightarrow> bool \<Rightarrow> bool \<Rightarrow> bool option" where
  "hts_robots_forbids opt ad fl filters_decided filters_refused =
     (if robots opt = HTS_ROBOTS_NEVER then Some False
      else
        case checkrobots (robotsptr opt) ad fl of
          None \<Rightarrow> None
        | Some r \<Rightarrow>
            Some (r = -1 \<and> \<not> (filters_decided \<and> \<not> filters_refused \<and> robots opt = HTS_ROBOTS_SOMETIMES)))"

text \<open>The bare and the full URL of a link, and whether both fit their buffers.\<close>

definition link_l :: "cstring \<Rightarrow> cstring \<Rightarrow> cstring" where
  "link_l ad fl = jump_identification ad @ (if cbyte fl 0 \<noteq> CHR ''/'' then ''/'' else []) @ fl"

definition link_lfull :: "cstring \<Rightarrow> cstring \<Rightarrow> cstring" where
  "link_lfull ad fl =
     (if link_has_authority ad then [] else ''http://'') @ ad @ (if cbyte fl 0 \<noteq> CHR ''/'' then ''/'' else []) @ fl"

definition hts_wizard_url_fits :: "cstring \<Rightarrow> cstring \<Rightarrow> bool" where
  "hts_wizard_url_fits ad fl =
     (let sz = HTS_URLMAXSIZE * 2; sep = (if cbyte fl 0 \<noteq> CHR ''/'' then 1 else 0);
          l = length (jump_identification ad) + sep;
          lfull = (if link_has_authority ad then 0 else length ''http://'') + length ad + sep;
          head = max l lfull
      in head < sz \<and> length fl < sz - head)"

record verdict =
  forbidden :: int
  upper_refused :: bool
  may_prio :: int
  set_prio :: int

definition ACCEPT_LINK :: "verdict \<Rightarrow> verdict" where
  "ACCEPT_LINK v = v\<lparr>forbidden := 0, upper_refused := False\<rparr>"

definition REFUSE_LINK :: "verdict \<Rightarrow> verdict" where
  "REFUSE_LINK v = v\<lparr>forbidden := 1, upper_refused := False\<rparr>"

definition embed_triggered :: "httrackp \<Rightarrow> cstring option \<Rightarrow> cstring option \<Rightarrow> bool \<Rightarrow> bool" where
  "embed_triggered opt tag attribute in_css_file \<longleftrightarrow>
     nearlink opt \<and>
     (in_css_file \<or> (tag \<noteq> None \<and> attribute \<noteq> None \<and>
        (is_embed_pair hts_detect_embed tag attribute \<or> is_embed_pair hts_detect_embed_html5 tag attribute)))"

text \<open>Phase 1: what is refused at once.\<close>

definition phase1_refused :: "httrackp \<Rightarrow> nat \<Rightarrow> cstring \<Rightarrow> bool \<Rightarrow> bool" where
  "phase1_refused opt ptr fl embedded \<longleftrightarrow>
     (getmode opt AND HTS_GETMODE_NONHTML = 0 \<and> ishtml (mimedefs opt) fl = 0) \<or>
     (ptr > 0 \<and> (depth (heap opt ptr) \<le> 0 \<or> (depth (heap opt ptr) \<le> 1 \<and> \<not> embedded)))"

text \<open>Phase 2 on the same address: the moves in the directory tree, from the relative links to the
  start page (\<open>tempo\<close>) and to the current page (\<open>tempo2\<close>).\<close>

definition goes_up :: "cstring \<Rightarrow> bool" where
  "goes_up tempo \<longleftrightarrow> take 3 tempo = ''../''"

definition same_level :: "cstring \<Rightarrow> bool" where
  "same_level tempo \<longleftrightarrow> length tempo \<ge> 2 \<and> CHR ''/'' \<notin> set (drop 1 tempo)"

definition goes_down :: "cstring \<Rightarrow> bool" where
  "goes_down tempo \<longleftrightarrow> \<not> goes_up tempo \<and> CHR ''/'' \<in> set (skip_slash tempo)"

definition accept_unless :: "bool \<Rightarrow> verdict \<Rightarrow> verdict" where
  "accept_unless imported v = (if imported then v else ACCEPT_LINK v)"

definition tree_moves :: "httrackp \<Rightarrow> bool \<Rightarrow> cstring \<Rightarrow> cstring \<Rightarrow> verdict \<Rightarrow> verdict" where
  "tree_moves opt imported tempo tempo2 v =
     (let v = (if same_level tempo \<or> same_level tempo2 then accept_unless imported v else v);
          v = (if \<not> goes_up tempo \<or> \<not> goes_up tempo2 then
                 (if goes_down tempo \<and> goes_down tempo2 then
                    (if seeker opt AND HTS_SEEKER_DOWN = 0 then v\<lparr>forbidden := 1\<rparr> else accept_unless imported v)
                  else if goes_down tempo \<or> goes_down tempo2 then
                    (if seeker opt AND HTS_SEEKER_DOWN \<noteq> 0 then accept_unless imported v else v)
                  else v)
               else v)
      in if goes_up tempo \<and> goes_up tempo2 then
           (if seeker opt AND HTS_SEEKER_UP = 0 then v\<lparr>forbidden := 1, upper_refused := True\<rparr>
            else accept_unless imported v)
         else if goes_up tempo \<or> goes_up tempo2 then
           (if seeker opt AND HTS_SEEKER_UP \<noteq> 0 then accept_unless imported v else v)
         else v)"

definition phase2_same :: "httrackp \<Rightarrow> nat \<Rightarrow> cstring \<Rightarrow> verdict \<Rightarrow> verdict option" where
  "phase2_same opt ptr fl v =
     (case lienrelatif (HTS_URLMAXSIZE * 2) fl (l_fil (heap opt (premier (heap opt ptr)))) of
        None \<Rightarrow> None
      | Some (r, tempo) \<Rightarrow>
          if r \<noteq> 0 then Some v
          else
            (case lienrelatif (HTS_URLMAXSIZE * 2) fl (l_fil (heap opt ptr)) of
               None \<Rightarrow> None
             | Some (r2, tempo2) \<Rightarrow>
                 if r2 \<noteq> 0 then Some v else Some (tree_moves opt (link_import (heap opt ptr)) tempo tempo2 v)))"

text \<open>Phase 2 on another address: the scope of the journey.\<close>

fun prev_dot :: "cstring \<Rightarrow> nat \<Rightarrow> nat" where
  "prev_dot s 0 = 0"
| "prev_dot s (Suc i) = (if cbyte s (Suc i) \<noteq> CHR ''.'' then prev_dot s i else Suc i)"

definition last_label :: "cstring \<Rightarrow> nat" where
  "last_label s = prev_dot s (length s - 1)"

definition same_zone :: "httrackp \<Rightarrow> cstring \<Rightarrow> nat \<Rightarrow> cstring \<Rightarrow> nat \<Rightarrow> verdict \<Rightarrow> verdict" where
  "same_zone opt ad i urladr j v =
     (if i > 0 \<and> j > 0 then
        (if strfield2 (drop i ad) (drop j urladr) = 0 then
           (if wizard opt = HTS_WIZARD_NONE then v\<lparr>forbidden := 1\<rparr> else v)
         else (if wizard opt \<noteq> HTS_WIZARD_NONE then ACCEPT_LINK v else v))
      else v\<lparr>forbidden := 1\<rparr>)"

definition phase2_other :: "httrackp \<Rightarrow> nat \<Rightarrow> cstring \<Rightarrow> verdict \<Rightarrow> verdict" where
  "phase2_other opt ptr ad v =
     (let scope = travel opt AND HTS_TRAVEL_SCOPE_MASK; urladr = l_adr (heap opt ptr) in
      if scope = HTS_TRAVEL_SAME_ADDRESS then (if wizard opt = HTS_WIZARD_NONE then v\<lparr>forbidden := 1\<rparr> else v)
      else if scope = HTS_TRAVEL_SAME_DOMAIN then
        (let i = length ad - 1; j = length urladr - 1;
             i1 = (if i > 0 \<and> j > 0 then last_label ad else i); j1 = (if i > 0 \<and> j > 0 then last_label urladr else j);
             i2 = (if i > 0 \<and> j > 0 \<and> i1 > 0 \<and> j1 > 0 then prev_dot ad (i1 - 1) else i1);
             j2 = (if i > 0 \<and> j > 0 \<and> i1 > 0 \<and> j1 > 0 then prev_dot urladr (j1 - 1) else j1)
         in same_zone opt ad i2 urladr j2 v)
      else if scope = HTS_TRAVEL_SAME_TLD then same_zone opt ad (last_label ad) urladr (last_label urladr) v
      else if scope = HTS_TRAVEL_EVERYWHERE \<and> wizard opt \<noteq> HTS_WIZARD_NONE then ACCEPT_LINK v
      else v)"

definition meme_adresse :: "wiz_env \<Rightarrow> httrackp \<Rightarrow> cstring \<Rightarrow> cstring \<Rightarrow> bool" where
  "meme_adresse env opt ad urladr \<longleftrightarrow>
     strfield2 ad urladr \<noteq> 0 \<or>
     hts_host_same_alias (calloc_ok env) (hts_host_alias_rules opt) ad urladr (hts_host_alias_collapse_www opt)"

text \<open>Phase 3: the files next to a link that is followed.\<close>

definition phase3 :: "httrackp \<Rightarrow> cstring \<Rightarrow> bool \<Rightarrow> verdict \<Rightarrow> verdict" where
  "phase3 opt fl embedded v =
     (let v = (if forbidden v \<noteq> 0 \<and> nearlink opt \<and> ishtml (mimedefs opt) fl = 0
               then (ACCEPT_LINK v)\<lparr>may_prio := 1 + 1\<rparr> else v)
      in if forbidden v \<noteq> 0 \<and> embedded then (ACCEPT_LINK v)\<lparr>may_prio := 1 + 1\<rparr> else v)"

text \<open>Phase 4: the wizard.  \<open>question\<close> is whether a question is left, \<open>filters_answer\<close> whether the
  filters decided.\<close>

definition wiz_extdepth :: "httrackp \<Rightarrow> nat \<Rightarrow> verdict \<Rightarrow> bool \<Rightarrow> verdict \<times> bool" where
  "wiz_extdepth opt ptr v question =
     (if extdepth opt > 0 \<and> ptr > 0 \<and> depth (heap opt ptr) > extdepth opt
      then (ACCEPT_LINK (v\<lparr>set_prio := 1 + extdepth opt, may_prio := 0\<rparr>), False)
      else (v, question))"

definition wiz_filters :: "wiz_env \<Rightarrow> httrackp \<Rightarrow> cstring \<Rightarrow> cstring \<Rightarrow> verdict \<Rightarrow> bool \<Rightarrow> verdict \<times> bool \<times> bool" where
  "wiz_filters env opt ad fl v question =
     (let jok = fst (fa_strjoker_dual (calloc_ok env) 0 (filters opt) (link_lfull ad fl) (link_l ad fl) None None (Some 0)) in
      if jok = 1 then ((ACCEPT_LINK v)\<lparr>may_prio := 0\<rparr>, False, True)
      else if jok = -1 then (REFUSE_LINK v, False, True)
      else (v, question, False))"

definition wiz_rules :: "wiz_env \<Rightarrow> httrackp \<Rightarrow> nat \<Rightarrow> cstring \<Rightarrow> cstring \<Rightarrow> verdict \<Rightarrow> verdict \<times> bool \<times> bool" where
  "wiz_rules env opt ptr ad fl v =
     (if ptr = 0 then ((ACCEPT_LINK v)\<lparr>may_prio := 0\<rparr>, True, False)
      else (case wiz_extdepth opt ptr v (forbidden v = -1) of (v, question) \<Rightarrow> wiz_filters env opt ad fl v question))"

definition wiz_mirror :: "httrackp \<Rightarrow> nat \<Rightarrow> verdict \<Rightarrow> bool \<Rightarrow> verdict \<times> int" where
  "wiz_mirror opt ptr v question =
     (if question \<and> mirror_first_page opt \<and> precedent (heap opt ptr) = 0
      then ((ACCEPT_LINK v)\<lparr>may_prio := 0\<rparr>, 5) else (v, 0))"

definition wiz_auto :: "httrackp \<Rightarrow> nat \<Rightarrow> int \<Rightarrow> verdict \<Rightarrow> bool \<Rightarrow> verdict \<times> bool" where
  "wiz_auto opt ptr force_mirror v question =
     (if question \<and> ptr > 0 \<and> force_mirror = 0 \<and> wizard opt = HTS_WIZARD_AUTO then (REFUSE_LINK v, False)
      else (v, question))"

definition wiz_robots :: "httrackp \<Rightarrow> cstring \<Rightarrow> cstring \<Rightarrow> bool \<Rightarrow> verdict \<Rightarrow> bool \<Rightarrow> (verdict \<times> bool) option" where
  "wiz_robots opt ad fl filters_answer v question =
     (if robots opt = HTS_ROBOTS_NEVER then Some (v, question)
      else
        case checkrobots (robotsptr opt) ad fl of
          None \<Rightarrow> None
        | Some r \<Rightarrow>
            if r \<noteq> -1 then Some (v, question)
            else
              (case hts_robots_forbids opt ad fl (\<not> question \<and> filters_answer) (forbidden v = 1) of
                 None \<Rightarrow> None
               | Some b \<Rightarrow> if b then Some (REFUSE_LINK v, False) else Some (v, question)))"

text \<open>The number a reply starts with, as \<open>sscanf\<close> reads it, and the answer of a reply.\<close>

definition scan_int :: "cstring \<Rightarrow> int" where
  "scan_int s = sint (word_of_int (min (2 ^ 63 - 1) (dec_value (takeWhile isdigit s))) :: 32 word)"

definition wiz_answer :: "cstring \<Rightarrow> int" where
  "wiz_answer s =
     (if s = [] then 0
      else if isdigit (hd s) then scan_int s
      else if hd s = CHR ''*'' then -1 else -999)"

definition wiz_ask :: "wiz_env \<Rightarrow> httrackp \<Rightarrow> nat \<Rightarrow> cstring \<Rightarrow> cstring \<Rightarrow> int \<Rightarrow> verdict \<Rightarrow> (httrackp \<times> verdict) option" where
  "wiz_ask env opt ptr ad fl force_mirror v =
     (let n = (if ptr \<noteq> 0 \<and> force_mirror = 0 then wiz_answer (query3 env (hts_wizard_prompt_url (HTS_URLMAXSIZE * 2) ad fl))
               else if force_mirror = 0 then (if seeker opt AND HTS_SEEKER_DOWN = 0 then 7 else 5)
               else force_mirror);
          (opt, fb, prio) = hts_wizard_apply_verdict opt n (forbidden v) (set_prio v)
      in map_option (\<lambda>(opt, inserted). (opt, v\<lparr>forbidden := fb, set_prio := prio\<rparr>))
           (hts_wizard_insert_filters (realloc_ok env) opt n ad fl (seeker opt AND HTS_SEEKER_UP \<noteq> 0)))"

definition phase4 :: "wiz_env \<Rightarrow> httrackp \<Rightarrow> nat \<Rightarrow> cstring \<Rightarrow> cstring \<Rightarrow> verdict \<Rightarrow> (httrackp \<times> verdict) option" where
  "phase4 env opt ptr ad fl v =
     (if wizard opt = HTS_WIZARD_NONE then Some (opt, v)
      else if \<not> hts_wizard_url_fits ad fl then Some (opt, REFUSE_LINK v)
      else
        let (v, question, filters_answer) = wiz_rules env opt ptr ad fl v;
            (v, force_mirror) = wiz_mirror opt ptr v question;
            (v, question) = wiz_auto opt ptr force_mirror v question
        in case wiz_robots opt ad fl filters_answer v question of
             None \<Rightarrow> None
           | Some (v, question) \<Rightarrow>
               if question \<or> ptr = 0 then wiz_ask env opt ptr ad fl force_mirror v else Some (opt, v))"

text \<open>The whole function.  \<open>just_test\<close> is the optional output "only test this link".\<close>

definition acceptlink_impl :: "wiz_env \<Rightarrow> httrackp \<Rightarrow> nat \<Rightarrow> cstring \<Rightarrow> cstring \<Rightarrow> cstring option \<Rightarrow> cstring option \<Rightarrow> bool \<Rightarrow>
    int \<Rightarrow> int option \<Rightarrow> (httrackp \<times> int \<times> int \<times> int option \<times> bool) option" where
  "acceptlink_impl env opt ptr ad fl tag attribute in_css_file prio just_test =
     (if ad \<noteq> [] \<and> fl \<noteq> [] \<and> known env ad fl then Some (opt, 0, prio, just_test, False)
      else
        let embedded = embed_triggered opt tag attribute in_css_file;
            v = \<lparr>forbidden = -1, upper_refused = False, may_prio = 0, set_prio = prio\<rparr>
        in if phase1_refused opt ptr fl embedded then Some (opt, 1, prio, just_test, False)
           else
             case (if meme_adresse env opt ad (l_adr (heap opt ptr)) then phase2_same opt ptr fl v
                   else Some (phase2_other opt ptr ad v)) of
               None \<Rightarrow> None
             | Some v \<Rightarrow>
                 (case phase4 env opt ptr ad fl (phase3 opt fl embedded v) of
                    None \<Rightarrow> None
                  | Some (opt, v) \<Rightarrow>
                      Some (opt, forbidden v,
                        if may_prio v \<noteq> 0 \<and> forbidden v = 0 then may_prio v else set_prio v,
                        if forbidden v = 1 \<and> travel opt AND HTS_TRAVEL_TEST_ALL \<noteq> 0 \<and> strfield ad ''ftp://'' = 0
                        then map_option (\<lambda>_. 1) just_test else just_test,
                        upper_refused v)))"

definition hts_acceptlink :: "wiz_env \<Rightarrow> httrackp \<Rightarrow> nat \<Rightarrow> cstring \<Rightarrow> cstring \<Rightarrow> cstring option \<Rightarrow> cstring option \<Rightarrow> bool \<Rightarrow>
    int \<Rightarrow> int option \<Rightarrow> (httrackp \<times> int \<times> int \<times> int option) option" where
  "hts_acceptlink env opt ptr ad fl tag attribute in_css_file prio just_test =
     map_option (\<lambda>(opt, fb, prio, just_test, up).
         let test_url = check_link env ad fl fb; fb = (if test_url \<noteq> -1 then test_url else fb)
         in (if up \<and> fb = 1 then opt\<lparr>upper_links_refused := True\<rparr> else opt, fb, prio, just_test))
       (acceptlink_impl env opt ptr ad fl tag attribute in_css_file prio just_test)"

section \<open>Other questions\<close>

definition hts_upper_links_note :: "httrackp \<Rightarrow> nat \<Rightarrow> cstring \<times> bool" where
  "hts_upper_links_note opt dstsize =
     (if dstsize = 0 \<or> \<not> upper_links_refused opt then ([], False)
      else (take (dstsize - 1)
              ''Some links above the start directory were not mirrored. Pass -B (--can-go-up-and-down) to mirror them.'', True))"

definition hts_acceptmime :: "wiz_env \<Rightarrow> httrackp \<Rightarrow> cstring \<Rightarrow> cstring \<Rightarrow> cstring \<Rightarrow> int" where
  "hts_acceptmime env opt ad fl mime =
     (let jok = fst (fa_strjoker (calloc_ok env) 1 (filters opt) mime None None (Some 0));
          fb = (if jok = 1 then 0 else if jok = -1 then 1 else -1);
          test_url = check_mime env ad fl mime fb
      in if test_url \<noteq> -1 then test_url else fb)"

definition hts_link_is_foreign_asset :: "httrackp \<Rightarrow> int \<Rightarrow> bool" where
  "hts_link_is_foreign_asset opt ptr =
     (if ptr \<le> 0 then False
      else
        let parent = precedent (heap opt (nat ptr)) in
        if parent = 0 \<or> parent \<ge> length (liens opt) then False
        else if ishtml (mimedefs opt) (l_fil (heap opt (nat ptr))) \<noteq> 0 then False
        else strfield2 (jump_identification (l_adr (heap opt (nat ptr)))) (jump_identification (l_adr (heap opt parent))) = 0)"

text \<open>The verdict of the filters on a size, refused only when a size rule refused it.\<close>

definition hts_testlinksize :: "wiz_env \<Rightarrow> httrackp \<Rightarrow> cstring \<Rightarrow> cstring \<Rightarrow> int \<Rightarrow> int" where
  "hts_testlinksize env opt ad fl sz =
     (if \<not> hts_wizard_url_fits ad fl then -1
      else if sz \<ge> 0 then
        (case fa_strjoker_dual (calloc_ok env) 0 (filters opt) (link_lfull ad fl) (link_l ad fl) (Some sz) (Some 0) None of
           (jok, _, flag, _) \<Rightarrow> if jok = -1 \<and> (flag = None \<or> flag = Some 0) then 1 else jok)
      else 0)"

end
