(* ===== verification/Crawl.thy ===== *)
theory Crawl
  imports Wizard
begin

text \<open>
  How links enter the heap of a mirror: the synthetic primary link of \<open>htscore.c\<close>, whose links are
  the start URLs, and the link that \<open>htsparse.c\<close> records when the wizard accepts it.  \<open>crawl_step\<close> is
  one accepted link; what the wizard calls outside (the link table, the front end) may differ at
  each step, the only demand is that the link is not in the table yet and that no \<open>check_link\<close>
  callback overrides the wizard.
\<close>

section \<open>Recording links\<close>

definition primary_link :: "int \<Rightarrow> lien_url" where
  "primary_link dep =
     \<lparr>l_adr = ''primary'', l_fil = ''/primary'', depth = dep + 1, premier = 0, precedent = 0, link_import = False\<rparr>"

definition record_accepted :: "httrackp \<Rightarrow> nat \<Rightarrow> cstring \<Rightarrow> cstring \<Rightarrow> int \<Rightarrow> httrackp" where
  "record_accepted opt ptr ad fl set_prio_to =
     (let top = length (liens opt); par = heap opt ptr;
          meme = (strfield2 (jump_identification ad) (jump_identification (l_adr par)) \<noteq> 0)
      in opt\<lparr>liens := liens opt @
           [\<lparr>l_adr = ad, l_fil = fl,
             depth = (if set_prio_to = 0 then depth par - 1 else max 0 (min (depth par - 1) (set_prio_to - 1))),
             premier = (if meme \<and> premier par \<noteq> 0 then premier par else top),
             precedent = ptr, link_import = False\<rparr>]\<rparr>)"

section \<open>The mirror as a state machine\<close>

text \<open>A link to a page of the web: not a local file, and a path from the root.\<close>

definition web_link :: "cstring \<Rightarrow> cstring \<Rightarrow> bool" where
  "web_link ad fl \<longleftrightarrow> ad \<noteq> ''file://'' \<and> CHR ''/'' \<notin> set (jump_identification ad) \<and> cbyte fl 0 = CHR ''/''"

text \<open>The links of the primary page (\<open>ptr = 0\<close>) are the start URLs.\<close>

inductive crawl_step :: "(cstring \<times> cstring) list \<Rightarrow> httrackp \<Rightarrow> httrackp \<Rightarrow> bool" for seeds where
  seed: "(ad, fl) \<in> set seeds \<Longrightarrow> \<not> known env ad fl \<Longrightarrow> (\<And>fb. check_link env ad fl fb = -1) \<Longrightarrow>
    hts_acceptlink env opt 0 ad fl tag attribute in_css 0 (Some 0) = Some (opt', 0, prio, jt) \<Longrightarrow>
    crawl_step seeds opt (record_accepted opt' 0 ad fl prio)"
| follow: "0 < ptr \<Longrightarrow> ptr < length (liens opt) \<Longrightarrow> web_link ad fl \<Longrightarrow>
    \<not> known env ad fl \<Longrightarrow> (\<And>fb. check_link env ad fl fb = -1) \<Longrightarrow>
    hts_acceptlink env opt ptr ad fl tag attribute in_css 0 (Some 0) = Some (opt', 0, prio, jt) \<Longrightarrow>
    crawl_step seeds opt (record_accepted opt' ptr ad fl prio)"

inductive crawl_reach :: "(cstring \<times> cstring) list \<Rightarrow> httrackp \<Rightarrow> httrackp \<Rightarrow> bool" for seeds opt0 where
  start: "crawl_reach seeds opt0 opt0"
| step: "crawl_reach seeds opt0 opt \<Longrightarrow> crawl_step seeds opt opt' \<Longrightarrow> crawl_reach seeds opt0 opt'"

end
