(* ===== verification/WizardClaims.thy ===== *)
theory WizardClaims
  imports Crawl LinkClaims FilterClaims
begin

text \<open>
  What the wizard guarantees: the confinement of a mirror to the directories of its start URLs, the
  authority of the filters, and the authority of robots.txt.
\<close>

section \<open>Hosts\<close>

definition one_host :: "cstring \<Rightarrow> cstring \<Rightarrow> bool" where
  "one_host a b \<longleftrightarrow> same_text (jump_identification a) (jump_identification b)"

lemma same_text_trans: "same_text a b \<Longrightarrow> same_text b c \<Longrightarrow> same_text a c"
  unfolding same_text_def by (auto simp: list_all2_conv_all_nth streql_def)

lemma same_text_take: "same_text a b \<Longrightarrow> same_text (take n a) (take n b)"
  by (simp add: same_text_def)

lemma same_text_drop: "same_text a b \<Longrightarrow> same_text (drop n a) (drop n b)"
  by (simp add: same_text_def)

lemma same_text_mem: "same_text a b \<Longrightarrow> ord c < 65 \<Longrightarrow> c \<in> set a \<longleftrightarrow> c \<in> set b"
proof -
  assume a: "same_text a b" "ord c < 65"
  have "c \<in> set y" if "same_text x y" "c \<in> set x" for x y
  proof -
    note xy = that
    obtain i where "i < length x" "x ! i = c" using xy(2) by (auto simp: in_set_conv_nth)
    then have "i < length y" "streql c (y ! i)" using xy(1) by (auto simp: same_text_def list_all2_conv_all_nth)
    with a(2) show ?thesis by (metis nth_mem streql_punct(1))
  qed
  with a same_text_sym show ?thesis by blast
qed

lemma one_host_refl [simp]: "one_host a a" by (simp add: one_host_def)
lemma one_host_sym: "one_host a b \<Longrightarrow> one_host b a" by (simp add: one_host_def same_text_sym)
lemma one_host_trans: "one_host a b \<Longrightarrow> one_host b c \<Longrightarrow> one_host a c"
  using same_text_trans by (auto simp: one_host_def)

lemma strfield2_same: "strfield2 a b \<noteq> 0 \<Longrightarrow> same_text a b"
  by (auto simp: strfield2_eq same_text_def split: if_splits)

lemma strfield_same: "same_text a b \<Longrightarrow> strfield a p = strfield b p"
proof -
  assume a: "same_text a b"
  have "same_text (take (length p) a) p \<longleftrightarrow> same_text (take (length p) b) p"
    using same_text_take[OF a, of "length p"] same_text_trans same_text_sym by blast
  with same_text_length[OF a] show ?thesis by (simp add: strfield_eq same_text_def)
qed

lemma skip_scheme_same: "same_text a b \<Longrightarrow> same_text (skip_scheme ss a) (skip_scheme ss b)"
  by (induction ss) (auto simp: strfield_same same_text_drop)

lemma same_text_dropWhile: "same_text a b \<Longrightarrow> ord c < 65 \<Longrightarrow>
    same_text (dropWhile (\<lambda>x. x \<noteq> c) a) (dropWhile (\<lambda>x. x \<noteq> c) b)"
  unfolding same_text_def
proof (induction rule: list_all2_induct)
  case (Cons x xs y ys)
  have "x = c \<longleftrightarrow> y = c" using Cons(1,4) streql_punct[of c] by metis
  with Cons show ?case by auto
qed simp

lemma strchr_same: "same_text a b \<Longrightarrow> ord c < 65 \<Longrightarrow> rel_option same_text (strchr a c) (strchr b c)"
proof -
  have r: "same_text u v \<Longrightarrow> rel_option same_text (case u of [] \<Rightarrow> None | r # rs \<Rightarrow> Some (r # rs))
      (case v of [] \<Rightarrow> None | r # rs \<Rightarrow> Some (r # rs))" for u v
    by (cases u; cases v) (auto simp: same_text_def)
  assume "same_text a b" "ord c < 65"
  then show ?thesis unfolding strchr_def by (intro r same_text_dropWhile)
qed

definition opt_same :: "cstring option \<Rightarrow> cstring option \<Rightarrow> bool" where
  "opt_same a b = rel_option same_text a b"

lemma limit_loop_same: "same_text s t \<Longrightarrow> ord c < 65 \<Longrightarrow> opt_same a b \<Longrightarrow> opt_same (limit_loop c lim i a s) (limit_loop c lim i b t)"
  unfolding same_text_def
proof (induction arbitrary: i a b rule: list_all2_induct)
  case (Cons x xs y ys)
  have "x = c \<longleftrightarrow> y = c" using Cons(1,4) streql_punct[of c] by metis
  with Cons show ?case by (auto simp: opt_same_def same_text_def)
qed simp

lemma jump_identification_same:
  assumes "same_text a b" "a \<noteq> ''file://''" "b \<noteq> ''file://''"
  shows "one_host a b"
proof -
  let ?p = jump_protocol
  have s: "same_text (skip_scheme jump_schemes a) (skip_scheme jump_schemes b)" by (rule skip_scheme_same[OF assms(1)])
  have "same_text u v \<Longrightarrow> u = ''//'' \<longleftrightarrow> v = ''//''" for u v
  proof -
    assume "same_text u v"
    then show ?thesis
      unfolding same_text_def by (cases u; cases v; cases "tl u"; cases "tl v") (auto simp: streql_slash)
  qed
  then have "take 2 (skip_scheme jump_schemes a) = ''//'' \<longleftrightarrow> take 2 (skip_scheme jump_schemes b) = ''//''"
    using same_text_take[OF s] by blast
  then have p: "same_text (?p a) (?p b)" using s by (simp add: jump_protocol_def Let_def same_text_drop)
  have at: "ord CHR ''@'' < 65" "ord SLASH < 65" by simp_all
  have "rel_option same_text (strchr (?p a) SLASH) (strchr (?p b) SLASH)" by (rule strchr_same[OF p at(2)])
  then have "(case strchr (?p a) SLASH of None \<Rightarrow> length (?p a) | Some l \<Rightarrow> length (?p a) - length l) =
      (case strchr (?p b) SLASH of None \<Rightarrow> length (?p b) | Some l \<Rightarrow> length (?p b) - length l)"
    using same_text_length[OF p] by (auto elim!: option.rel_cases dest: same_text_length)
  then have "opt_same (strrchr_limit (?p a) CHR ''@'' (strchr (?p a) SLASH)) (strrchr_limit (?p b) CHR ''@'' (strchr (?p b) SLASH))"
    using limit_loop_same[OF p at(1), of None None] by (simp add: strrchr_limit_def opt_same_def)
  with assms(2,3) p show ?thesis
    by (auto simp: one_host_def jump_identification_def Let_def opt_same_def elim!: option.rel_cases)
qed

section \<open>Directories\<close>

text \<open>The directory of a path, and the paths below it, up to ASCII case.\<close>

definition dir_of :: "cstring \<Rightarrow> cstring" where
  "dir_of s = curr_path (cut_query s)"

definition under :: "cstring \<Rightarrow> cstring \<Rightarrow> bool" where
  "under d f \<longleftrightarrow> same_text (take (length d) f) d"

lemma curr_path_split:
  assumes "SLASH \<in> set s"
  shows "\<exists>u g. s = u @ SLASH # g \<and> SLASH \<notin> set g \<and> curr_path s = u @ [SLASH]"
proof -
  obtain u g where s: "s = u @ SLASH # g" "SLASH \<notin> set g" using split_list_last[OF assms] by blast
  have "dropWhile (\<lambda>c. c \<noteq> SLASH) (rev g @ SLASH # rev u) = SLASH # rev u"
    using s(2) by (subst dropWhile_append2) auto
  then have "curr_path s = u @ [SLASH]" using s(1) by (simp add: curr_path_def)
  with s show ?thesis by blast
qed

lemma cut_query_take: "CHR ''?'' \<notin> set (take n s) \<Longrightarrow> n \<le> length s \<Longrightarrow> take n (cut_query s) = take n s \<and> n \<le> length (cut_query s)"
proof (induction s arbitrary: n)
  case (Cons c s)
  then show ?case by (cases n) (auto simp: cut_query_def)
qed simp

lemma dir_of_props:
  assumes "cbyte f 0 = SLASH"
  shows "\<exists>u. dir_of f = u @ [SLASH]" "CHR ''?'' \<notin> set (dir_of f)" "\<exists>r. f = dir_of f @ r" "cbyte (dir_of f) 0 = SLASH"
proof -
  obtain t where f: "f = SLASH # t" using assms by (cases f) (auto simp: cbyte_def)
  have "SLASH \<in> set (cut_query f)" by (simp add: f cut_query_def)
  then obtain u g where u: "cut_query f = u @ SLASH # g" "dir_of f = u @ [SLASH]"
    using curr_path_split[of "cut_query f"] by (auto simp: dir_of_def)
  then show "\<exists>u. dir_of f = u @ [SLASH]" by blast
  have "CHR ''?'' \<notin> set (cut_query f)" by (auto simp: cut_query_def dest: set_takeWhileD)
  with u show "CHR ''?'' \<notin> set (dir_of f)" by auto
  have "f = cut_query f @ dropWhile (\<lambda>c. c \<noteq> CHR ''?'') f" by (simp add: cut_query_def)
  with u show "\<exists>r. f = dir_of f @ r" by (metis append.assoc append_Cons append_Nil)
  have "cbyte (cut_query f) 0 = SLASH" by (simp add: f cut_query_def)
  with u show "cbyte (dir_of f) 0 = SLASH" by (cases u) auto
qed

lemma dir_of_longest:
  assumes "d = u @ [SLASH]" "CHR ''?'' \<notin> set d" "under d f"
  shows "take (length d) (dir_of f) = take (length d) f \<and> length d \<le> length (dir_of f)"
proof -
  have len: "length d \<le> length f" using assms(3) same_text_length unfolding under_def by fastforce
  have "CHR ''?'' \<notin> set (take (length d) f)"
    using same_text_mem[of "take (length d) f" d "CHR ''?''"] assms(2,3) by (simp add: under_def)
  from cut_query_take[OF this len] have c: "take (length d) (cut_query f) = take (length d) f" "length d \<le> length (cut_query f)" by auto
  have "streql (f ! length u) SLASH"
    using assms(3,1) len unfolding under_def same_text_def by (auto simp: list_all2_conv_all_nth dest!: spec[of _ "length u"])
  then have "f ! length u = SLASH" by (simp add: streql_slash)
  then have at: "cut_query f ! length u = SLASH" using c assms(1) len
    by (metis length_append_singleton lessI nth_take)
  then have mem: "SLASH \<in> set (cut_query f)" using c(2) assms(1) by (metis Suc_le_lessD length_append_singleton nth_mem)
  obtain v g where v: "cut_query f = v @ SLASH # g" "SLASH \<notin> set g" "dir_of f = v @ [SLASH]"
    using curr_path_split[OF mem] by (auto simp: dir_of_def)
  have "length u \<le> length v"
  proof (rule ccontr)
    assume "\<not> length u \<le> length v"
    then have "g ! (length u - length v - 1) = SLASH" "length u - length v - 1 < length g"
      using at v(1) c(2) assms(1) by (auto simp: nth_append nth_Cons')
    with v(2) show False by (metis nth_mem)
  qed
  then show ?thesis using c v assms(1) by (auto simp: take_Cons' split: if_splits)
qed

lemma under_trans: "d = u @ [SLASH] \<Longrightarrow> CHR ''?'' \<notin> set d \<Longrightarrow> under d f \<Longrightarrow> under (dir_of f) g \<Longrightarrow> under d g"
proof -
  assume d: "d = u @ [SLASH]" "CHR ''?'' \<notin> set d" "under d f" "under (dir_of f) g"
  note l = dir_of_longest[OF d(1-3)]
  have "same_text (take (length d) (take (length (dir_of f)) g)) (take (length d) (dir_of f))"
    using d(4) unfolding under_def by (rule same_text_take)
  then have "same_text (take (length d) g) (take (length d) f)" using l by (simp add: min_def)
  with d(3) same_text_trans show ?thesis unfolding under_def by blast
qed

section \<open>The relative link and the directory\<close>

lemma common_dir_le: "common_dir l c n \<le> n"
  by (induction n) auto

lemma common_dir_slash: "common_dir l c n \<noteq> 0 \<Longrightarrow> cbyte l (common_dir l c n) = SLASH \<and> cbyte c (common_dir l c n) = SLASH"
  by (induction n) auto

lemma common_chars_le: "common_chars l c \<le> length c"
  by (induction l c rule: common_chars.induct) auto

lemma common_take: "n \<le> common_chars l c \<Longrightarrow> n \<le> length l \<and> same_text (take n l) (take n c)"
proof (induction l c arbitrary: n rule: common_chars.induct)
  case (1 l link c cur)
  then show ?case by (cases n) (auto simp: same_text_def split: if_splits)
qed (auto simp: same_text_def)

lemma ups_goes_up: "n > 0 \<Longrightarrow> goes_up (concat (replicate n ''../'') @ s)"
  by (cases n) (auto simp: goes_up_def)

lemma lienrelatif_under:
  assumes "lienrelatif ssize link cur = Some (r, s)" "\<not> goes_up s"
    and "cbyte cur 0 = SLASH" "dir_of cur \<noteq> ''//''" "cbyte link 0 = SLASH"
  shows "under (dir_of cur) link"
proof -
  define l where "l = skip_slash (cut_query link)"
  define c where "c = skip_slash (dir_of cur)"
  define n where "n = common_dir l c (common_chars l c)"
  obtain t where lk: "link = SLASH # t" using assms(5) by (cases link) (auto simp: cbyte_def)
  then have lt: "l = cut_query t" by (simp add: l_def cut_query_def skip_slash_def)
  obtain u where u: "dir_of cur = u @ [SLASH]" using dir_of_props(1)[OF assms(3)] by blast
  have dc: "dir_of cur = SLASH # c"
    using dir_of_props(4)[OF assms(3)] unfolding c_def skip_slash_def by (cases "dir_of cur") simp_all
  have cend: "c = [] \<or> last c = SLASH" using u dc by (cases c) (auto simp: Cons_eq_append_conv)
  have "s = concat (replicate (count_list (skip_slash (drop n c)) SLASH) ''../'') @ skip_slash (drop n l)"
    using assms(1) unfolding lienrelatif_def Let_def l_def[symmetric] c_def[symmetric, unfolded dir_of_def] n_def[symmetric]
    by (auto split: if_splits)
  then have free: "SLASH \<notin> set (skip_slash (drop n c))"
    using assms(2) ups_goes_up[of "count_list (skip_slash (drop n c)) SLASH"] by (metis count_list_0_iff gr0I)
  have nle: "n \<le> common_chars l c" unfolding n_def by (rule common_dir_le)
  have rest: "drop n c = [] \<or> (drop n c = [SLASH] \<and> n > 0)"
  proof (cases "drop n c")
    case (Cons x xs)
    have lst: "last (drop n c) = SLASH" using cend Cons by (metis drop_Nil last_drop list.distinct(1) drop_eq_Nil not_le)
    have "x = SLASH" using free lst Cons by (auto simp: skip_slash_def split: if_splits dest: last_in_set)
    moreover have "xs = []" using free lst Cons calculation by (auto simp: skip_slash_def split: if_splits dest: last_in_set)
    moreover have "n > 0" using calculation Cons dc assms(4) by (cases n) auto
    ultimately show ?thesis using Cons by simp
  qed simp
  have "length c \<le> length l \<and> same_text (take (length c) l) c"
  proof (cases "drop n c = []")
    case True
    then have "length c \<le> common_chars l c" using nle by simp
    from common_take[OF this] show ?thesis by simp
  next
    case False
    then have d: "drop n c = [SLASH]" "n > 0" using rest by auto
    then have c: "c = take n c @ [SLASH]" by (metis append_take_drop_id)
    have "cbyte l n = SLASH" using common_dir_slash[of l c "common_chars l c"] d(2) by (simp add: n_def)
    then have nl: "n < length l" "l ! n = SLASH" by (auto simp: cbyte_def split: if_splits)
    have len: "length c = Suc n" using arg_cong[OF d(1), of length] by simp
    have "take (length c) l = take n l @ [SLASH]" using nl len by (simp add: take_Suc_conv_app_nth)
    moreover have "same_text (take n l @ [SLASH]) (take n c @ [SLASH])"
      using common_take[OF nle] by (intro same_text_append) auto
    ultimately show ?thesis using nl(1) len by (simp flip: c)
  qed
  moreover have "take (length c) l = take (length c) t" if "length c \<le> length l"
  proof -
    have "length l \<le> length t \<and> l = take (length l) t" unfolding lt cut_query_def
      by (metis length_takeWhile_le takeWhile_eq_take)
    with that show ?thesis by (metis min.absorb1 take_take)
  qed
  ultimately have "same_text (take (length c) t) c" by metis
  then show ?thesis using lk dc same_text_append[of "[SLASH]" "[SLASH]"] by (simp add: under_def)
qed

section \<open>What the tree accepts\<close>

lemma tree_moves_up:
  "goes_up tempo \<Longrightarrow> goes_up tempo2 \<Longrightarrow> seeker opt AND HTS_SEEKER_UP = 0 \<Longrightarrow>
     forbidden (tree_moves opt imported tempo tempo2 v) = 1 \<and> upper_refused (tree_moves opt imported tempo tempo2 v)"
  by (simp add: tree_moves_def Let_def)

lemma phase2_same_under:
  assumes "phase2_same opt ptr fl v = Some v'" "forbidden v' = 0" "forbidden v \<noteq> 0"
    and "seeker opt AND HTS_SEEKER_UP = 0" "cbyte fl 0 = SLASH"
    and "cbyte (l_fil (heap opt ptr)) 0 = SLASH" "cbyte (l_fil (heap opt (premier (heap opt ptr)))) 0 = SLASH"
    and "dir_of (l_fil (heap opt ptr)) \<noteq> ''//''" "dir_of (l_fil (heap opt (premier (heap opt ptr)))) \<noteq> ''//''"
  shows "under (dir_of (l_fil (heap opt ptr))) fl \<or> under (dir_of (l_fil (heap opt (premier (heap opt ptr))))) fl"
proof -
  obtain r tempo where t: "lienrelatif (HTS_URLMAXSIZE * 2) fl (l_fil (heap opt (premier (heap opt ptr)))) = Some (r, tempo)"
    using assms(1) by (auto simp: phase2_same_def split: option.splits)
  with assms(1-3) have r: "r = 0" by (cases "r = 0") (auto simp: phase2_same_def)
  obtain r2 tempo2 where t2: "lienrelatif (HTS_URLMAXSIZE * 2) fl (l_fil (heap opt ptr)) = Some (r2, tempo2)"
    using assms(1) t r by (auto simp: phase2_same_def split: option.splits)
  with assms(1-3) t r have "v' = tree_moves opt (link_import (heap opt ptr)) tempo tempo2 v"
    by (auto simp: phase2_same_def split: if_splits)
  with assms(2,4) tree_moves_up have "\<not> goes_up tempo \<or> \<not> goes_up tempo2" by fastforce
  then show ?thesis
    using lienrelatif_under[OF t _ assms(7,9,5)] lienrelatif_under[OF t2 _ assms(6,8,5)] by blast
qed

section \<open>What the filters accept\<close>

lemma word_compare_prefix:
  "cstr_ok w \<Longrightarrow> CHR ''*'' \<notin> set w \<Longrightarrow> fst (word_compare k c (w @ CHR ''*'' # x)) \<Longrightarrow>
     length w \<le> length c \<and> same_text (take (length w) c) w"
proof (induction w arbitrary: k c)
  case (Cons y w)
  have "\<not> streql NUL y" using Cons.prems(1) by (metis cstr_ok_Cons hichar_NUL_iff streql_def)
  then show ?case using Cons by (cases c) (fastforce simp: same_text_def drop_Cons' split: if_splits)+
qed (simp add: same_text_def)

lemma joker_match_prefix:
  assumes "fst (joker_match sz c (w @ CHR ''*'' # x)) \<noteq> None" "cstr_ok w" "CHR ''*'' \<notin> set w" "w \<noteq> []"
  shows "length w \<le> length c \<and> same_text (take (length w) c) w"
proof -
  have j: "w @ CHR ''*'' # x \<noteq> []" "cbyte (w @ CHR ''*'' # x) 0 \<noteq> CHR ''*''" using assms(3,4) by (cases w; auto)+
  show ?thesis
  proof (cases "c = []")
    case True
    with assms(1) show ?thesis using joker_match_word_end[OF j] by simp
  next
    case False
    obtain ok jmp where w: "word_compare 0 c (w @ CHR ''*'' # x) = (ok, jmp)" by fastforce
    then have ok using assms(1) joker_match_word[OF j False w] by (auto split: if_splits)
    with w show ?thesis using word_compare_prefix[OF assms(2,3), of 0 c x] by simp
  qed
qed

lemma strjoker_joker: "fst (strjoker ok c j None None) \<noteq> None \<Longrightarrow> fst (joker_match None c j) \<noteq> None"
proof -
  assume a: "fst (strjoker ok c j None None) \<noteq> None"
  then have b: "fst (strjoker_bounded ok c j None None 0) \<noteq> None" by (simp add: strjoker_fst)
  then have "length c \<le> STRJOKER_MAXLEN \<and> length j \<le> STRJOKER_MAXLEN"
    by (auto simp: strjoker_bounded_def Let_def split: if_splits)
  then show ?thesis using bounded_agrees[of c j ok None None 0] b unfolding agrees_def Let_def by blast
qed

text \<open>A positive verdict comes from a filter with a plus sign that matches one of the two names.\<close>

lemma dual_accepts:
  assumes "fst (fa_strjoker_dual ok ty fs a b None None (Some 0)) = 1"
  shows "\<exists>f \<in> set fs. cbyte f 0 = CHR ''+'' \<and> (filter_hit ok ty a None f \<or> filter_hit ok ty b None f)"
  using assms last_hit_Some[of _ fs]
  by (auto simp: dual_last_match filter_sign_def split: option.splits if_splits)

definition seed_pattern :: "cstring \<Rightarrow> cstring \<Rightarrow> cstring" where
  "seed_pattern h s = jump_identification h @ take (last_slash s + 1) s"

text \<open>A start URL: a host that no scheme can be taken for, and a path that starts a name.\<close>

definition seed_ok :: "cstring \<times> cstring \<Rightarrow> bool" where
  "seed_ok hs \<longleftrightarrow> web_link (fst hs) (snd hs) \<and> cbyte (snd hs) 1 \<noteq> SLASH \<and>
     jump_identification (fst hs) \<noteq> [] \<and> last (jump_identification (fst hs)) \<noteq> CHR '':'' \<and>
     cstr_ok (jump_identification (fst hs)) \<and> CHR ''*'' \<notin> set (jump_identification (fst hs)) \<and>
     cstr_ok (snd hs) \<and> CHR ''*'' \<notin> set (snd hs)"

definition plus_of_seeds :: "(cstring \<times> cstring) list \<Rightarrow> cstring \<Rightarrow> bool" where
  "plus_of_seeds seeds f \<longleftrightarrow>
     cbyte f 0 = CHR ''+'' \<longrightarrow> (\<exists>(h, s) \<in> set seeds. \<exists>x. f = CHR ''+'' # seed_pattern h s @ CHR ''*'' # x)"

definition in_seed :: "(cstring \<times> cstring) list \<Rightarrow> cstring \<Rightarrow> cstring \<Rightarrow> bool" where
  "in_seed seeds a f \<longleftrightarrow> (\<exists>(h, s) \<in> set seeds. one_host a h \<and> under (dir_of s) f)"

lemma first_slash:
  assumes "same_text (take (length (p @ SLASH # q)) (p' @ SLASH # q')) (p @ SLASH # q)"
    "length (p @ SLASH # q) \<le> length (p' @ SLASH # q')" "SLASH \<notin> set p" "SLASH \<notin> set p'"
  shows "same_text p' p \<and> same_text (take (length q) q') q"
proof -
  have eq: "streql ((p' @ SLASH # q') ! i) ((p @ SLASH # q) ! i)" if "i < length (p @ SLASH # q)" for i
    using assms(1) that nth_take[OF that, of "p' @ SLASH # q'"]
    by (metis list_all2_nthD2 same_text_def)
  have "\<not> length p < length p'"
  proof
    assume lt: "length p < length p'"
    from eq[of "length p"] lt have "p' ! length p = SLASH" by (simp add: nth_append streql_slash)
    with lt assms(4) show False by (metis nth_mem)
  qed
  moreover have "\<not> length p' < length p"
  proof
    assume lt: "length p' < length p"
    from eq[of "length p'"] lt have "p ! length p' = SLASH" by (simp add: nth_append streql_slash)
    with lt assms(3) show False by (metis nth_mem)
  qed
  ultimately have len: "length p' = length p" by simp
  have "same_text p' p" using same_text_take[OF assms(1), of "length p"] len by simp
  moreover have "same_text (take (length q) q') q" using same_text_drop[OF assms(1), of "Suc (length p)"] len by simp
  ultimately show ?thesis ..
qed

lemma last_slash_props: "cbyte s 0 = SLASH \<Longrightarrow> take (last_slash s + 1) s = dir_of s @ drop (length (dir_of s)) (take (last_slash s + 1) s) \<and>
    cbyte (take (last_slash s + 1) s) 0 = SLASH"
proof -
  assume s: "cbyte s 0 = SLASH"
  then have ne: "s \<noteq> []" and mem: "SLASH \<in> set s" by (cases s; simp add: cbyte_def)+
  obtain u g where u: "s = u @ SLASH # g" "SLASH \<notin> set g" using split_list_last[OF mem] by blast
  have w: "takeWhile (\<lambda>c. c \<noteq> SLASH) (rev g) = rev g" using u(2) by (auto simp: takeWhile_eq_all_conv)
  have ls: "last_slash s = length u" unfolding u(1) last_slash_def by (simp add: takeWhile_tail w)
  have t: "take (last_slash s + 1) s = u @ [SLASH]" unfolding ls by (simp add: u(1))
  obtain r where r: "s = dir_of s @ r" using dir_of_props(3)[OF s] by blast
  obtain v where v: "dir_of s = v @ [SLASH]" using dir_of_props(1)[OF s] by blast
  have "length v \<le> length u"
  proof (rule ccontr)
    assume lt: "\<not> length v \<le> length u"
    have "s ! length v = SLASH" using r v by (metis append.assoc append_Cons nth_append_length)
    then have "g ! (length v - length u - 1) = SLASH" using lt u(1) by (simp add: nth_append nth_Cons')
    moreover have "length v < length s" using r v by (metis append.assoc append_Cons length_append_singleton length_append less_add_same_cancel1 lessI trans_less_add1 length_Cons)
    then have "length v - length u - 1 < length g" using lt u(1) by simp
    ultimately show False using u(2) nth_mem by metis
  qed
  then have "take (length (dir_of s)) (u @ [SLASH]) = dir_of s"
    using r v u(1) t ls by (metis (no_types, lifting) append_eq_conv_conj length_append_singleton Suc_le_mono min.absorb1 take_take Suc_eq_plus1)
  then have a: "u @ [SLASH] = dir_of s @ drop (length (dir_of s)) (u @ [SLASH])" by (metis append_take_drop_id)
  have "cbyte (u @ [SLASH]) 0 = SLASH" using s u by (cases u) auto
  with a t show ?thesis by simp
qed


lemma first_slash_append:
  assumes "same_text (take (length (p @ q)) (p' @ q')) (p @ q)" "length (p @ q) \<le> length (p' @ q')"
    "SLASH \<notin> set p" "SLASH \<notin> set p'" "cbyte q 0 = SLASH" "cbyte q' 0 = SLASH"
  shows "same_text p' p \<and> same_text (take (length q) q') q"
proof -
  obtain r r' where q: "q = SLASH # r" "q' = SLASH # r'"
    using assms(5,6) by (cases q; cases q') (auto simp: cbyte_def)
  have "same_text p' p \<and> same_text (take (length r) r') r" by (rule first_slash) (use assms q in auto)
  then show ?thesis by (simp add: q same_text_def)
qed

lemma same_text_last: "same_text p q \<Longrightarrow> q \<noteq> [] \<Longrightarrow> p \<noteq> [] \<and> streql (last p) (last q)"
proof -
  assume a: "same_text p q" "q \<noteq> []"
  then have "p \<noteq> []" "length p = length q" by (auto simp: same_text_def dest: list_all2_lengthD)
  with a show ?thesis unfolding same_text_def by (simp add: last_conv_nth list_all2_nthD)
qed

lemma under_take: "same_text (take (length (d @ r)) f) (d @ r) \<Longrightarrow> under d f"
proof -
  assume "same_text (take (length (d @ r)) f) (d @ r)"
  then have "same_text (take (length d) (take (length (d @ r)) f)) (take (length d) (d @ r))" by (rule same_text_take)
  then show ?thesis by (simp add: under_def min_def)
qed

lemma authority_split: "link_has_authority a \<Longrightarrow> \<exists>p q. a = p @ ''//'' @ q \<and> SLASH \<notin> set p \<and> (p = [] \<or> last p = CHR '':'')"
proof -
  assume a: "link_has_authority a"
  have two: "take 2 x = ''//'' \<Longrightarrow> \<exists>q. x = ''//'' @ q" for x :: cstring by (metis append_take_drop_id)
  show ?thesis
  proof (cases "isalpha (cbyte a 0)")
    case True
    have c: "cbyte (dropWhile isalpha a) 0 = CHR '':''" "take 2 (tl (dropWhile isalpha a)) = ''//''"
      using a True by (auto simp: link_has_authority_def Let_def split: if_splits)
    obtain q where "dropWhile isalpha a = CHR '':'' # ''//'' @ q"
      using c two[of "tl (dropWhile isalpha a)"] by (cases "dropWhile isalpha a") (auto simp: cbyte_def)
    then have "a = (takeWhile isalpha a @ '':'') @ ''//'' @ q" by (metis append.assoc append_Cons append_Nil takeWhile_dropWhile_id)
    moreover have "SLASH \<notin> set (takeWhile isalpha a)" by (auto dest: set_takeWhileD simp: isalpha_def)
    ultimately show ?thesis
      by (intro exI[of _ "takeWhile isalpha a @ '':''"] exI[of _ q] conjI) auto
  next
    case False
    then have "take 2 a = ''//''" using a by (simp add: link_has_authority_def)
    from two[OF this] show ?thesis by force
  qed
qed

text \<open>A link that matches the rule of a start URL is on its host and under its directory.\<close>

lemma seed_pattern_confines:
  assumes "seed_ok (h, s)" "web_link a f"
    and "fst (joker_match None c (seed_pattern h s @ CHR ''*'' # x)) \<noteq> None" "c = link_lfull a f \<or> c = link_l a f"
  shows "one_host a h \<and> under (dir_of s) f"
proof -
  have s: "cbyte s 0 = SLASH" "cstr_ok (jump_identification h)" "cstr_ok s" "CHR ''*'' \<notin> set (jump_identification h)"
    "CHR ''*'' \<notin> set s" "jump_identification h \<noteq> []" "last (jump_identification h) \<noteq> CHR '':''"
    "SLASH \<notin> set (jump_identification h)"
    using assms(1) by (auto simp: seed_ok_def web_link_def)
  have w: "cbyte f 0 = SLASH" "SLASH \<notin> set (jump_identification a)" using assms(2) by (auto simp: web_link_def)
  define t where "t = take (last_slash s + 1) s"
  have t: "t = dir_of s @ drop (length (dir_of s)) t" "cbyte t 0 = SLASH" using last_slash_props[OF s(1)] by (auto simp: t_def)
  have pat: "seed_pattern h s = jump_identification h @ t" by (simp add: seed_pattern_def t_def)
  have "cstr_ok (jump_identification h @ t)" "CHR ''*'' \<notin> set (jump_identification h @ t)"
    using s(2-5) by (auto simp: t_def cstr_ok_def dest: in_set_takeD)
  then have m: "length (jump_identification h @ t) \<le> length c" "same_text (take (length (jump_identification h @ t)) c) (jump_identification h @ t)"
    using joker_match_prefix[OF assms(3)[unfolded pat]] s(6) by auto
  have no: "p = [] \<or> last p = CHR '':'' \<Longrightarrow> \<not> same_text p (jump_identification h)" for p
    using s(6,7) same_text_last[of p "jump_identification h"] streql_punct(1)[of "CHR '':''" "last (jump_identification h)"] by auto
  have full: "c \<noteq> link_lfull a f"
  proof
    assume c: "c = link_lfull a f"
    have "\<exists>p q. c = p @ ''//'' @ q \<and> SLASH \<notin> set p \<and> (p = [] \<or> last p = CHR '':'')"
    proof (cases "link_has_authority a")
      case True
      with c have "c = a @ f" using w by (simp add: link_lfull_def)
      moreover obtain p q where "a = p @ ''//'' @ q" "SLASH \<notin> set p" "p = [] \<or> last p = CHR '':''"
        using authority_split[OF True] by blast
      ultimately show ?thesis by (metis append.assoc)
    next
      case False
      then have "c = ''http:'' @ ''//'' @ a @ f" using c w by (simp add: link_lfull_def)
      moreover have "SLASH \<notin> set ''http:'' \<and> last ''http:'' = CHR '':''" by simp
      ultimately show ?thesis by blast
    qed
    then obtain p q where "c = p @ ''//'' @ q" "SLASH \<notin> set p" "p = [] \<or> last p = CHR '':''" by blast
    with m first_slash_append[of "jump_identification h" t p "''//'' @ q"] s(8) t(2) no show False by auto
  qed
  then have "c = jump_identification a @ f" using assms(4) w by (simp add: link_l_def)
  with m first_slash_append[of "jump_identification h" t "jump_identification a" f] s(8) t(2) w
  have "same_text (jump_identification a) (jump_identification h)" "same_text (take (length t) f) t" by auto
  then show ?thesis using under_take[of "dir_of s" "drop (length (dir_of s)) t" f] t(1) by (simp add: one_host_def)
qed


section \<open>The mirror stays in its directories\<close>

text \<open>The options of a mirror that stays below its start URLs, the default journey of the program:
  the wizard decides, links are followed down only, on the same address only, and the user gave no
  accepting filter.\<close>

definition confined_options :: "httrackp \<Rightarrow> bool" where
  "confined_options opt \<longleftrightarrow>
     wizard opt = HTS_WIZARD_AUTO \<and> seeker opt = HTS_SEEKER_DOWN \<and>
     travel opt AND HTS_TRAVEL_SCOPE_MASK = HTS_TRAVEL_SAME_ADDRESS \<and>
     \<not> nearlink opt \<and> extdepth opt \<le> 0 \<and> \<not> mirror_first_page opt \<and> host_alias opt = []"

definition confined_link :: "(cstring \<times> cstring) list \<Rightarrow> httrackp \<Rightarrow> lien_url \<Rightarrow> bool" where
  "confined_link seeds opt l \<longleftrightarrow>
     web_link (l_adr l) (l_fil l) \<and> in_seed seeds (l_adr l) (l_fil l) \<and>
     0 < premier l \<and> premier l < length (liens opt) \<and> one_host (l_adr l) (l_adr (heap opt (premier l)))"

definition confined_heap :: "(cstring \<times> cstring) list \<Rightarrow> httrackp \<Rightarrow> bool" where
  "confined_heap seeds opt \<longleftrightarrow>
     confined_options opt \<and> (\<forall>f \<in> set (filters opt). plus_of_seeds seeds f) \<and>
     liens opt \<noteq> [] \<and> premier (hd (liens opt)) = 0 \<and>
     (\<forall>i. 0 < i \<longrightarrow> i < length (liens opt) \<longrightarrow> confined_link seeds opt (heap opt i))"

text \<open>What one question to the wizard may change: the filters, by the rules of a start URL.\<close>

definition same_but_filters :: "httrackp \<Rightarrow> httrackp \<Rightarrow> bool" where
  "same_but_filters opt opt' \<longleftrightarrow>
     liens opt' = liens opt \<and> (confined_options opt \<longrightarrow> confined_options opt')"

lemma filters_insert_frame:
  "filters_insert opt k f = Some (opt', b) \<Longrightarrow> P f \<Longrightarrow> \<forall>g \<in> set (filters opt). P g \<Longrightarrow>
     same_but_filters opt opt' \<and> (\<forall>g \<in> set (filters opt'). P g)"
  using in_set_takeD[of _ k "filters opt"] in_set_dropD[of _ k "filters opt"]
  by (auto simp: filters_insert_def same_but_filters_def confined_options_def split: if_splits)

lemma insert_slots_frame:
  "insert_slots opt n fs = Some (opt', n') \<Longrightarrow> \<forall>f \<in> set fs. f \<noteq> [] \<longrightarrow> P f \<Longrightarrow> \<forall>g \<in> set (filters opt). P g \<Longrightarrow>
     same_but_filters opt opt' \<and> (\<forall>g \<in> set (filters opt'). P g)"
proof (induction fs arbitrary: opt n)
  case Nil
  then show ?case by (simp add: same_but_filters_def)
next
  case (Cons f fs)
  show ?case
  proof (cases "f = []")
    case True
    with Cons.prems show ?thesis by (simp add: same_but_filters_def)
  next
    case False
    then obtain o1 b where o1: "filters_insert opt (wizard_filters opt) f = Some (o1, b)"
      using Cons.prems(1) by (auto split: option.splits)
    then have fr: "same_but_filters opt o1 \<and> (\<forall>g \<in> set (filters o1). P g)"
      using filters_insert_frame[OF o1, of P] Cons.prems(2,3) False by simp
    define o2 where "o2 = (if b then o1\<lparr>wizard_filters := wizard_filters o1 + 1\<rparr> else o1)"
    have "insert_slots o2 (if b then n + 1 else n) fs = Some (opt', n')"
      using Cons.prems(1) False o1 by (simp add: o2_def split: if_splits)
    moreover have "\<forall>g \<in> set (filters o2). P g" using fr by (simp add: o2_def)
    ultimately have "same_but_filters o2 opt' \<and> (\<forall>g \<in> set (filters opt'). P g)"
      using Cons.IH Cons.prems(2) by simp
    with fr show ?thesis by (simp add: same_but_filters_def o2_def confined_options_def split: if_splits)
  qed
qed

lemma insert_filters_frame:
  assumes "hts_wizard_insert_filters ok opt n ad fl up = Some (opt', k)"
    and "\<And>slot. hts_wizard_answer_filter slot n ad fl up \<noteq> [] \<Longrightarrow> P (hts_wizard_answer_filter slot n ad fl up)"
    and "\<forall>g \<in> set (filters opt). P g"
  shows "same_but_filters opt opt' \<and> (\<forall>g \<in> set (filters opt'). P g)"
proof -
  obtain o1 where o1: "filters_grow ok opt 2 = Some o1"
    using assms(1) by (auto simp: hts_wizard_insert_filters_def split: option.splits)
  then have e: "liens o1 = liens opt" "confined_options opt \<Longrightarrow> confined_options o1" "filters o1 = filters opt"
    by (auto simp: filters_grow_def confined_options_def split: if_splits)
  define o2 where "o2 = (if wizard_filters o1 > length (filters o1) then o1\<lparr>wizard_filters := length (filters o1)\<rparr> else o1)"
  have r: "insert_slots o2 0 (map (\<lambda>slot. hts_wizard_answer_filter slot n ad fl up) [0..<HTS_WIZARD_MAX_FILTERS]) = Some (opt', k)"
    using assms(1) o1 by (simp add: hts_wizard_insert_filters_def o2_def Let_def)
  have "same_but_filters o2 opt' \<and> (\<forall>g \<in> set (filters opt'). P g)"
    using insert_slots_frame[OF r, of P] assms(2,3) e(3) by (auto simp: o2_def)
  with e show ?thesis by (simp add: same_but_filters_def o2_def confined_options_def split: if_splits)
qed


lemma acceptlink_cases:
  assumes "hts_acceptlink env opt ptr ad fl tag attribute in_css 0 (Some 0) = Some (opt', 0, prio, jt)"
    "\<not> known env ad fl" "\<And>fb. check_link env ad fl fb = -1" "\<not> nearlink opt"
  obtains v v' o1 where
    "(if meme_adresse env opt ad (l_adr (heap opt ptr))
      then phase2_same opt ptr fl \<lparr>forbidden = -1, upper_refused = False, may_prio = 0, set_prio = 0\<rparr>
      else Some (phase2_other opt ptr ad \<lparr>forbidden = -1, upper_refused = False, may_prio = 0, set_prio = 0\<rparr>)) = Some v"
    "phase4 env opt ptr ad fl v = Some (o1, v')" "forbidden v' = 0" "opt' = o1"
proof -
  have e: "embed_triggered opt tag attribute in_css = False" using assms(4) by (simp add: embed_triggered_def)
  have p3: "phase3 opt fl False v = v" for v using assms(4) by (simp add: phase3_def)
  obtain o1 prio' jt' up where i: "acceptlink_impl env opt ptr ad fl tag attribute in_css 0 (Some 0) = Some (o1, 0, prio', jt', up)" "opt' = o1"
    using assms(1,3) by (auto simp: hts_acceptlink_def Let_def split: if_splits)
  show thesis
    using i(1) assms(2) i(2) by (auto simp: acceptlink_impl_def e p3 Let_def split: if_splits option.splits intro: that)
qed

lemma wiz_robots_frame:
  "wiz_robots opt ad fl fa v q = Some (v', q') \<Longrightarrow> (v' = v \<and> q' = q) \<or> (v' = REFUSE_LINK v \<and> \<not> q')"
  by (auto simp: wiz_robots_def split: if_splits option.splits)

text \<open>Under these options an accepted link was allowed by the tree or by an accepting filter.\<close>

lemma phase4_follow:
  assumes "phase4 env opt ptr ad fl v = Some (o1, v')" "forbidden v' = 0" "confined_options opt" "0 < ptr"
  shows "o1 = opt \<and> (forbidden v = 0 \<or>
    fst (fa_strjoker_dual (calloc_ok env) 0 (filters opt) (link_lfull ad fl) (link_l ad fl) None None (Some 0)) = 1)"
proof -
  have r: "forbidden (REFUSE_LINK x) = 1" for x by (simp add: REFUSE_LINK_def)
  have o: "wizard opt = HTS_WIZARD_AUTO" "extdepth opt \<le> 0" "\<not> mirror_first_page opt"
    using assms(3) by (auto simp: confined_options_def)
  obtain v1 q1 fa where f: "wiz_filters env opt ad fl v (forbidden v = -1) = (v1, q1, fa)" by (cases "wiz_filters env opt ad fl v (forbidden v = -1)")
  obtain v2 q2 where a: "wiz_auto opt ptr 0 v1 q1 = (v2, q2)" by fastforce
  have "hts_wizard_url_fits ad fl" using assms(1,2) o(1) r by (auto simp: phase4_def split: if_splits)
  then obtain v3 q3 where rb: "wiz_robots opt ad fl fa v2 q2 = Some (v3, q3)"
      "(if q3 then wiz_ask env opt ptr ad fl 0 v3 else Some (opt, v3)) = Some (o1, v')"
    using assms(1,4) o f a
    by (auto simp: phase4_def wiz_rules_def wiz_extdepth_def wiz_mirror_def Let_def split: option.splits prod.splits)
  have q2: "\<not> q2" using a assms(4) o(1) by (auto simp: wiz_auto_def split: if_splits)
  with wiz_robots_frame[OF rb(1)] have "\<not> q3" by auto
  with rb(2) have e: "o1 = opt" "v' = v3" by auto
  with wiz_robots_frame[OF rb(1)] assms(2) r have "v3 = v2" by auto
  with a assms(2) e r have "v1 = v2" "\<not> q1" by (auto simp: wiz_auto_def assms(4) o(1) split: if_splits)
  with f e \<open>v3 = v2\<close> assms(2) r show ?thesis by (auto simp: wiz_filters_def Let_def split: if_splits)
qed

lemma filters_confine:
  assumes "fst (fa_strjoker_dual ok 0 fs (link_lfull ad fl) (link_l ad fl) None None (Some 0)) = 1"
    and "\<forall>f \<in> set fs. plus_of_seeds seeds f" "\<forall>hs \<in> set seeds. seed_ok hs" "web_link ad fl"
  shows "in_seed seeds ad fl"
proof -
  obtain f c where f: "f \<in> set fs" "cbyte f 0 = CHR ''+''" "filter_hit ok 0 c None f" "c = link_lfull ad fl \<or> c = link_l ad fl"
    using dual_accepts[OF assms(1)] by blast
  then obtain h s x where h: "(h, s) \<in> set seeds" "f = CHR ''+'' # seed_pattern h s @ CHR ''*'' # x"
    using assms(2) by (auto simp: plus_of_seeds_def)
  then have "fst (joker_match None c (seed_pattern h s @ CHR ''*'' # x)) \<noteq> None"
    using f(3) by (intro strjoker_joker[of ok]) (auto simp: filter_hit_def filter_body_def Let_def split: if_splits)
  from seed_pattern_confines[OF _ assms(4) this f(4)] h(1) assms(3) show ?thesis by (auto simp: in_seed_def)
qed


text \<open>Under the root every path is accepted; under another start directory a link cannot be in
  the directory \<open>//\<close>, the one that the relative links do not tell from the root.\<close>

lemma seed_root: "cbyte f 0 = SLASH \<Longrightarrow> under ''/'' f"
  by (cases f) (auto simp: under_def same_text_def cbyte_def)

lemma seed_dir_second:
  assumes "seed_ok (h, s)" "under (dir_of s) f" "dir_of s \<noteq> ''/''" "cbyte f 0 = SLASH"
  shows "dir_of f \<noteq> ''//''"
proof
  assume d: "dir_of f = ''//''"
  have s: "cbyte s 0 = SLASH" "cbyte s 1 \<noteq> SLASH" using assms(1) by (auto simp: seed_ok_def web_link_def)
  obtain r where r: "s = dir_of s @ r" using dir_of_props(3)[OF s(1)] by blast
  obtain b t where ds: "dir_of s = SLASH # b # t"
    using dir_of_props(4)[OF s(1)] dir_of_props(1)[OF s(1)] assms(3)
    by (cases "dir_of s"; cases "tl (dir_of s)") (auto simp: cbyte_def)
  then have b: "b \<noteq> SLASH" using s(2) r by (metis append_Cons cbyte_Cons_Suc One_nat_def cbyte_Cons_0)
  obtain q where "f = ''//'' @ q" using dir_of_props(3)[OF assms(4)] d by metis
  with assms(2) ds b show False by (auto simp: under_def same_text_def streql_slash streql_punct)
qed

lemma in_seed_under:
  assumes "in_seed seeds a f" "\<forall>hs \<in> set seeds. seed_ok hs" "one_host b a" "under (dir_of f) g"
  shows "in_seed seeds b g"
proof -
  obtain h s where h: "(h, s) \<in> set seeds" "one_host a h" "under (dir_of s) f" using assms(1) by (auto simp: in_seed_def)
  have s: "cbyte s 0 = SLASH" using assms(2) h(1) by (auto simp: seed_ok_def web_link_def)
  obtain u where "dir_of s = u @ [SLASH]" using dir_of_props(1)[OF s] by blast
  then have "under (dir_of s) g" using under_trans dir_of_props(2)[OF s] h(3) assms(4) by blast
  moreover have "one_host b h" using one_host_trans[OF assms(3) h(2)] .
  ultimately show ?thesis using h(1) by (auto simp: in_seed_def)
qed

lemma in_seed_dir:
  assumes "in_seed seeds a f" "\<forall>hs \<in> set seeds. seed_ok hs" "cbyte f 0 = SLASH" "dir_of f = ''//''" "one_host b a" "cbyte g 0 = SLASH"
  shows "in_seed seeds b g"
proof -
  obtain h s where h: "(h, s) \<in> set seeds" "one_host a h" "under (dir_of s) f" using assms(1) by (auto simp: in_seed_def)
  then have "dir_of s = ''/''" using seed_dir_second[of h s f] assms(2-4) by auto
  then have "under (dir_of s) g" using seed_root[OF assms(6)] by simp
  with h one_host_trans[OF assms(5) h(2)] show ?thesis by (auto simp: in_seed_def)
qed

lemma tree_confines:
  assumes "confined_heap seeds opt" "\<forall>hs \<in> set seeds. seed_ok hs" "0 < ptr" "ptr < length (liens opt)" "web_link ad fl"
    and "(if meme_adresse env opt ad (l_adr (heap opt ptr))
      then phase2_same opt ptr fl \<lparr>forbidden = -1, upper_refused = False, may_prio = 0, set_prio = 0\<rparr>
      else Some (phase2_other opt ptr ad \<lparr>forbidden = -1, upper_refused = False, may_prio = 0, set_prio = 0\<rparr>)) = Some v"
    and "forbidden v = 0"
  shows "in_seed seeds ad fl"
proof -
  let ?l = "heap opt ptr" and ?p = "heap opt (premier (heap opt ptr))"
  have o: "confined_options opt" using assms(1) by (simp add: confined_heap_def)
  have l: "confined_link seeds opt ?l" using assms(1,3,4) by (simp add: confined_heap_def)
  then have p: "confined_link seeds opt ?p" using assms(1) by (simp add: confined_heap_def confined_link_def)
  have w: "cbyte (l_fil ?l) 0 = SLASH" "cbyte (l_fil ?p) 0 = SLASH" "cbyte fl 0 = SLASH" "ad \<noteq> ''file://''" "l_adr ?l \<noteq> ''file://''"
    using l p assms(5) by (auto simp: confined_link_def web_link_def)
  have "meme_adresse env opt ad (l_adr ?l)"
    using assms(6,7) o by (auto simp: phase2_other_def confined_options_def Let_def split: if_splits)
  moreover have "hts_span_of None = []" by (simp add: hts_span_of_def)
  ultimately have "same_text ad (l_adr ?l)"
    using o strfield2_same by (auto simp: meme_adresse_def hts_host_same_alias_def hts_host_alias_rules_def confined_options_def)
  then have hl: "one_host ad (l_adr ?l)" using jump_identification_same w(4,5) by blast
  moreover have "one_host (l_adr ?l) (l_adr ?p)" using l by (simp add: confined_link_def)
  ultimately have hp: "one_host ad (l_adr ?p)" using one_host_trans by blast
  have il: "in_seed seeds (l_adr ?l) (l_fil ?l)" and ip: "in_seed seeds (l_adr ?p) (l_fil ?p)"
    using l p by (auto simp: confined_link_def)
  show ?thesis
  proof (cases "dir_of (l_fil ?l) = ''//'' \<or> dir_of (l_fil ?p) = ''//''")
    case True
    then show ?thesis
      using in_seed_dir[OF il assms(2) w(1) _ hl w(3)] in_seed_dir[OF ip assms(2) w(2) _ hp w(3)] by blast
  next
    case False
    have up: "seeker opt AND HTS_SEEKER_UP = 0" using o by (simp add: confined_options_def HTS_SEEKER_UP_def HTS_SEEKER_DOWN_def)
    have "under (dir_of (l_fil ?l)) fl \<or> under (dir_of (l_fil ?p)) fl"
      using phase2_same_under[OF _ assms(7) _ up w(3,1,2)] assms(6) False \<open>meme_adresse env opt ad (l_adr ?l)\<close> by simp
    then show ?thesis using in_seed_under[OF il assms(2) hl] in_seed_under[OF ip assms(2) hp] by blast
  qed
qed

lemma follow_confined:
  assumes "confined_heap seeds opt" "\<forall>hs \<in> set seeds. seed_ok hs" "0 < ptr" "ptr < length (liens opt)" "web_link ad fl"
    and "\<not> known env ad fl" "\<And>fb. check_link env ad fl fb = -1"
    and "hts_acceptlink env opt ptr ad fl tag attribute in_css 0 (Some 0) = Some (opt', 0, prio, jt)"
  shows "opt' = opt \<and> in_seed seeds ad fl"
proof -
  have o: "confined_options opt" and fs: "\<forall>f \<in> set (filters opt). plus_of_seeds seeds f"
    using assms(1) by (auto simp: confined_heap_def)
  show ?thesis
  proof (rule acceptlink_cases[OF assms(8,6,7)], use o in \<open>simp add: confined_options_def\<close>)
    fix v v' o1
    assume a: "(if meme_adresse env opt ad (l_adr (heap opt ptr))
      then phase2_same opt ptr fl \<lparr>forbidden = -1, upper_refused = False, may_prio = 0, set_prio = 0\<rparr>
      else Some (phase2_other opt ptr ad \<lparr>forbidden = -1, upper_refused = False, may_prio = 0, set_prio = 0\<rparr>)) = Some v"
      "phase4 env opt ptr ad fl v = Some (o1, v')" "forbidden v' = 0" "opt' = o1"
    from phase4_follow[OF a(2,3) o assms(3)] tree_confines[OF assms(1-5) a(1)] filters_confine[OF _ fs assms(2,5)] a(4)
    show ?thesis by blast
  qed
qed


lemma seed_answer:
  assumes "(h, s) \<in> set seeds" "cbyte s 0 = SLASH" "hts_wizard_answer_filter slot 5 h s False \<noteq> []"
  shows "plus_of_seeds seeds (hts_wizard_answer_filter slot 5 h s False)"
proof -
  have "hts_wizard_answer_filter slot 5 h s False = CHR ''+'' # seed_pattern h s @ CHR ''*'' # []"
    using assms(2,3)
    by (simp add: hts_wizard_answer_filter_def hts_wizard_scope_answer_def HTS_WIZARD_SCOPE_INCLUDE_def
        HTS_WIZARD_SCOPE_EXCLUDE_def wizard_cat_path_def wizard_cat_host_def seed_pattern_def Let_def split: if_splits)
  with assms(1) show ?thesis unfolding plus_of_seeds_def by fastforce
qed

lemma seed_confined:
  assumes "confined_heap seeds opt" "(ad, fl) \<in> set seeds" "seed_ok (ad, fl)"
    and "\<not> known env ad fl" "\<And>fb. check_link env ad fl fb = -1"
    and "hts_acceptlink env opt 0 ad fl tag attribute in_css 0 (Some 0) = Some (opt', 0, prio, jt)"
  shows "same_but_filters opt opt' \<and> (\<forall>f \<in> set (filters opt'). plus_of_seeds seeds f)"
proof -
  have o: "wizard opt = HTS_WIZARD_AUTO" "\<not> mirror_first_page opt" "\<not> nearlink opt"
    "seeker opt AND HTS_SEEKER_UP = 0" "seeker opt AND HTS_SEEKER_DOWN \<noteq> 0" and fs: "\<forall>f \<in> set (filters opt). plus_of_seeds seeds f"
    using assms(1) by (auto simp: confined_heap_def confined_options_def HTS_SEEKER_UP_def HTS_SEEKER_DOWN_def)
  have s: "cbyte fl 0 = SLASH" using assms(3) by (simp add: seed_ok_def web_link_def)
  show ?thesis
  proof (rule acceptlink_cases[OF assms(6,4,5) o(3)])
    fix v v' o1
    assume a: "phase4 env opt 0 ad fl v = Some (o1, v')" "forbidden v' = 0" "opt' = o1"
    then have fits: "hts_wizard_url_fits ad fl" using o(1) by (auto simp: phase4_def REFUSE_LINK_def split: if_splits)
    obtain v3 where ask: "wiz_ask env opt 0 ad fl 0 v3 = Some (o1, v')"
      using a(1) fits o by (auto simp: phase4_def wiz_rules_def wiz_mirror_def wiz_auto_def Let_def split: option.splits prod.splits)
    have "fst (hts_wizard_apply_verdict opt 5 x y) = opt" for x y by (simp add: hts_wizard_apply_verdict_def)
    then obtain k where "hts_wizard_insert_filters (realloc_ok env) opt 5 ad fl False = Some (o1, k)"
      using ask o(4,5) by (auto simp: wiz_ask_def Let_def split: prod.splits) (metis fst_conv)
    from insert_filters_frame[OF this, of "plus_of_seeds seeds"] seed_answer[OF assms(2) s] fs a(3) show ?thesis by blast
  qed
qed

lemma record_confined:
  assumes "confined_heap seeds opt" "same_but_filters opt o1" "\<forall>f \<in> set (filters o1). plus_of_seeds seeds f"
    "ptr < length (liens opt)" "web_link ad fl" "in_seed seeds ad fl"
  shows "confined_heap seeds (record_accepted o1 ptr ad fl prio)"
proof -
  let ?o = "record_accepted o1 ptr ad fl prio"
  obtain x where x: "liens ?o = liens opt @ [x]" "l_adr x = ad" "l_fil x = fl"
    "premier x = (if strfield2 (jump_identification ad) (jump_identification (l_adr (heap opt ptr))) \<noteq> 0 \<and> premier (heap opt ptr) \<noteq> 0
       then premier (heap opt ptr) else length (liens opt))"
    using assms(2) by (auto simp: record_accepted_def Let_def same_but_filters_def)
  have c: "confined_heap seeds opt" "liens opt \<noteq> []" "premier (hd (liens opt)) = 0" using assms(1) by (auto simp: confined_heap_def)
  have opts: "confined_options ?o"
    using assms(1,2) by (simp add: confined_heap_def same_but_filters_def confined_options_def record_accepted_def Let_def)
  have old: "confined_link seeds ?o (heap ?o i)" if "0 < i" "i < length (liens opt)" for i
  proof -
    have "confined_link seeds opt (heap opt i)" using that assms(1) by (simp add: confined_heap_def)
    then show ?thesis using that x(1) by (auto simp: confined_link_def nth_append)
  qed
  have new: "confined_link seeds ?o x"
  proof (cases "premier x = length (liens opt)")
    case True
    then show ?thesis using assms(5,6) x c(2) by (simp add: confined_link_def)
  next
    case False
    then have p: "strfield2 (jump_identification ad) (jump_identification (l_adr (heap opt ptr))) \<noteq> 0"
      "premier (heap opt ptr) \<noteq> 0" "premier x = premier (heap opt ptr)" using x(4) by (auto split: if_splits)
    have "0 < ptr" using p(2) c(2,3) by (cases ptr) (auto simp: hd_conv_nth)
    then have l: "confined_link seeds opt (heap opt ptr)" using assms(1,4) by (simp add: confined_heap_def)
    have "one_host ad (l_adr (heap opt ptr))" using strfield2_same[OF p(1)] by (simp add: one_host_def)
    with l have "one_host ad (l_adr (heap opt (premier x)))" using p(3) one_host_trans unfolding confined_link_def by metis
    then show ?thesis using l assms(5,6) x p(3) by (simp add: confined_link_def nth_append)
  qed
  have "confined_link seeds ?o (heap ?o i)" if "0 < i" "i < length (liens ?o)" for i
    using old[OF that(1)] new that(2) x(1) by (cases "i = length (liens opt)") auto
  moreover have "filters ?o = filters o1" by (simp add: record_accepted_def Let_def)
  ultimately show ?thesis using opts assms(3) x(1) c(2,3) by (simp add: confined_heap_def)
qed

lemma seed_in_seed: "(h, s) \<in> set seeds \<Longrightarrow> seed_ok (h, s) \<Longrightarrow> in_seed seeds h s"
proof -
  assume h: "(h, s) \<in> set seeds" "seed_ok (h, s)"
  then obtain r where "s = dir_of s @ r" using dir_of_props(3)[of s] by (auto simp: seed_ok_def web_link_def)
  then have "take (length (dir_of s)) s = dir_of s" by (metis append_eq_conv_conj)
  then have "under (dir_of s) s" by (simp add: under_def same_text_refl)
  with h(1) show ?thesis unfolding in_seed_def by (intro bexI[OF _ h(1)]) simp
qed

lemma step_confined:
  "crawl_step seeds opt opt' \<Longrightarrow> \<forall>hs \<in> set seeds. seed_ok hs \<Longrightarrow> confined_heap seeds opt \<Longrightarrow> confined_heap seeds opt'"
proof (induction rule: crawl_step.induct)
  case (seed ad fl env opt tag attribute in_css opt' prio jt)
  then have s: "seed_ok (ad, fl)" by blast
  from seed have "same_but_filters opt opt' \<and> (\<forall>f \<in> set (filters opt'). plus_of_seeds seeds f)"
    by (intro seed_confined[OF seed(6) seed(1) s]) auto
  moreover have "0 < length (liens opt)" using seed(6) by (simp add: confined_heap_def)
  moreover have "web_link ad fl" using s by (simp add: seed_ok_def)
  ultimately show ?case using record_confined[OF seed(6)] seed_in_seed[OF seed(1) s] by blast
next
  case (follow ptr opt ad fl env tag attribute in_css opt' prio jt)
  have "opt' = opt \<and> in_seed seeds ad fl" by (rule follow_confined[OF follow(8,7,1,2,3,4,5,6)])
  moreover have "same_but_filters opt opt" by (simp add: same_but_filters_def)
  ultimately show ?case using record_confined[OF follow(8)] follow(2,3,8) by (simp add: confined_heap_def)
qed

lemma reach_confined:
  "crawl_reach seeds opt0 opt \<Longrightarrow> \<forall>hs \<in> set seeds. seed_ok hs \<Longrightarrow> confined_heap seeds opt0 \<Longrightarrow> confined_heap seeds opt"
  by (induction rule: crawl_reach.induct) (auto intro: step_confined)



definition demo_options :: httrackp where
  "demo_options = \<lparr>liens = [primary_link 9], nearlink = False, getmode = 3, wizard = HTS_WIZARD_AUTO, travel = 0,
     seeker = 1, extdepth = 0, mirror_first_page = False, robots = HTS_ROBOTS_NEVER, robotsptr = [],
     filters = [], maxfilter = 100, wizard_filters = 0, upper_links_refused = False, mimedefs = [],
     host_alias = [], urlhack = True, no_www_dedup = False\<rparr>"

definition demo_env :: wiz_env where
  "demo_env = \<lparr>known = (\<lambda>_ _. False), query3 = (\<lambda>_. []), check_link = (\<lambda>_ _ _. -1),
     check_mime = (\<lambda>_ _ _ _. -1), calloc_ok = True, realloc_ok = True\<rparr>"

definition demo_seeded :: httrackp where
  "demo_seeded = demo_options\<lparr>filters := [''+h.org/d/*''], wizard_filters := 1\<rparr>"

lemma demo_seed:
  "hts_acceptlink demo_env demo_options 0 ''h.org'' ''/d/i'' None None False 0 (Some 0) = Some (demo_seeded, 0, 0, Some 0)"
  by code_simp

definition demo_first :: httrackp where
  "demo_first = record_accepted demo_seeded 0 ''h.org'' ''/d/i'' 0"

lemma demo_filter: "fst (fa_strjoker_dual True 0 [''+h.org/d/*''] ''http://h.org/d/xy'' ''h.org/d/xy'' None None (Some 0)) = 1"
proof -
  have "fst (strjoker True ''h.org/d/xy'' ''h.org/d/*'' None None) \<noteq> None"
    by (simp add: strjoker_fst joker_eval)
  then have "filter_hit True 0 ''h.org/d/xy'' None ''+h.org/d/*''" by (simp add: filter_hit_def filter_body_def)
  then show ?thesis by (simp add: dual_last_match filter_sign_def)
qed

lemma demo_follow:
  "hts_acceptlink demo_env demo_first 1 ''h.org'' ''/d/xy'' None None False 0 (Some 0) = Some (demo_first, 0, 0, Some 0)"
proof -
  let ?v = "\<lparr>forbidden = -1, upper_refused = False, may_prio = 0, set_prio = 0\<rparr>"
  have p1: "phase1_refused demo_first 1 ''/d/xy'' False = False" by code_simp
  have m: "meme_adresse demo_env demo_first ''h.org'' (l_adr (heap demo_first 1))" by code_simp
  have p2: "phase2_same demo_first 1 ''/d/xy'' ?v = Some (ACCEPT_LINK ?v)" by code_simp
  have u: "hts_wizard_url_fits ''h.org'' ''/d/xy''" by code_simp
  have l: "link_lfull ''h.org'' ''/d/xy'' = ''http://h.org/d/xy''" "link_l ''h.org'' ''/d/xy'' = ''h.org/d/xy''" by code_simp+
  have d: "wizard demo_first = HTS_WIZARD_AUTO" "extdepth demo_first = 0" "\<not> mirror_first_page demo_first" "\<not> nearlink demo_first"
    "robots demo_first = HTS_ROBOTS_NEVER" "filters demo_first = [''+h.org/d/*'']" "travel demo_first = 0" by code_simp+
  have e: "calloc_ok demo_env" "known demo_env = (\<lambda>_ _. False)" "check_link demo_env = (\<lambda>_ _ _. -1)" by (simp_all add: demo_env_def)
  have "phase4 demo_env demo_first 1 ''h.org'' ''/d/xy'' (ACCEPT_LINK ?v) = Some (demo_first, (ACCEPT_LINK (ACCEPT_LINK ?v))\<lparr>may_prio := 0\<rparr>)"
    using u d e l demo_filter
    by (simp add: phase4_def wiz_rules_def wiz_extdepth_def wiz_filters_def wiz_mirror_def wiz_auto_def wiz_robots_def)
  then show ?thesis
    using d e p1 p2 m by (simp add: hts_acceptlink_def acceptlink_impl_def embed_triggered_def phase3_def ACCEPT_LINK_def Let_def)
qed

lemma demo_reach: "crawl_reach [(''h.org'', ''/d/i'')] demo_options (record_accepted demo_first 1 ''h.org'' ''/d/xy'' 0)"
proof -
  have c: "check_link demo_env a f fb = -1" "\<not> known demo_env a f" for a f fb by (simp_all add: demo_env_def)
  have "crawl_step [(''h.org'', ''/d/i'')] demo_options demo_first"
    unfolding demo_first_def by (rule crawl_step.seed[OF _ c(2) c(1) demo_seed]) simp
  moreover have "crawl_step [(''h.org'', ''/d/i'')] demo_first (record_accepted demo_first 1 ''h.org'' ''/d/xy'' 0)"
    by (rule crawl_step.follow[OF _ _ _ c(2) c(1) demo_follow]) code_simp+
  ultimately show ?thesis by (meson crawl_reach.intros)
qed

end
