(* ===== verification/WizardDecision.thy ===== *)
theory WizardDecision
  imports WizardClaims
begin

text \<open>
  The verdict of the wizard as one list of rules in the order of their authority (\<open>link_decision\<close>),
  which the phases of \<open>hts_acceptlink_\<close> implement, and the authority of robots.txt.
\<close>

section \<open>The verdict as a list of rules\<close>

definition robots_refuse :: "httrackp \<Rightarrow> cstring \<Rightarrow> cstring \<Rightarrow> bool" where
  "robots_refuse opt ad fl \<longleftrightarrow> robots opt \<noteq> HTS_ROBOTS_NEVER \<and> checkrobots (robotsptr opt) ad fl = Some (-1)"

definition filter_verdict :: "wiz_env \<Rightarrow> httrackp \<Rightarrow> cstring \<Rightarrow> cstring \<Rightarrow> int" where
  "filter_verdict env opt ad fl =
     (case last_hit (\<lambda>f. filter_hit (calloc_ok env) 0 (link_lfull ad fl) None f \<or>
                         filter_hit (calloc_ok env) 0 (link_l ad fl) None f) (filters opt) of
        None \<Rightarrow> 0 | Some k \<Rightarrow> filter_sign (filters opt ! k))"

text \<open>What the journey says of the link: the verdict of the tree, of the scope, and of the files next
  to a page.  A negative number is no opinion.\<close>

definition journey_verdict :: "wiz_env \<Rightarrow> httrackp \<Rightarrow> nat \<Rightarrow> cstring \<Rightarrow> cstring \<Rightarrow> bool \<Rightarrow> int \<Rightarrow> int" where
  "journey_verdict env opt ptr ad fl embedded prio =
     (let v = \<lparr>forbidden = -1, upper_refused = False, may_prio = 0, set_prio = prio\<rparr> in
      case (if meme_adresse env opt ad (l_adr (heap opt ptr)) then phase2_same opt ptr fl v
            else Some (phase2_other opt ptr ad v)) of
        None \<Rightarrow> -1 | Some v \<Rightarrow> forbidden (phase3 opt fl embedded v))"

definition link_decision :: "wiz_env \<Rightarrow> httrackp \<Rightarrow> nat \<Rightarrow> cstring \<Rightarrow> cstring \<Rightarrow> int \<Rightarrow> bool" where
  "link_decision env opt ptr ad fl journey \<longleftrightarrow>
     hts_wizard_url_fits ad fl \<and>
     (let by_filter = filter_verdict env opt ad fl;
          overruled = (robots opt = HTS_ROBOTS_SOMETIMES \<and> by_filter = 1)
      in (robots_refuse opt ad fl \<longrightarrow> overruled) \<and>
         (if by_filter \<noteq> 0 then by_filter = 1
          else journey = 0 \<or> (extdepth opt > 0 \<and> depth (heap opt ptr) > extdepth opt)))"

lemma filter_verdict_range: "filter_verdict env opt ad fl \<in> {-1, 0, 1}"
  by (auto simp: filter_verdict_def filter_sign_def split: option.splits)

lemma filter_verdict_dual:
  "fst (fa_strjoker_dual (calloc_ok env) 0 (filters opt) (link_lfull ad fl) (link_l ad fl) None None (Some 0)) =
     filter_verdict env opt ad fl"
  by (simp add: dual_last_match filter_verdict_def)

lemma verdict_forbidden [simp]:
  "forbidden (ACCEPT_LINK v) = 0" "forbidden (REFUSE_LINK v) = 1"
  by (simp_all add: ACCEPT_LINK_def REFUSE_LINK_def)

lemma wiz_robots_verdict:
  "wiz_robots opt ad fl fa v q = Some (v', q') \<Longrightarrow>
     (if robots_refuse opt ad fl \<and> \<not> (\<not> q \<and> fa \<and> forbidden v \<noteq> 1 \<and> robots opt = HTS_ROBOTS_SOMETIMES)
      then v' = REFUSE_LINK v \<and> \<not> q' else v' = v \<and> q' = q)"
  by (auto simp: wiz_robots_def robots_refuse_def hts_robots_forbids_def split: option.splits if_splits)

lemma phase4_decides:
  assumes "phase4 env opt ptr ad fl v = Some (o1, v')" "wizard opt = HTS_WIZARD_AUTO" "\<not> mirror_first_page opt" "0 < ptr"
    "forbidden v \<in> {-1, 0, 1}"
  shows "o1 = opt \<and> forbidden v' = (if link_decision env opt ptr ad fl (forbidden v) then 0 else 1)"
proof (cases "hts_wizard_url_fits ad fl")
  case False
  with assms(1,2) show ?thesis by (auto simp: phase4_def link_decision_def)
next
  case True
  define fv where "fv = filter_verdict env opt ad fl"
  obtain v0 q0 where e: "wiz_extdepth opt ptr v (forbidden v = -1) = (v0, q0)" by fastforce
  obtain v1 q1 fa where f: "wiz_filters env opt ad fl v0 q0 = (v1, q1, fa)" by (cases "wiz_filters env opt ad fl v0 q0")
  obtain v2 q2 where a: "wiz_auto opt ptr 0 v1 q1 = (v2, q2)" by fastforce
  obtain v3 q3 where r: "wiz_robots opt ad fl fa v2 q2 = Some (v3, q3)"
      "(if q3 then wiz_ask env opt ptr ad fl 0 v3 else Some (opt, v3)) = Some (o1, v')"
    using assms(1-4) True e f a
    by (auto simp: phase4_def wiz_rules_def wiz_mirror_def Let_def split: option.splits prod.splits)
  have q2: "\<not> q2" using a assms(2,4) by (auto simp: wiz_auto_def split: if_splits)
  have r3: "if robots_refuse opt ad fl \<and> \<not> (fa \<and> forbidden v2 \<noteq> 1 \<and> robots opt = HTS_ROBOTS_SOMETIMES)
      then v3 = REFUSE_LINK v2 \<and> \<not> q3 else v3 = v2 \<and> \<not> q3" using wiz_robots_verdict[OF r(1)] q2 by auto
  then have o: "o1 = opt" "v' = v3" using r(2) by (auto split: if_splits)
  have v0: "forbidden v0 = (if extdepth opt > 0 \<and> depth (heap opt ptr) > extdepth opt then 0 else forbidden v)"
    "q0 \<longleftrightarrow> forbidden v0 = -1" using e assms(4) by (auto simp: wiz_extdepth_def split: if_splits)
  have v1: "forbidden v1 = (if fv = 1 then 0 else if fv = -1 then 1 else forbidden v0)"
    "q1 \<longleftrightarrow> fv \<notin> {1, -1} \<and> q0" "fa \<longleftrightarrow> fv \<in> {1, -1}"
    using f by (auto simp: wiz_filters_def filter_verdict_dual Let_def fv_def split: if_splits)
  have v2: "forbidden v2 = (if q1 then 1 else forbidden v1)" using a assms(2,4) by (auto simp: wiz_auto_def split: if_splits)
  have fr: "fv \<in> {-1, 0, 1}" unfolding fv_def by (rule filter_verdict_range)
  have "forbidden v' = (if link_decision env opt ptr ad fl (forbidden v) then 0 else 1)"
    using fr assms(5) r3 v0 v1 v2 True unfolding o(2) link_decision_def Let_def fv_def[symmetric]
    by (auto split: if_splits)
  with o show ?thesis by simp
qed


definition verdict_range :: "verdict \<Rightarrow> bool" where
  "verdict_range v \<longleftrightarrow> forbidden v \<in> {-1, 0, 1}"

lemma tree_moves_range: "verdict_range v \<Longrightarrow> verdict_range (tree_moves opt imported tempo tempo2 v)"
  by (auto simp: verdict_range_def tree_moves_def accept_unless_def Let_def split: if_splits)

lemma phase2_range:
  assumes "(if b then phase2_same opt ptr fl v else Some (phase2_other opt ptr ad v)) = Some v'" "verdict_range v"
  shows "verdict_range v'"
proof (cases b)
  case True
  with assms show ?thesis by (auto simp: phase2_same_def tree_moves_range split: option.splits if_splits)
next
  case False
  have z: "verdict_range (same_zone opt ad i urladr j v)" for i urladr j using assms(2) by (simp add: same_zone_def verdict_range_def)
  from False assms have "v' = phase2_other opt ptr ad v" by simp
  with assms(2) z show ?thesis by (simp add: phase2_other_def Let_def) (simp add: verdict_range_def)
qed

lemma phase3_range: "verdict_range v \<Longrightarrow> verdict_range (phase3 opt fl embedded v)"
  by (simp add: phase3_def verdict_range_def Let_def)

text \<open>
  C8. The wizard that decides alone (not asking the user) gives a link of a page the verdict of one
  list of rules: a link that phase 1 cuts or that does not fit the buffers is refused; then
  robots.txt refuses, unless it is followed \<open>sometimes\<close> and an accepting filter is the last that
  matches; then the last matching filter decides; then the external depth and the journey accept;
  and what nothing accepts is refused.
\<close>

theorem acceptlink_decision:
  assumes "hts_acceptlink env opt ptr ad fl tag attribute in_css prio jt = Some (opt', fb, prio', jt')"
    and "wizard opt = HTS_WIZARD_AUTO" and "\<not> mirror_first_page opt" and "0 < ptr"
    and "\<not> known env ad fl" and "\<And>fb. check_link env ad fl fb = -1"
  shows "fb = (let embedded = embed_triggered opt tag attribute in_css in
      if \<not> phase1_refused opt ptr fl embedded \<and>
         link_decision env opt ptr ad fl (journey_verdict env opt ptr ad fl embedded prio) then 0 else 1)"
proof -
  define em where "em = embed_triggered opt tag attribute in_css"
  define v where "v = \<lparr>forbidden = -1, upper_refused = False, may_prio = 0, set_prio = prio\<rparr>"
  obtain o1 jt1 up where i: "acceptlink_impl env opt ptr ad fl tag attribute in_css prio jt = Some (o1, fb, prio', jt1, up)"
    using assms(1,6) by (auto simp: hts_acceptlink_def Let_def)
  show ?thesis
  proof (cases "phase1_refused opt ptr fl em")
    case True
    with i assms(5) show ?thesis by (auto simp: acceptlink_impl_def em_def Let_def)
  next
    case False
    obtain v1 v2 where p: "(if meme_adresse env opt ad (l_adr (heap opt ptr)) then phase2_same opt ptr fl v
            else Some (phase2_other opt ptr ad v)) = Some v1"
        "phase4 env opt ptr ad fl (phase3 opt fl em v1) = Some (o1, v2)" "fb = forbidden v2"
      using i assms(5) False unfolding acceptlink_impl_def em_def[symmetric] v_def[symmetric] Let_def
      by (auto split: option.splits)
    have "verdict_range (phase3 opt fl em v1)"
      using phase2_range[OF p(1)] phase3_range by (simp add: v_def verdict_range_def)
    then have "forbidden v2 = (if link_decision env opt ptr ad fl (forbidden (phase3 opt fl em v1)) then 0 else 1)"
      using phase4_decides[OF p(2) assms(2-4)] by (simp add: verdict_range_def)
    moreover have "journey_verdict env opt ptr ad fl em prio = forbidden (phase3 opt fl em v1)"
      unfolding journey_verdict_def Let_def v_def[symmetric] p(1) by simp
    ultimately show ?thesis using False p(3) by (simp add: em_def)
  qed
qed

theorem acceptlink_decision_witness:
  "0 = (if \<not> phase1_refused demo_first 1 ''/d/xy'' False \<and>
     link_decision demo_env demo_first 1 ''h.org'' ''/d/xy''
       (journey_verdict demo_env demo_first 1 ''h.org'' ''/d/xy'' False 0) then 0 else (1::int))"
proof -
  have "wizard demo_first = HTS_WIZARD_AUTO" "\<not> mirror_first_page demo_first"
    "embed_triggered demo_first None None False = False" by code_simp+
  with acceptlink_decision[OF demo_follow] show ?thesis by (simp add: demo_env_def Let_def)
qed

section \<open>The authority of robots.txt\<close>

lemma ask_keeps_refusal: "wiz_ask env opt ptr ad fl k v = Some (o1, v') \<Longrightarrow> forbidden v = 1 \<Longrightarrow> forbidden v' = 1"
  by (auto simp: wiz_ask_def hts_wizard_apply_verdict_def Let_def)

lemma phase4_robots:
  assumes "phase4 env opt ptr ad fl v = Some (o1, v')" "wizard opt \<noteq> HTS_WIZARD_NONE"
    "robots_refuse opt ad fl" "robots opt \<noteq> HTS_ROBOTS_SOMETIMES"
  shows "forbidden v' = 1"
proof (cases "hts_wizard_url_fits ad fl")
  case False
  with assms(1,2) show ?thesis by (auto simp: phase4_def)
next
  case True
  obtain v1 q1 fa k v2 q2 v3 q3 where r: "wiz_robots opt ad fl fa v2 q2 = Some (v3, q3)"
      "(if q3 \<or> ptr = 0 then wiz_ask env opt ptr ad fl k v3 else Some (opt, v3)) = Some (o1, v')"
    using assms(1,2) True by (auto simp: phase4_def Let_def split: option.splits prod.splits)
  have "forbidden v3 = 1" using wiz_robots_verdict[OF r(1)] assms(3,4) by auto
  with r(2) ask_keeps_refusal show ?thesis by (auto split: if_splits)
qed


definition demo_robots :: httrackp where
  "demo_robots = demo_options\<lparr>wizard := HTS_WIZARD_ASK, robots := HTS_ROBOTS_ALWAYS,
     robotsptr := [\<lparr>adr = None, token = None\<rparr>, \<lparr>adr = Some ''h.org'', token = Some (''D/d'' @ [LF])\<rparr>]\<rparr>"

lemma demo_refused:
  "map_option (\<lambda>(opt', fb, prio, jt). jt) (hts_acceptlink demo_env demo_robots 0 ''h.org'' ''/d/i'' None None False 0 None) = Some None"
  by code_simp


end
