(* ===== verification/Proxy.thy ===== *)
theory Proxy
  imports Escape UrlPort LinkTools Mime "HOL-Library.Monad_Syntax"
begin

text \<open>
  \<open>htsproxy.c\<close>: the CONNECT tunnel of an HTTP proxy and the SOCKS5 client (RFC 1928 and 1929), and the
  status line of \<open>htslib.c\<close>.  A connected socket is the list of what the calls on it will meet: arrivals
  for \<open>recv\<close>, acceptances for \<open>send\<close>, and the bytes already sent.  An empty list is a peer that is silent,
  on which the wait times out.  A failure carries the message that the caller shows (every one of
  them is shorter than the buffers, of 80 and 256 bytes, that receive it).
\<close>

section \<open>Status lines\<close>

definition hts_status_code :: "cstring \<Rightarrow> int" where
  "hts_status_code s =
     (if isdigit (cbyte s 0) \<and> isdigit (cbyte s 1) \<and> isdigit (cbyte s 2) \<and> \<not> isdigit (cbyte s 3)
      then (int (ord (cbyte s 0)) - 48) * 100 + (int (ord (cbyte s 1)) - 48) * 10 + (int (ord (cbyte s 2)) - 48)
      else -1)"

definition status_blank :: "char \<Rightarrow> bool" where
  "status_blank c \<longleftrightarrow> c = CHR '' '' \<or> c = TAB \<or> c = CR \<or> c = LF"

definition hts_status_line_code :: "cstring \<Rightarrow> int" where
  "hts_status_line_code line =
     (let a = dropWhile status_blank line in
      if strfield a ''HTTP/'' = 0 then -1
      else hts_status_code (dropWhile status_blank (dropWhile (\<lambda>c. \<not> status_blank c) a)))"

text \<open>The string a buffer holds: its bytes before the first NUL.\<close>

definition c_str :: "cstring \<Rightarrow> cstring" where
  "c_str s = takeWhile (\<lambda>c. c \<noteq> NUL) s"

section \<open>Sockets\<close>

datatype recv_event =
    Data cstring   \<comment> \<open>bytes that arrived\<close>
  | Closed         \<comment> \<open>the peer closed\<close>
  | Again bool     \<comment> \<open>the call would block; whether the wait then sees the socket ready\<close>
  | Broken         \<comment> \<open>an error of the socket\<close>

datatype send_event =
    Accept nat     \<comment> \<open>at most so many bytes are taken\<close>
  | Hold bool      \<comment> \<open>the call would block; whether the wait then sees the socket ready\<close>
  | Lost           \<comment> \<open>an error of the socket\<close>

record sock =
  arrivals :: "recv_event list"
  sends :: "send_event list"
  wire :: cstring

definition arrive :: "cstring \<Rightarrow> recv_event list \<Rightarrow> recv_event list" where
  "arrive rest evs = (if rest = [] then evs else Data rest # evs)"

fun event_size :: "recv_event \<Rightarrow> nat" where
  "event_size (Data bs) = Suc (length bs)"
| "event_size e = 1"

lemma arrive_size: "sum_list (map event_size (arrive rest evs)) \<le> Suc (length rest) + sum_list (map event_size evs)"
  by (simp add: arrive_def)

text \<open>Writing a buffer, as both protocols do: \<open>n\<close> bytes at a time, with a hundred stalls at most.\<close>

fun write_live :: "nat \<Rightarrow> cstring \<Rightarrow> send_event list \<Rightarrow> cstring \<Rightarrow> bool \<times> send_event list \<times> cstring" where
  "write_live stalls [] evs w = (True, evs, w)"
| "write_live stalls (b # bs) [] w = (False, [], w)"
| "write_live stalls (b # bs) (Accept 0 # evs) w = (False, evs, w)"
| "write_live stalls (b # bs) (Accept (Suc k) # evs) w =
     write_live 0 (drop k bs) evs (w @ b # take k bs)"
| "write_live stalls (b # bs) (Lost # evs) w = (False, evs, w)"
| "write_live stalls (b # bs) (Hold ready # evs) w =
     (if \<not> ready \<or> stalls + 1 > 100 then (False, evs, w) else write_live (stalls + 1) (b # bs) evs w)"

definition sock_write :: "cstring \<Rightarrow> sock \<Rightarrow> bool \<times> sock" where
  "sock_write bs s =
     (case write_live 0 bs (sends s) (wire s) of (ok, evs, w) \<Rightarrow> (ok, s\<lparr>sends := evs, wire := w\<rparr>))"

section \<open>CONNECT\<close>

text \<open>\<open>proxy_getline\<close>: one byte per call, each after a wait; carriage returns are dropped.\<close>

function getline_loop :: "nat \<Rightarrow> cstring \<Rightarrow> recv_event list \<Rightarrow> cstring option \<times> recv_event list" where
  "getline_loop mx s [] = (None, [])"
| "getline_loop mx s (Data [] # evs) = (None, evs)"
| "getline_loop mx s (Data (ch # bs) # evs) =
     (if ch = CR then getline_loop mx s (arrive bs evs)
      else if ch = LF then (Some s, arrive bs evs)
      else if length s \<ge> mx - 1 then (None, arrive bs evs)
      else getline_loop mx (s @ [ch]) (arrive bs evs))"
| "getline_loop mx s (Closed # evs) = (None, evs)"
| "getline_loop mx s (Broken # evs) = (None, evs)"
| "getline_loop mx s (Again ready # evs) = (if ready then getline_loop mx s evs else (None, evs))"
  by pat_completeness auto
termination
proof (relation "measure (\<lambda>(mx, s, evs). sum_list (map event_size evs))", goal_cases)
  case (2 mx s ch bs evs)
  then show ?case using arrive_size[of bs evs] by simp
next
  case (3 mx s ch bs evs)
  then show ?case using arrive_size[of bs evs] by simp
qed auto

definition proxy_getline :: "nat \<Rightarrow> sock \<Rightarrow> cstring option \<times> sock" where
  "proxy_getline mx s = (case getline_loop mx [] (arrivals s) of (r, evs) \<Rightarrow> (r, s\<lparr>arrivals := evs\<rparr>))"

text \<open>\<open>hts_basic_auth_value\<close>: the return value and the text written.  The decoder writes in a
  rotating buffer, back into the 768 bytes of \<open>user_pass\<close>, and what is encoded ends at the first NUL.\<close>

definition hts_basic_auth_value :: "cstring \<Rightarrow> (int \<times> cstring) option" where
  "hts_basic_auth_value url =
     (let a = jump_identification url; astart = jump_protocol url;
          idlen = (if length a < length astart then length astart - length a - 1 else 0)
      in if idlen = 0 then Some (0, [])
         else if idlen > (1024 - 1) div 4 * 3 then Some (-1, [])
         else do {
           user_pass \<leftarrow> unescape_http CATBUFF_SIZE (take idlen astart);
           Some (1, code64 (c_str user_pass) False) })"

definition proxy_authority :: "cstring \<Rightarrow> cstring option" where
  "proxy_authority ad =
     (let host = jump_identification ad in
      if jump_toport ad \<noteq> None then (if length host < HTS_URLMAXSIZE * 2 then Some host else None)
      else Some (take (HTS_URLMAXSIZE * 2 - 1)
             (host @ (if take 8 ad = ''https://'' then '':443'' else '':80''))))"

definition H_CRLF :: cstring where "H_CRLF = [CR, LF]"
definition TUNNEL_REQ_SIZE :: nat where "TUNNEL_REQ_SIZE = HTS_URLMAXSIZE * 4 + 1100"

definition strlcat :: "cstring \<Rightarrow> cstring \<Rightarrow> nat \<Rightarrow> cstring option" where
  "strlcat dst src sz = (if length dst + length src < sz then Some (dst @ src) else None)"

text \<open>The request: \<open>Inl\<close> the failure.\<close>

definition tunnel_request :: "cstring \<Rightarrow> cstring \<Rightarrow> (cstring + cstring) option" where
  "tunnel_request ad proxy_name = do {
     authority \<leftarrow> proxy_authority ad;
     if \<not> hts_is_control_free authority then Some (Inl ''proxy CONNECT: invalid host'')
     else do {
       let req = take (TUNNEL_REQ_SIZE - 1)
         (''CONNECT '' @ authority @ '' HTTP/1.0'' @ H_CRLF @ ''Host: '' @ authority @ H_CRLF);
       auth \<leftarrow> (if link_has_authorization proxy_name then hts_basic_auth_value proxy_name else Some (0, []));
       if fst auth < 0 then Some (Inl ''proxy CONNECT: credentials too long'')
       else do {
         req \<leftarrow> (if fst auth > 0 then do {
                   req \<leftarrow> strlcat req ''Proxy-Authorization: Basic '' TUNNEL_REQ_SIZE;
                   req \<leftarrow> strlcat req (snd auth) TUNNEL_REQ_SIZE;
                   strlcat req H_CRLF TUNNEL_REQ_SIZE }
                 else Some req);
         req \<leftarrow> strlcat req H_CRLF TUNNEL_REQ_SIZE;
         Some (Inr req) } } }"

text \<open>The headers of the answer are dropped, at most 64 of them; \<open>left\<close> counts those still allowed.\<close>

fun drain_headers :: "nat \<Rightarrow> sock \<Rightarrow> cstring option \<times> sock" where
  "drain_headers left s =
     (case proxy_getline 1024 s of
        (None, s) \<Rightarrow> (Some ''proxy CONNECT: truncated response'', s)
      | (Some line, s) \<Rightarrow>
          if line = [] then (None, s)
          else (case left of
                  0 \<Rightarrow> (Some ''proxy CONNECT: too many response headers'', s)
                | Suc left \<Rightarrow> drain_headers left s))"

declare drain_headers.simps [simp del]

definition tunnel_answer :: "sock \<Rightarrow> cstring option \<times> sock" where
  "tunnel_answer s =
     (case proxy_getline 1024 s of
        (None, s) \<Rightarrow> (Some ''proxy CONNECT: no response'', s)
      | (Some line, s) \<Rightarrow>
          let line = c_str line; code = hts_status_line_code line in
          if code < 200 \<or> code \<ge> 300
          then (Some (take 79 (''proxy CONNECT refused: '' @ (if line \<noteq> [] then line else ''(no status)''))), s)
          else drain_headers 64 s)"

text \<open>The whole call: \<open>None\<close> is an abort; then the message of a failure, and the socket.  A socket that
  is not connected (\<open>INVALID_SOCKET\<close>) fails at once and leaves the message alone.\<close>

definition http_proxy_tunnel :: "cstring \<Rightarrow> cstring \<Rightarrow> sock option \<Rightarrow> (cstring option \<times> sock option) option" where
  "http_proxy_tunnel ad proxy_name soc =
     (case soc of
        None \<Rightarrow> Some (Some [], None)
      | Some s \<Rightarrow> do {
          req \<leftarrow> tunnel_request ad proxy_name;
          (case req of
             Inl e \<Rightarrow> Some (Some e, Some s)
           | Inr req \<Rightarrow>
               (case sock_write req s of
                  (False, s) \<Rightarrow> Some (Some ''proxy CONNECT: write error'', Some s)
                | (True, s) \<Rightarrow> (case tunnel_answer s of (e, s) \<Rightarrow> Some (e, Some s)))) })"

section \<open>SOCKS5 streams\<close>

record socks5_test_io =
  reply :: cstring
  consumed :: nat
  sent :: cstring

datatype socks5_stream = Script socks5_test_io | Live sock

definition SOCKS5_SENT_SIZE :: nat where "SOCKS5_SENT_SIZE = 1024"

text \<open>Reading exactly \<open>n\<close> bytes; \<open>n\<close> is what is still to read.\<close>

function read_live :: "nat \<Rightarrow> nat \<Rightarrow> recv_event list \<Rightarrow> cstring option \<times> recv_event list" where
  "read_live n stalls evs =
     (if n = 0 then (Some [], evs)
      else
        (case evs of
           [] \<Rightarrow> (None, [])
         | Data bs # evs \<Rightarrow>
             if bs = [] then (None, evs)
             else (case read_live (n - length (take n bs)) 0 (arrive (drop n bs) evs) of
                     (r, evs) \<Rightarrow> (map_option ((@) (take n bs)) r, evs))
         | Closed # evs \<Rightarrow> (None, evs)
         | Broken # evs \<Rightarrow> (None, evs)
         | Again ready # evs \<Rightarrow>
             if \<not> ready \<or> stalls + 1 > 100 then (None, evs) else read_live n (stalls + 1) evs))"
  by pat_completeness auto
termination
proof (relation "measure (\<lambda>(n, stalls, evs). n + length evs)", goal_cases)
  case (2 n stalls evs e es bs)
  then show ?case by (cases bs) (auto simp: arrive_def)
qed auto

declare read_live.simps [simp del]

definition socks5_read_n :: "nat \<Rightarrow> socks5_stream \<Rightarrow> cstring option \<times> socks5_stream" where
  "socks5_read_n n st =
     (case st of
        Script io \<Rightarrow>
          if n > length (reply io) - consumed io then (None, st)
          else (Some (take n (drop (consumed io) (reply io))), Script (io\<lparr>consumed := consumed io + n\<rparr>))
      | Live s \<Rightarrow> (case read_live n 0 (arrivals s) of (r, evs) \<Rightarrow> (r, Live (s\<lparr>arrivals := evs\<rparr>))))"

definition socks5_write_all :: "cstring \<Rightarrow> socks5_stream \<Rightarrow> bool \<times> socks5_stream" where
  "socks5_write_all bs st =
     (case st of
        Script io \<Rightarrow>
          if length bs > SOCKS5_SENT_SIZE - length (sent io) then (False, st)
          else (True, Script (io\<lparr>sent := sent io @ bs\<rparr>))
      | Live s \<Rightarrow> (case sock_write bs s of (ok, s) \<Rightarrow> (ok, Live s)))"

section \<open>SOCKS5\<close>

definition SOCKS5_MAXFIELD :: nat where "SOCKS5_MAXFIELD = 255"

definition socks5_rep_message :: "char \<Rightarrow> cstring" where
  "socks5_rep_message rep =
     (if rep = chr 1 then ''general failure''
      else if rep = chr 2 then ''connection not allowed by ruleset''
      else if rep = chr 3 then ''network unreachable''
      else if rep = chr 4 then ''host unreachable''
      else if rep = chr 5 then ''connection refused''
      else if rep = chr 6 then ''TTL expired''
      else if rep = chr 7 then ''command not supported''
      else if rep = chr 8 then ''address type not supported''
      else ''unknown error'')"

text \<open>The bound address and port that end the reply.\<close>

definition read_bound :: "nat \<Rightarrow> socks5_stream \<Rightarrow> cstring option \<times> socks5_stream" where
  "read_bound addrlen st =
     (case (if addrlen \<noteq> 0 then socks5_read_n addrlen st else (Some [], st)) of
        (None, st) \<Rightarrow> (Some ''SOCKS5: truncated reply address'', st)
      | (Some _, st) \<Rightarrow>
          (case socks5_read_n 2 st of
             (None, st) \<Rightarrow> (Some ''SOCKS5: truncated reply port'', st)
           | (Some _, st) \<Rightarrow> (None, st)))"

definition socks5_read_reply :: "socks5_stream \<Rightarrow> cstring option \<times> socks5_stream" where
  "socks5_read_reply st =
     (case socks5_read_n 4 st of
        (None, st) \<Rightarrow> (Some ''SOCKS5: no reply from proxy'', st)
      | (Some head, st) \<Rightarrow>
          if head ! 0 \<noteq> chr 5 then (Some ''SOCKS5: bad version in reply'', st)
          else if head ! 1 \<noteq> chr 0 then (Some (''SOCKS5 connect failed: '' @ socks5_rep_message (head ! 1)), st)
          else if head ! 3 = chr 1 then read_bound 4 st
          else if head ! 3 = chr 4 then read_bound 16 st
          else if head ! 3 = chr 3 then
            (case socks5_read_n 1 st of
               (None, st) \<Rightarrow> (Some ''SOCKS5: truncated reply'', st)
             | (Some l, st) \<Rightarrow> read_bound (ord (l ! 0)) st)
          else (Some ''SOCKS5: unknown address type in reply'', st))"

definition socks5_greeting :: "bool \<Rightarrow> cstring" where
  "socks5_greeting want_auth = (if want_auth then [chr 5, chr 2, chr 0, chr 2] else [chr 5, chr 1, chr 0])"

definition socks5_auth_frame :: "cstring \<Rightarrow> cstring \<Rightarrow> cstring" where
  "socks5_auth_frame user pass =
     chr 1 # chr (length user mod 256) # user @ chr (length pass mod 256) # pass"

definition socks5_connect_frame :: "cstring \<Rightarrow> int \<Rightarrow> cstring" where
  "socks5_connect_frame host port =
     [chr 5, chr 1, chr 0, chr 3, chr (length host mod 256)] @ host @
     [chr (nat (port div 256 mod 256)), chr (nat (port mod 256))]"

definition socks5_connect :: "cstring \<Rightarrow> int \<Rightarrow> socks5_stream \<Rightarrow> cstring option \<times> socks5_stream" where
  "socks5_connect host port st =
     (case socks5_write_all (socks5_connect_frame host port) st of
        (False, st) \<Rightarrow> (Some ''SOCKS5: write error'', st)
      | (True, st) \<Rightarrow> socks5_read_reply st)"

definition socks5_authenticate :: "cstring \<Rightarrow> cstring \<Rightarrow> socks5_stream \<Rightarrow> cstring option \<times> socks5_stream" where
  "socks5_authenticate user pass st =
     (case socks5_write_all (socks5_auth_frame user pass) st of
        (False, st) \<Rightarrow> (Some ''SOCKS5: write error'', st)
      | (True, st) \<Rightarrow>
          (case socks5_read_n 2 st of
             (None, st) \<Rightarrow> (Some ''SOCKS5: no authentication reply'', st)
           | (Some rep, st) \<Rightarrow>
               if rep ! 1 \<noteq> chr 0 then (Some ''SOCKS5: authentication failed'', st) else (None, st)))"

definition socks5_negotiate ::
  "socks5_stream \<Rightarrow> cstring \<Rightarrow> int \<Rightarrow> cstring \<Rightarrow> cstring \<Rightarrow> bool \<Rightarrow> cstring option \<times> socks5_stream" where
  "socks5_negotiate st host port user pass want_auth =
     (case socks5_write_all (socks5_greeting want_auth) st of
        (False, st) \<Rightarrow> (Some ''SOCKS5: write error'', st)
      | (True, st) \<Rightarrow>
          (case socks5_read_n 2 st of
             (None, st) \<Rightarrow> (Some ''SOCKS5: no method reply from proxy'', st)
           | (Some rep, st) \<Rightarrow>
               if rep ! 0 \<noteq> chr 5 then (Some ''SOCKS5: bad version in method reply'', st)
               else if rep ! 1 = chr 0 then socks5_connect host port st
               else if rep ! 1 = chr 2 then
                 (if \<not> want_auth then (Some ''SOCKS5: proxy requires authentication, none given'', st)
                  else (case socks5_authenticate user pass st of
                          (Some e, st) \<Rightarrow> (Some e, st)
                        | (None, st) \<Rightarrow> socks5_connect host port st))
               else if rep ! 1 = chr 255 then (Some ''SOCKS5: proxy accepts no authentication method we offer'', st)
               else (Some ''SOCKS5: proxy selected an unknown method'', st)))"

text \<open>The user and the password of the proxy; \<open>Inl\<close> the failure.\<close>

definition socks5_credentials :: "cstring \<Rightarrow> (cstring + cstring \<times> cstring) option" where
  "socks5_credentials proxy_name =
     (let a = jump_identification proxy_name; astart = jump_protocol proxy_name in
      if \<not> length a < length astart \<or> length astart - length a - 1 \<ge> 1024 then Some (Inl ''SOCKS5: credentials too long'')
      else do {
        let userinfo = take (length astart - length a - 1) astart;
        user \<leftarrow> unescape_http CATBUFF_SIZE (takeWhile (\<lambda>c. c \<noteq> CHR '':'') userinfo);
        pass \<leftarrow> (case strchr userinfo CHR '':'' of None \<Rightarrow> Some [] | Some r \<Rightarrow> unescape_http CATBUFF_SIZE (tl r));
        let user = c_str user;
        let pass = c_str pass;
        if length user > SOCKS5_MAXFIELD \<or> length pass > SOCKS5_MAXFIELD then Some (Inl ''SOCKS5: credentials too long'')
        else if user = [] then Some (Inl ''SOCKS5: empty proxy username'')
        else Some (Inr (user, pass)) })"

definition socks5_handshake_stream :: "socks5_stream \<Rightarrow> cstring \<Rightarrow> cstring \<Rightarrow> bool \<Rightarrow> (cstring option \<times> socks5_stream) option" where
  "socks5_handshake_stream st ad proxy_name ssl =
     (let fullhost = jump_identification ad; portsep = jump_toport ad;
          host = (case portsep of None \<Rightarrow> fullhost | Some p \<Rightarrow> take (length fullhost - length p) fullhost);
          port = (case portsep of None \<Rightarrow> Some (if ssl then 443 else 80) | Some p \<Rightarrow> hts_parse_url_port (tl p))
      in if host = [] \<or> length host > SOCKS5_MAXFIELD then Some (Some ''SOCKS5: invalid origin host'', st)
         else if hd host = CHR ''['' then Some (Some ''SOCKS5: IPv6 literal origin is not supported'', st)
         else if \<not> hts_is_control_free host then Some (Some ''SOCKS5: invalid origin host'', st)
         else
           (case port of
              None \<Rightarrow> Some (Some ''SOCKS5: invalid origin port'', st)
            | Some port \<Rightarrow>
                if link_has_authorization proxy_name then do {
                  cred \<leftarrow> socks5_credentials proxy_name;
                  Some (case cred of
                          Inl e \<Rightarrow> (Some e, st)
                        | Inr (user, pass) \<Rightarrow> socks5_negotiate st host port user pass True) }
                else Some (socks5_negotiate st host port [] [] False)))"

definition socks5_handshake :: "sock option \<Rightarrow> cstring \<Rightarrow> cstring \<Rightarrow> bool \<Rightarrow> (cstring option \<times> socks5_stream option) option" where
  "socks5_handshake soc ad proxy_name ssl =
     (case soc of
        None \<Rightarrow> Some (Some [], None)
      | Some s \<Rightarrow> map_option (\<lambda>(e, st). (e, Some st)) (socks5_handshake_stream (Live s) ad proxy_name ssl))"

definition socks5_handshake_scripted :: "cstring \<Rightarrow> cstring \<Rightarrow> cstring \<Rightarrow> (cstring option \<times> socks5_stream) option" where
  "socks5_handshake_scripted script ad proxy_name =
     socks5_handshake_stream (Script \<lparr>reply = script, consumed = 0, sent = []\<rparr>) ad proxy_name False"

end
