(* ===== verification/ProxyClaims.thy ===== *)
theory ProxyClaims
  imports Proxy EscapeClaims
begin

text \<open>
  What the proxy clients guarantee.  A stream is seen through three functions: what is still to come
  (\<open>stream_left\<close>), what was sent (\<open>stream_sent\<close>) and how many bytes it surely takes (\<open>stream_room\<close>); the locale
  \<open>frames\<close> has the laws of a reader of exact frames, and \<open>socks5_read_n\<close> obeys them, whatever way the
  bytes are cut on the network.
\<close>

section \<open>Streams\<close>

fun arriving :: "recv_event list \<Rightarrow> cstring" where
  "arriving [] = []"
| "arriving (Data bs # evs) = (if bs = [] then [] else bs @ arriving evs)"
| "arriving (Again ready # evs) = arriving evs"
| "arriving (Closed # evs) = []"
| "arriving (Broken # evs) = []"

text \<open>Arrivals that no reader gives up on: every wait sees data, and stalls come by a hundred at most.\<close>

fun calm :: "nat \<Rightarrow> recv_event list \<Rightarrow> bool" where
  "calm k [] = True"
| "calm k (Data bs # evs) = calm 0 evs"
| "calm k (Again ready # evs) = (ready \<and> k < 100 \<and> calm (k + 1) evs)"
| "calm k (Closed # evs) = True"
| "calm k (Broken # evs) = True"

lemma calm_le: "calm k evs \<Longrightarrow> j \<le> k \<Longrightarrow> calm j evs"
  by (induction k evs arbitrary: j rule: calm.induct) auto

lemma arriving_arrive [simp]: "arriving (arrive rest evs) = rest @ arriving evs"
  by (simp add: arrive_def)

lemma calm_arrive [simp]: "calm 0 (arrive rest evs) = calm 0 evs"
  by (simp add: arrive_def)

text \<open>What is read is the front of what arrives, whole.\<close>

lemma read_live_sound:
  "read_live n stalls evs = (Some bs, evs') \<Longrightarrow>
     length bs = n \<and> arriving evs = bs @ arriving evs' \<and> (calm stalls evs \<longrightarrow> calm 0 evs')"
proof (induction n stalls evs arbitrary: bs evs' rule: read_live.induct)
  case (1 n stalls evs)
  show ?case
  proof (cases "n = 0")
    case True
    with 1(3) show ?thesis using calm_le by (auto simp: read_live.simps)
  next
    case False
    show ?thesis
    proof (cases evs)
      case Nil
      with 1(3) False show ?thesis by (simp add: read_live.simps)
    next
      case (Cons e es)
      show ?thesis
      proof (cases e)
        case (Data ds)
        have ne: "ds \<noteq> []" using 1(3) Cons Data False by (auto simp: read_live.simps)
        obtain r where r: "read_live (n - length (take n ds)) 0 (arrive (drop n ds) es) = (Some r, evs')" "bs = take n ds @ r"
          using 1(3) Cons Data False ne by (auto simp: read_live.simps[of n] split: prod.splits)
        have ih: "length r = n - length (take n ds)" "drop n ds @ arriving es = r @ arriving evs'" "calm 0 es \<longrightarrow> calm 0 evs'"
          using 1(1)[OF False Cons Data ne r(1)] by simp_all
        have "arriving evs = take n ds @ drop n ds @ arriving es" using Cons Data ne by simp
        with ih r(2) Cons Data show ?thesis by simp
      next
        case (Again ready)
        have c: "\<not> (\<not> ready \<or> stalls + 1 > 100)" "read_live n (stalls + 1) es = (Some bs, evs')"
          using 1(3) Cons Again False by (auto simp: read_live.simps[of n] split: if_splits)
        from 1(2)[OF False Cons Again c] Cons Again show ?thesis by simp
      qed (use 1(3) Cons False in \<open>auto simp: read_live.simps\<close>)
    qed
  qed
qed

lemma read_live_complete:
  "calm stalls evs \<Longrightarrow> n \<le> length (arriving evs) \<Longrightarrow> \<exists>bs evs'. read_live n stalls evs = (Some bs, evs')"
proof (induction n stalls evs rule: read_live.induct)
  case (1 n stalls evs)
  show ?case
  proof (cases "n = 0")
    case True
    then show ?thesis by (simp add: read_live.simps)
  next
    case False
    then obtain e es where evs: "evs = e # es" using 1(4) by (cases evs) auto
    show ?thesis
    proof (cases e)
      case (Data ds)
      have ne: "ds \<noteq> []" using 1(4) evs Data False by auto
      have "\<exists>bs evs'. read_live (n - length (take n ds)) 0 (arrive (drop n ds) es) = (Some bs, evs')"
        by (rule 1(1)[OF False evs Data ne]) (use 1(3,4) evs Data ne in auto)
      then show ?thesis using False evs Data ne by (auto simp: read_live.simps[of n])
    next
      case (Again ready)
      have "\<exists>bs evs'. read_live n (stalls + 1) es = (Some bs, evs')"
        by (rule 1(2)[OF False evs Again]) (use 1(3,4) evs Again in auto)
      then show ?thesis using False evs Again 1(3) by (auto simp: read_live.simps[of n])
    qed (use 1(4) evs False in auto)
  qed
qed

definition stream_left :: "socks5_stream \<Rightarrow> cstring" where
  "stream_left st = (case st of Script io \<Rightarrow> drop (consumed io) (reply io) | Live s \<Rightarrow> arriving (arrivals s))"

definition stream_sent :: "socks5_stream \<Rightarrow> cstring" where
  "stream_sent st = (case st of Script io \<Rightarrow> sent io | Live s \<Rightarrow> wire s)"

definition stream_calm :: "socks5_stream \<Rightarrow> bool" where
  "stream_calm st = (case st of Script io \<Rightarrow> True | Live s \<Rightarrow> calm 0 (arrivals s))"

text \<open>A send buffer that takes at least one byte a time, with a hundred stalls in a row at most.\<close>

fun takes :: "nat \<Rightarrow> send_event list \<Rightarrow> nat" where
  "takes k (Accept (Suc n) # evs) = Suc (takes 0 evs)"
| "takes k (Hold ready # evs) = (if ready \<and> k < 100 then takes (k + 1) evs else 0)"
| "takes k evs = 0"

definition stream_room :: "socks5_stream \<Rightarrow> nat" where
  "stream_room st = (case st of Script io \<Rightarrow> SOCKS5_SENT_SIZE - length (sent io) | Live s \<Rightarrow> takes 0 (sends s))"

lemma takes_le: "j \<le> k \<Longrightarrow> takes k evs \<le> takes j evs"
  by (induction k evs arbitrary: j rule: takes.induct) auto

lemma write_live_ok:
  "length bs \<le> takes stalls evs \<Longrightarrow>
     \<exists>evs'. write_live stalls bs evs w = (True, evs', w @ bs) \<and> takes stalls evs - length bs \<le> takes 0 evs'"
proof (induction stalls bs evs w rule: write_live.induct)
  case (4 stalls b bs k evs w)
  have "length (drop k bs) \<le> takes 0 evs" using 4(2) by simp
  from 4(1)[OF this] obtain evs' where e: "write_live 0 (drop k bs) evs (w @ b # take k bs) = (True, evs', (w @ b # take k bs) @ drop k bs)"
    "takes 0 evs - length (drop k bs) \<le> takes 0 evs'" by blast
  then show ?case using 4(2) by simp
next
  case (6 stalls b bs ready evs w)
  then show ?case by (auto split: if_splits)
qed (use takes_le in auto)

lemma write_live_sound: "write_live stalls bs evs w = (True, evs', w') \<Longrightarrow> w' = w @ bs"
proof (induction stalls bs evs w rule: write_live.induct)
  case (6 stalls b bs ready evs w)
  then show ?case by (simp split: if_splits)
qed auto

section \<open>Reading exact frames\<close>

text \<open>The interface of a reader of frames: it gives the next bytes and leaves the rest, or fails.\<close>

locale frames =
  fixes rd :: "nat \<Rightarrow> 's \<Rightarrow> cstring option \<times> 's" and left :: "'s \<Rightarrow> cstring" and willing :: "'s \<Rightarrow> bool"
  assumes sound: "rd n s = (Some bs, s') \<Longrightarrow> length bs = n \<and> left s = bs @ left s'"
    and keeps: "rd n s = (Some bs, s') \<Longrightarrow> willing s \<Longrightarrow> willing s'"
    and complete: "willing s \<Longrightarrow> n \<le> length (left s) \<Longrightarrow> \<exists>bs s'. rd n s = (Some bs, s')"
begin

lemma short: "length (left s) < n \<Longrightarrow> fst (rd n s) = None"
  using sound[of n s "the (fst (rd n s))" "snd (rd n s)"] by (cases "fst (rd n s)") (auto simp: prod_eq_iff)

lemma next_bytes: "rd n s = (Some bs, s') \<Longrightarrow> bs = take n (left s) \<and> left s' = drop n (left s)"
  using sound by fastforce

lemma reads: "willing s \<Longrightarrow> n \<le> length (left s) \<Longrightarrow>
    \<exists>s'. rd n s = (Some (take n (left s)), s') \<and> left s' = drop n (left s) \<and> willing s'"
  using complete next_bytes keeps by metis

text \<open>Two willing readers with the same bytes to come answer alike.\<close>

lemma alike:
  assumes "willing s" "willing t" "left s = left t"
  shows "(\<exists>bs s' t'. rd n s = (Some bs, s') \<and> rd n t = (Some bs, t') \<and> willing s' \<and> willing t' \<and> left s' = left t') \<or>
    (\<exists>s' t'. rd n s = (None, s') \<and> rd n t = (None, t'))"
proof (cases "n \<le> length (left s)")
  case True
  then show ?thesis using reads[OF assms(1), of n] reads[OF assms(2), of n] assms(3) by fastforce
next
  case False
  then show ?thesis using short[of s n] short[of t n] assms(3) by (metis not_le prod.collapse)
qed

end

interpretation socks: frames socks5_read_n stream_left stream_calm
proof unfold_locales
  fix n s bs s'
  assume r: "socks5_read_n n s = (Some bs, s')"
  show "length bs = n \<and> stream_left s = bs @ stream_left s'"
  proof (cases s)
    case (Script io)
    then show ?thesis using r by (auto simp: socks5_read_n_def stream_left_def add.commute drop_drop[symmetric] split: if_splits simp del: drop_drop)
  next
    case (Live k)
    then show ?thesis using r read_live_sound[of n 0 "arrivals k" bs] by (auto simp: socks5_read_n_def stream_left_def split: prod.splits)
  qed
  show "stream_calm s \<Longrightarrow> stream_calm s'"
    using r read_live_sound[of n 0 _ bs] by (auto simp: socks5_read_n_def stream_calm_def split: socks5_stream.splits prod.splits if_splits)
next
  fix n s
  assume "stream_calm s" "n \<le> length (stream_left s)"
  then show "\<exists>bs s'. socks5_read_n n s = (Some bs, s')"
    using read_live_complete[of 0 _ n]
    by (fastforce simp: socks5_read_n_def stream_calm_def stream_left_def split: socks5_stream.splits)
qed

lemma read_keeps: "socks5_read_n n st = (r, st') \<Longrightarrow> stream_sent st' = stream_sent st \<and> stream_room st' = stream_room st"
  by (auto simp: socks5_read_n_def stream_sent_def stream_room_def split: socks5_stream.splits prod.splits if_splits)

lemma write_sound:
  "socks5_write_all bs st = (True, st') \<Longrightarrow> stream_sent st' = stream_sent st @ bs \<and> stream_left st' = stream_left st"
  using write_live_sound[of 0 bs]
  by (auto simp: socks5_write_all_def sock_write_def stream_sent_def stream_left_def split: socks5_stream.splits prod.splits if_splits)

lemma write_ok:
  assumes "length bs \<le> stream_room st"
  shows "\<exists>st'. socks5_write_all bs st = (True, st') \<and> stream_room st - length bs \<le> stream_room st' \<and>
    stream_left st' = stream_left st \<and> stream_calm st' = stream_calm st"
proof (cases st)
  case (Script io)
  then show ?thesis using assms by (auto simp: socks5_write_all_def stream_room_def stream_left_def stream_calm_def)
next
  case (Live s)
  then have "length bs \<le> takes 0 (sends s)" using assms by (simp add: stream_room_def)
  from write_live_ok[OF this, of "wire s"] Live show ?thesis
    by (auto simp: socks5_write_all_def sock_write_def stream_room_def stream_left_def stream_calm_def)
qed


section \<open>A successful negotiation\<close>

text \<open>The frames of RFC 1928 and RFC 1929 that a server sends when it agrees.\<close>

definition bound_ok :: "char \<Rightarrow> cstring \<Rightarrow> bool" where
  "bound_ok atyp b \<longleftrightarrow>
     (atyp = chr 1 \<and> length b = 4) \<or> (atyp = chr 4 \<and> length b = 16) \<or>
     (atyp = chr 3 \<and> b \<noteq> [] \<and> length b = Suc (ord (hd b)))"

definition reply_frame :: "cstring \<Rightarrow> bool" where
  "reply_frame f \<longleftrightarrow>
     (\<exists>rsv atyp b port. f = [chr 5, chr 0, rsv, atyp] @ b @ port \<and> bound_ok atyp b \<and> length port = 2)"

lemma length_4: "length l = 4 \<Longrightarrow> l = [l ! 0, l ! 1, l ! 2, l ! 3]"
  by (simp add: list_eq_iff_nth_eq numeral_eq_Suc less_Suc_eq)

lemma length_2: "length l = 2 \<Longrightarrow> l = [l ! 0, l ! 1]"
  by (simp add: list_eq_iff_nth_eq numeral_eq_Suc less_Suc_eq)

lemma read_bound_success:
  assumes "read_bound k st = (None, st')"
  shows "\<exists>b port. length b = k \<and> length port = 2 \<and> stream_left st = b @ port @ stream_left st' \<and> stream_sent st' = stream_sent st"
proof -
  obtain b s1 where b: "(if k \<noteq> 0 then socks5_read_n k st else (Some [], st)) = (Some b, s1)"
    using assms by (auto simp: read_bound_def split: option.splits prod.splits)
  then obtain port where p: "socks5_read_n 2 s1 = (Some port, st')"
    using assms by (auto simp: read_bound_def split: option.splits prod.splits)
  have "length b = k \<and> stream_left st = b @ stream_left s1 \<and> stream_sent s1 = stream_sent st"
    using b socks.sound[of k st b s1] read_keeps[of k st _ s1] by (auto split: if_splits)
  with socks.sound[OF p] read_keeps[OF p] show ?thesis by auto
qed

lemma read_reply_success:
  assumes "socks5_read_reply st = (None, st')"
  shows "\<exists>f. reply_frame f \<and> stream_left st = f @ stream_left st' \<and> stream_sent st' = stream_sent st"
proof -
  obtain h s1 where h: "socks5_read_n 4 st = (Some h, s1)"
    using assms by (auto simp: socks5_read_reply_def split: option.splits prod.splits)
  have l: "length h = 4" "stream_left st = h @ stream_left s1" "stream_sent s1 = stream_sent st"
    using socks.sound[OF h] read_keeps[OF h] by auto
  have ok: "h ! 0 = chr 5" "h ! 1 = chr 0" using assms h by (auto simp: socks5_read_reply_def split: if_splits)
  have "\<exists>b port. bound_ok (h ! 3) b \<and> length port = 2 \<and> stream_left s1 = b @ port @ stream_left st' \<and> stream_sent st' = stream_sent s1"
  proof (cases "h ! 3 = chr 3")
    case True
    have t: "chr 3 \<noteq> chr 1" "chr 3 \<noteq> chr 4" by (simp_all add: chr_def)
    obtain c s2 where c: "socks5_read_n 1 s1 = (Some c, s2)" "read_bound (ord (c ! 0)) s2 = (None, st')"
      using assms h ok True t by (auto simp: socks5_read_reply_def split: option.splits prod.splits)
    from read_bound_success[OF c(2)] obtain b port where b: "length b = ord (c ! 0)" "length port = 2"
      "stream_left s2 = b @ port @ stream_left st'" "stream_sent st' = stream_sent s2" by blast
    have "length c = 1" "stream_left s1 = c @ stream_left s2" "stream_sent s2 = stream_sent s1"
      using socks.sound[OF c(1)] read_keeps[OF c(1)] by auto
    moreover have "bound_ok (h ! 3) (c @ b)" using True calculation(1) b(1) by (cases c) (auto simp: bound_ok_def)
    ultimately show ?thesis using b by (intro exI[of _ "c @ b"] exI[of _ port]) simp
  next
    case False
    then have "(h ! 3 = chr 1 \<and> read_bound 4 s1 = (None, st')) \<or> (h ! 3 = chr 4 \<and> read_bound 16 s1 = (None, st'))"
      using assms h ok by (auto simp: socks5_read_reply_def split: if_splits)
    then show ?thesis using read_bound_success[of 4 s1 st'] read_bound_success[of 16 s1 st'] by (auto simp: bound_ok_def)
  qed
  then obtain b port where b: "bound_ok (h ! 3) b" "length port = 2" "stream_left s1 = b @ port @ stream_left st'"
    "stream_sent st' = stream_sent s1" by blast
  have "h = [chr 5, chr 0, h ! 2, h ! 3]" using length_4[OF l(1)] ok by metis
  with b l show ?thesis unfolding reply_frame_def
    by (intro exI[of _ "h @ b @ port"] conjI exI[of _ "h ! 2"] exI[of _ "h ! 3"] exI[of _ b] exI[of _ port]) auto
qed

lemma connect_success:
  assumes "socks5_connect host port st = (None, st')"
  shows "\<exists>f. reply_frame f \<and> stream_left st = f @ stream_left st' \<and> stream_sent st' = stream_sent st @ socks5_connect_frame host port"
proof -
  obtain s1 where w: "socks5_write_all (socks5_connect_frame host port) st = (True, s1)" "socks5_read_reply s1 = (None, st')"
    using assms by (auto simp: socks5_connect_def split: prod.splits bool.splits)
  from read_reply_success[OF w(2)] write_sound[OF w(1)] show ?thesis by auto
qed

lemma authenticate_success:
  assumes "socks5_authenticate user pass st = (None, st')"
  shows "\<exists>v. stream_left st = [v, chr 0] @ stream_left st' \<and> stream_sent st' = stream_sent st @ socks5_auth_frame user pass"
proof -
  obtain s1 rep where w: "socks5_write_all (socks5_auth_frame user pass) st = (True, s1)"
      "socks5_read_n 2 s1 = (Some rep, st')" "rep ! 1 = chr 0"
    using assms by (auto simp: socks5_authenticate_def split: prod.splits bool.splits option.splits if_splits)
  have "length rep = 2" "stream_left s1 = rep @ stream_left st'" "stream_sent st' = stream_sent s1"
    using socks.sound[OF w(2)] read_keeps[OF w(2)] by auto
  with length_2[of rep] w(3) write_sound[OF w(1)] show ?thesis by (metis append_Cons append_Nil)
qed


definition demo_script :: socks5_stream where
  "demo_script = Script \<lparr>reply = [chr 5, chr 0] @ [chr 5, chr 0, chr 0, chr 3, chr 2] @ ''ns'' @ [chr 4, chr 56] @ ''HTTP'',
     consumed = 0, sent = []\<rparr>"

definition demo_script_end :: socks5_stream where
  "demo_script_end = snd (socks5_negotiate demo_script ''h.org'' 80 [] [] False)"



section \<open>The way the bytes are cut does not matter\<close>

definition twins :: "nat \<Rightarrow> socks5_stream \<Rightarrow> socks5_stream \<Rightarrow> bool" where
  "twins k s t \<longleftrightarrow> stream_calm s \<and> stream_calm t \<and> stream_left s = stream_left t \<and> stream_sent s = stream_sent t \<and>
     k \<le> stream_room s \<and> k \<le> stream_room t"

definition alike_end :: "nat \<Rightarrow> cstring option \<times> socks5_stream \<Rightarrow> cstring option \<times> socks5_stream \<Rightarrow> bool" where
  "alike_end k a b \<longleftrightarrow> fst a = fst b \<and> stream_sent (snd a) = stream_sent (snd b) \<and>
     (fst a = None \<longrightarrow> twins k (snd a) (snd b))"

lemma twins_le: "twins k s t \<Longrightarrow> j \<le> k \<Longrightarrow> twins j s t"
  by (auto simp: twins_def)

lemma twins_read:
  assumes "twins k s t"
  shows "(\<exists>bs s' t'. socks5_read_n n s = (Some bs, s') \<and> socks5_read_n n t = (Some bs, t') \<and> twins k s' t') \<or>
    (\<exists>s' t'. socks5_read_n n s = (None, s') \<and> socks5_read_n n t = (None, t') \<and> stream_sent s' = stream_sent t')"
proof -
  have tw: "stream_calm s" "stream_calm t" "stream_left s = stream_left t" "stream_sent s = stream_sent t"
    using assms by (auto simp: twins_def)
  from socks.alike[OF tw(1-3), of n] show ?thesis
  proof (elim disjE exE conjE)
    fix bs s' t'
    assume r: "socks5_read_n n s = (Some bs, s')" "socks5_read_n n t = (Some bs, t')" "stream_calm s'" "stream_calm t'"
      "stream_left s' = stream_left t'"
    then have "twins k s' t'" using read_keeps[OF r(1)] read_keeps[OF r(2)] assms by (simp add: twins_def)
    with r show ?thesis by blast
  next
    fix s' t'
    assume "socks5_read_n n s = (None, s')" "socks5_read_n n t = (None, t')"
    then show ?thesis using read_keeps tw(4) by metis
  qed
qed

lemma twins_write:
  assumes "twins k s t" "length bs + j \<le> k"
  shows "\<exists>s' t'. socks5_write_all bs s = (True, s') \<and> socks5_write_all bs t = (True, t') \<and> twins j s' t'"
proof -
  have "length bs \<le> stream_room s" "length bs \<le> stream_room t" using assms by (auto simp: twins_def)
  from write_ok[OF this(1)] write_ok[OF this(2)] obtain s' t' where w:
    "socks5_write_all bs s = (True, s')" "socks5_write_all bs t = (True, t')"
    "stream_room s - length bs \<le> stream_room s'" "stream_room t - length bs \<le> stream_room t'"
    "stream_left s' = stream_left s" "stream_left t' = stream_left t" "stream_calm s' = stream_calm s" "stream_calm t' = stream_calm t"
    by blast
  with write_sound[OF w(1)] write_sound[OF w(2)] assms show ?thesis by (auto simp: twins_def)
qed

text \<open>One rule per construct of the handshake.\<close>

lemma alike_fail: "twins k s t \<Longrightarrow> alike_end j (Some e, s) (Some e, t)"
  by (simp add: alike_end_def twins_def)

lemma alike_done: "twins k s t \<Longrightarrow> alike_end k (None, s) (None, t)"
  by (simp add: alike_end_def twins_def)

lemma alike_if: "(c \<Longrightarrow> alike_end j a b) \<Longrightarrow> (\<not> c \<Longrightarrow> alike_end j a' b') \<Longrightarrow> alike_end j (if c then a else a') (if c then b else b')"
  by simp

lemma alike_read:
  assumes "twins k s t" "\<And>bs s' t'. twins k s' t' \<Longrightarrow> alike_end j (f bs s') (f bs t')"
  shows "alike_end j (case socks5_read_n n s of (None, st) \<Rightarrow> (Some e, st) | (Some bs, st) \<Rightarrow> f bs st)
    (case socks5_read_n n t of (None, st) \<Rightarrow> (Some e, st) | (Some bs, st) \<Rightarrow> f bs st)"
  using twins_read[OF assms(1), of n] assms(2) by (auto simp: alike_end_def)

lemma alike_write:
  assumes "twins k s t" "length bs + i \<le> k" "\<And>s' t'. twins i s' t' \<Longrightarrow> alike_end j (f s') (f t')"
  shows "alike_end j (case socks5_write_all bs s of (False, st) \<Rightarrow> (Some e, st) | (True, st) \<Rightarrow> f st)
    (case socks5_write_all bs t of (False, st) \<Rightarrow> (Some e, st) | (True, st) \<Rightarrow> f st)"
  using twins_write[OF assms(1,2)] assms(3) by auto

lemma alike_seq:
  assumes "alike_end i a b" "\<And>s t. twins i s t \<Longrightarrow> alike_end j (f s) (f t)"
  shows "alike_end j (case a of (Some e, st) \<Rightarrow> (Some e, st) | (None, st) \<Rightarrow> f st)
    (case b of (Some e, st) \<Rightarrow> (Some e, st) | (None, st) \<Rightarrow> f st)"
  using assms by (cases a; cases b) (auto simp: alike_end_def split: option.splits)

lemma read_bound_alike: "twins k s t \<Longrightarrow> alike_end k (read_bound n s) (read_bound n t)"
proof -
  assume t: "twins k s t"
  have port: "twins k s t \<Longrightarrow> alike_end k
      (case socks5_read_n 2 s of (None, st) \<Rightarrow> (Some ''SOCKS5: truncated reply port'', st) | (Some bs, st) \<Rightarrow> (None, st))
      (case socks5_read_n 2 t of (None, st) \<Rightarrow> (Some ''SOCKS5: truncated reply port'', st) | (Some bs, st) \<Rightarrow> (None, st))" for s t
    by (rule alike_read, assumption) (rule alike_done)
  show ?thesis
  proof (cases "n = 0")
    case True
    then show ?thesis using port[OF t] by (simp add: read_bound_def)
  next
    case False
    then show ?thesis unfolding read_bound_def using alike_read[OF t port] by simp
  qed
qed

lemma read_reply_alike: "twins k s t \<Longrightarrow> alike_end k (socks5_read_reply s) (socks5_read_reply t)"
  unfolding socks5_read_reply_def
  by (intro alike_read alike_if) (assumption | rule alike_fail read_bound_alike | assumption)+

lemma connect_alike:
  "twins k s t \<Longrightarrow> length host + 7 + i \<le> k \<Longrightarrow> alike_end i (socks5_connect host port s) (socks5_connect host port t)"
  unfolding socks5_connect_def
  by (erule alike_write[where i = i]) (simp_all add: socks5_connect_frame_def read_reply_alike)

lemma authenticate_alike:
  "twins k s t \<Longrightarrow> length user + length pass + 3 + i \<le> k \<Longrightarrow>
     alike_end i (socks5_authenticate user pass s) (socks5_authenticate user pass t)"
  unfolding socks5_authenticate_def
  by (erule alike_write[where i = i])
    (simp add: socks5_auth_frame_def, intro alike_read alike_if, (assumption | rule alike_fail alike_done | assumption)+)

lemma negotiate_alike:
  assumes t: "twins 779 s t" and len: "length host \<le> 255" "length user \<le> 255" "length pass \<le> 255"
  shows "alike_end 0 (socks5_negotiate s host port user pass wa) (socks5_negotiate t host port user pass wa)"
proof -
  have g: "length (socks5_greeting wa) + 775 \<le> 779" by (simp add: socks5_greeting_def)
  have conn: "twins k s t \<Longrightarrow> 262 \<le> k \<Longrightarrow> alike_end 0 (socks5_connect host port s) (socks5_connect host port t)" for k s t
    by (rule connect_alike[of k]) (use len(1) in simp_all)
  have auth: "twins 775 s t \<Longrightarrow> alike_end 262 (socks5_authenticate user pass s) (socks5_authenticate user pass t)" for s t
    by (rule authenticate_alike[of 775]) (use len in simp_all)
  show ?thesis unfolding socks5_negotiate_def
  proof (rule alike_write[OF t g], rule alike_read, assumption, intro alike_if)
    fix bs s t
    assume tw: "twins 775 s t"
    show "alike_end 0 (socks5_connect host port s) (socks5_connect host port t)" by (rule conn[OF tw]) simp
    show "alike_end 0
        (case socks5_authenticate user pass s of (Some e, st) \<Rightarrow> (Some e, st) | (None, st) \<Rightarrow> socks5_connect host port st)
        (case socks5_authenticate user pass t of (Some e, st) \<Rightarrow> (Some e, st) | (None, st) \<Rightarrow> socks5_connect host port st)"
      by (rule alike_seq[OF auth[OF tw]]) (rule conn, assumption, simp)
  qed (rule alike_fail, assumption)+
qed


lemma unescape_fits: "unescape_http CATBUFF_SIZE s \<noteq> None"
proof -
  have "CATBUFF_SIZE \<noteq> 8" by (simp add: CATBUFF_SIZE_def)
  then show ?thesis unfolding unescape_http_def runtime_check_def by simp
qed

lemma credentials_range:
  "\<exists>r. socks5_credentials pn = Some r \<and> (\<forall>user pass. r = Inr (user, pass) \<longrightarrow>
     user \<noteq> [] \<and> length user \<le> SOCKS5_MAXFIELD \<and> length pass \<le> SOCKS5_MAXFIELD)"
proof -
  define d where "d s = the (unescape_http CATBUFF_SIZE s)" for s
  have d: "unescape_http CATBUFF_SIZE s = Some (d s)" for s unfolding d_def using unescape_fits by (rule option.collapse[symmetric])
  define ui where "ui = take (length (jump_protocol pn) - length (jump_identification pn) - 1) (jump_protocol pn)"
  obtain p where p: "(case strchr ui CHR '':'' of None \<Rightarrow> Some [] | Some r \<Rightarrow> Some (d (tl r))) = Some p"
    by (cases "strchr ui CHR '':''") simp_all
  show ?thesis unfolding socks5_credentials_def Let_def ui_def[symmetric] d p bind.bind_lunit by simp
qed

text \<open>
  C12. The network may cut the answers of a SOCKS5 server anywhere and hold them back (a hundred stalls
  in a row at most), and take the frames byte by byte: the handshake ends as on a script of the same
  bytes, with the same message, the same frames sent, and on success the same bytes left.
\<close>

theorem socks5_fragmentation:
  assumes "calm 0 (arrivals s)" and "779 \<le> takes 0 (sends s)" and "wire s = []"
  shows "\<exists>e st st'. socks5_handshake_stream (Live s) ad pn ssl = Some (e, st) \<and>
    socks5_handshake_stream (Script \<lparr>reply = arriving (arrivals s), consumed = 0, sent = []\<rparr>) ad pn ssl = Some (e, st') \<and>
    stream_sent st = stream_sent st' \<and> (e = None \<longrightarrow> stream_left st = stream_left st')"
proof -
  define script where "script = Script \<lparr>reply = arriving (arrivals s), consumed = 0, sent = []\<rparr>"
  have tw: "twins 779 (Live s) script"
    using assms by (simp add: twins_def script_def stream_calm_def stream_left_def stream_sent_def stream_room_def SOCKS5_SENT_SIZE_def)
  obtain cred where c: "socks5_credentials pn = Some cred" "\<forall>user pass. cred = Inr (user, pass) \<longrightarrow>
     user \<noteq> [] \<and> length user \<le> SOCKS5_MAXFIELD \<and> length pass \<le> SOCKS5_MAXFIELD" using credentials_range by blast
  have neg: "\<exists>e st st'. socks5_negotiate (Live s) h p u w wa = (e, st) \<and> socks5_negotiate script h p u w wa = (e, st') \<and>
      stream_sent st = stream_sent st' \<and> (e = None \<longrightarrow> stream_left st = stream_left st')"
    if "length h \<le> 255" "length u \<le> 255" "length w \<le> 255" for h p u w wa
    using negotiate_alike[OF tw that, of p wa] by (auto simp: alike_end_def twins_def prod_eq_iff)
  have same: "stream_sent (Live s) = stream_sent script" "stream_left (Live s) = stream_left script"
    using tw by (auto simp: twins_def)
  define r where "r st = socks5_handshake_stream st ad pn ssl" for st
  have "\<exists>e st st'. r (Live s) = Some (e, st) \<and> r script = Some (e, st') \<and> stream_sent st = stream_sent st' \<and>
      (e = None \<longrightarrow> stream_left st = stream_left st')"
  proof (cases cred)
    case (Inl e)
    then show ?thesis using same neg[of _ "[]" "[]"] c(1)
      unfolding r_def socks5_handshake_stream_def Let_def SOCKS5_MAXFIELD_def
      by (cases "jump_toport ad"; cases "link_has_authorization pn") (auto split: option.splits)
  next
    case (Inr up)
    then obtain u w where up: "cred = Inr (u, w)" "length u \<le> 255" "length w \<le> 255"
      using c(2) by (cases up) (auto simp: SOCKS5_MAXFIELD_def)
    then show ?thesis using same neg[of _ "[]" "[]"] neg[of _ u w] c(1)
      unfolding r_def socks5_handshake_stream_def Let_def SOCKS5_MAXFIELD_def
      by (cases "jump_toport ad"; cases "link_has_authorization pn") (auto split: option.splits)
  qed
  then show ?thesis by (simp add: r_def script_def)
qed

definition demo_sock :: sock where
  "demo_sock = \<lparr>arrivals = [Again True, Data [chr 5], Data [chr 0, chr 5, chr 0, chr 0, chr 1], Again True,
       Data [chr 127, chr 0], Data ([chr 0, chr 1, chr 4, chr 56] @ ''HT''), Data ''TP'', Closed],
     sends = replicate 800 (Accept 1), wire = []\<rparr>"

lemma takes_replicate: "takes 0 (replicate n (Accept (Suc k))) = n"
  by (induction n) auto

theorem socks5_fragmentation_witness:
  "\<exists>st. socks5_handshake_stream (Live demo_sock) ''h.org'' ''p.org:1080'' False = Some (None, st) \<and> stream_left st = ''HTTP''"
proof -
  have "calm 0 (arrivals demo_sock)" "arriving (arrivals demo_sock) = [chr 5, chr 0, chr 5, chr 0, chr 0, chr 1, chr 127, chr 0, chr 0, chr 1, chr 4, chr 56] @ ''HTTP''"
    by (simp_all add: demo_sock_def)
  moreover have "779 \<le> takes 0 (sends demo_sock)" "wire demo_sock = []"
    using takes_replicate[of 800 0] by (simp_all add: demo_sock_def)
  moreover have "map_option (\<lambda>(e, st). (e, stream_left st)) (socks5_handshake_stream
     (Script \<lparr>reply = [chr 5, chr 0, chr 5, chr 0, chr 0, chr 1, chr 127, chr 0, chr 0, chr 1, chr 4, chr 56] @ ''HTTP'', consumed = 0, sent = []\<rparr>)
     ''h.org'' ''p.org:1080'' False) = Some (None, ''HTTP'')" by code_simp
  ultimately show ?thesis using socks5_fragmentation[of demo_sock "''h.org''" "''p.org:1080''" False] by auto
qed

section \<open>Credentials\<close>

text \<open>
  C13. A server that does not select the password method learns nothing of the credentials: the whole
  negotiation, with every byte sent, is the same whatever the user and the password are.
\<close>

theorem socks5_credentials_private:
  assumes "cbyte (stream_left st) 1 \<noteq> chr 2"
  shows "socks5_negotiate st host port user1 pass1 True = socks5_negotiate st host port user2 pass2 True"
proof -
  obtain b s1 where w: "socks5_write_all (socks5_greeting True) st = (b, s1)" by fastforce
  show ?thesis
  proof (cases b)
    case True
    have left: "stream_left s1 = stream_left st" using write_sound[of _ st s1] w True by auto
    obtain r s2 where rd: "socks5_read_n 2 s1 = (r, s2)" by fastforce
    show ?thesis
    proof (cases r)
      case None
      then show ?thesis using w True rd by (simp add: socks5_negotiate_def)
    next
      case (Some rep)
      then have "length rep = 2" "stream_left st = rep @ stream_left s2" using socks.sound[of 2 s1 rep s2] rd left by auto
      then have "rep ! 1 \<noteq> chr 2" using assms by (cases rep; cases "tl rep") (auto simp: cbyte_def)
      then show ?thesis using w True rd Some by (simp add: socks5_negotiate_def)
    qed
  qed (simp add: socks5_negotiate_def w)
qed

theorem socks5_credentials_private_witness:
  "socks5_negotiate demo_script ''h.org'' 80 ''bob'' ''secret'' True = socks5_negotiate demo_script ''h.org'' 80 ''eve'' ''x'' True"
  by (rule socks5_credentials_private) code_simp


section \<open>The line reader of the tunnel\<close>

text \<open>Every wait sees the socket ready; the reader of lines counts no stalls.\<close>

fun patient :: "recv_event list \<Rightarrow> bool" where
  "patient [] = True"
| "patient (Again ready # evs) = (ready \<and> patient evs)"
| "patient (e # evs) = patient evs"

lemma patient_arrive [simp]: "patient (arrive bs evs) = patient evs"
  by (simp add: arrive_def)

definition no_cr :: "cstring \<Rightarrow> cstring" where
  "no_cr s = filter (\<lambda>c. c \<noteq> CR) s"

lemma no_cr_simps [simp]: "no_cr [] = []" "no_cr (c # s) = (if c = CR then no_cr s else c # no_cr s)"
  by (simp_all add: no_cr_def)

lemma getline_loop_line:
  "patient evs \<Longrightarrow> arriving evs = pre @ LF # rest \<Longrightarrow> LF \<notin> set pre \<Longrightarrow> length s < mx \<Longrightarrow>
     (if length (s @ no_cr pre) < mx
      then \<exists>evs'. getline_loop mx s evs = (Some (s @ no_cr pre), evs') \<and> arriving evs' = rest \<and> patient evs'
      else fst (getline_loop mx s evs) = None)"
proof (induction mx s evs arbitrary: pre rule: getline_loop.induct)
  case (3 mx s ch bs evs)
  show ?case
  proof (cases pre)
    case Nil
    with 3(4) have c: "ch = LF" "bs @ arriving evs = rest" by auto
    with 3(3,6) Nil show ?thesis by simp
  next
    case (Cons p ps)
    with 3(4,5) have c: "ch = p" "ch \<noteq> LF" "bs @ arriving evs = ps @ LF # rest" "LF \<notin> set ps" by auto
    show ?thesis
    proof (cases "ch = CR")
      case True
      with 3(1)[OF True, of ps] 3(3,6) c Cons show ?thesis by simp
    next
      case False
      show ?thesis
      proof (cases "length s \<ge> mx - 1")
        case True
        with 3(6) c Cons False show ?thesis by simp
      next
        case len: False
        then have "Suc (length s) < mx" by simp
        with 3(2)[OF False c(2) len, of ps] 3(3) c Cons False len show ?thesis by (simp split: if_split_asm)
      qed
    qed
  qed
qed auto

text \<open>
  C24. The line reader of the CONNECT tunnel returns the bytes before the line feed without their
  carriage returns, and leaves what follows, exactly when they fit its buffer.  Carriage returns are
  not counted: any number of them is read.
\<close>

theorem proxy_getline_spec:
  assumes "patient (arrivals s)" and "arriving (arrivals s) = pre @ LF # rest" and "LF \<notin> set pre" and "0 < mx"
  shows "if length (no_cr pre) < mx
    then \<exists>s'. proxy_getline mx s = (Some (no_cr pre), s') \<and> arriving (arrivals s') = rest \<and> wire s' = wire s
    else fst (proxy_getline mx s) = None"
  using getline_loop_line[OF assms(1-3), of "[]" mx] assms(4)
  by (auto simp: proxy_getline_def split: prod.splits if_splits)

theorem proxy_getline_spec_witness:
  "\<exists>s'. proxy_getline 4 \<lparr>arrivals = [Again True, Data (replicate 100 CR @ ''ok''), Data [CR, LF, CHR ''x'']], sends = [], wire = []\<rparr> =
     (Some ''ok'', s') \<and> arriving (arrivals s') = ''x''"
proof -
  have "arriving [Again True, Data (replicate 100 CR @ ''ok''), Data [CR, LF, CHR ''x'']] =
      (replicate 100 CR @ ''ok'' @ [CR]) @ LF # ''x''" by simp
  moreover have "no_cr (replicate 100 CR @ ''ok'' @ [CR]) = ''ok''" by (simp add: no_cr_def)
  ultimately show ?thesis
    using proxy_getline_spec[of "\<lparr>arrivals = [Again True, Data (replicate 100 CR @ ''ok''), Data [CR, LF, CHR ''x'']], sends = [], wire = []\<rparr>"
        "replicate 100 CR @ ''ok'' @ [CR]" "''x''" 4]
    by auto
qed

section \<open>The CONNECT request\<close>

lemma base64_mem: "hts_base64 ! (k mod 64) \<in> set hts_base64"
  by (simp add: hts_base64_length)

lemma code64_group_set: "set (code64_group a) \<subseteq> insert CHR ''='' (set hts_base64)"
proof (cases a rule: remdups_adj.cases)
  case (3 x y zs)
  then show ?thesis
    by (cases zs; cases "tl zs") (simp_all add: code64_group_def Let_def base64_mem split: list.split)
qed (simp_all add: code64_group_def Let_def base64_mem)

lemma code64_loop_set: "set (code64_loop False n a) \<subseteq> insert CHR ''='' (set hts_base64)"
proof (induction "length a" arbitrary: a rule: less_induct)
  case less
  show ?case
  proof (cases "a = []")
    case False
    then show ?thesis
      using less[of "drop 3 a"] code64_group_set[of "take 3 a"] by (auto simp: code64_loop.simps[of False n a])
  qed (simp add: code64_loop.simps)
qed

lemma code64_group_length: "length (code64_group a) \<le> 4"
  unfolding code64_group_def Let_def by (simp split: list.split)

lemma code64_loop_length: "length (code64_loop False n a) \<le> 4 * ((length a + 2) div 3)"
proof (induction "length a" arbitrary: a rule: less_induct)
  case less
  show ?case
  proof (cases "a = []")
    case False
    have "length (code64_loop False n a) = length (code64_group (take 3 a)) + length (code64_loop False n (drop 3 a))"
      using False by (simp add: code64_loop.simps[of False n a])
    also have "\<dots> \<le> 4 + 4 * ((length (drop 3 a) + 2) div 3)"
      using less[of "drop 3 a"] code64_group_length[of "take 3 a"] False by (simp add: add_mono)
    also have "\<dots> \<le> 4 * ((length a + 2) div 3)"
    proof -
      have "1 \<le> n \<Longrightarrow> 1 + (n - 3 + 2) div 3 \<le> (n + 2) div 3" for n :: nat by presburger
      from this[of "length a"] False show ?thesis by (cases a) simp_all
    qed
    finally show ?thesis .
  qed (simp add: code64_loop.simps)
qed


lemma unescape_loop_length: "length (unescape_loop n s) \<le> length s"
proof (induction n s rule: unescape_loop.induct)
  case (1 n s)
  show ?case
  proof (cases "s = [] \<or> n = 0")
    case False
    then obtain c t where "s = c # t" by (cases s) auto
    with 1 False show ?thesis by (auto simp: unescape_loop.simps[of n "c # t"])
  qed (simp add: unescape_loop.simps)
qed

text \<open>The value of the credentials is one line that fits its buffer.\<close>

lemma basic_auth_value:
  "\<exists>r v. hts_basic_auth_value url = Some (r, v) \<and> length v \<le> 1020 \<and> CR \<notin> set v \<and> LF \<notin> set v"
proof -
  define n where "n = length (jump_protocol url) - length (jump_identification url) - 1"
  define d where "d = unescape_loop (CATBUFF_SIZE - 1) (take n (jump_protocol url))"
  have u: "unescape_http CATBUFF_SIZE (take n (jump_protocol url)) = Some d"
    using unescape_fits[of "take n (jump_protocol url)"]
    unfolding unescape_http_def runtime_check_def d_def by (simp split: if_splits)
  have "length (c_str d) \<le> length d" by (simp add: c_str_def length_takeWhile_le)
  also have "length d \<le> n" unfolding d_def using unescape_loop_length[of _ "take n (jump_protocol url)"] by (rule order_trans) simp
  finally have len: "length (c_str d) \<le> n" .
  have "length (code64 (c_str d) False) \<le> 4 * ((n + 2) div 3)"
    unfolding code64_def by (rule order_trans[OF code64_loop_length]) (simp add: div_le_mono len)
  moreover have "n \<le> 765 \<Longrightarrow> (n + 2) div 3 \<le> 255" by presburger
  ultimately have l: "n \<le> 765 \<Longrightarrow> length (code64 (c_str d) False) \<le> 1020" by simp
  have "CR \<notin> insert CHR ''='' (set hts_base64)" "LF \<notin> insert CHR ''='' (set hts_base64)" by (simp_all add: hts_base64_def)
  then have c: "CR \<notin> set (code64 (c_str d) False)" "LF \<notin> set (code64 (c_str d) False)"
    unfolding code64_def using code64_loop_set[of 0 "c_str d"] by blast+
  show ?thesis unfolding hts_basic_auth_value_def Let_def n_def[symmetric]
    using l c by (simp add: u)
qed


definition tunnel_lines :: "cstring list \<Rightarrow> cstring" where
  "tunnel_lines ls = concat (map (\<lambda>l. l @ H_CRLF) ls)"

definition one_line :: "cstring \<Rightarrow> bool" where
  "one_line l \<longleftrightarrow> CR \<notin> set l \<and> LF \<notin> set l"

lemma one_line_append [simp]: "one_line (s @ t) \<longleftrightarrow> one_line s \<and> one_line t"
  by (auto simp: one_line_def)

lemma one_line_control: "hts_is_control_free s \<Longrightarrow> one_line s"
  by (auto simp: hts_is_control_free_def one_line_def list_all_iff)

lemma proxy_authority_length:
  "length (jump_identification ad) < HTS_URLMAXSIZE * 2 \<Longrightarrow>
     \<exists>a. proxy_authority ad = Some a \<and> length a < HTS_URLMAXSIZE * 2"
  by (auto simp: proxy_authority_def Let_def HTS_URLMAXSIZE_def)

text \<open>
  C23. The request of the CONNECT tunnel always fits its buffer, and it is two lines naming the origin,
  at most one line of credentials and an empty line: nothing in the address or the credentials adds a
  line of its own.
\<close>

theorem tunnel_request_lines:
  assumes "length (jump_identification ad) < HTS_URLMAXSIZE * 2"
  shows "\<exists>r. tunnel_request ad pn = Some r \<and> (\<forall>req. r = Inr req \<longrightarrow>
    (\<exists>a auth. proxy_authority ad = Some a \<and> length auth \<le> 1 \<and>
       (\<forall>l \<in> set auth. take 27 l = ''Proxy-Authorization: Basic '') \<and> (\<not> link_has_authorization pn \<longrightarrow> auth = []) \<and>
       req = tunnel_lines ([''CONNECT '' @ a @ '' HTTP/1.0'', ''Host: '' @ a] @ auth @ [[]]) \<and>
       list_all one_line ([''CONNECT '' @ a @ '' HTTP/1.0'', ''Host: '' @ a] @ auth @ [[]])))"
proof -
  obtain a where a: "proxy_authority ad = Some a" "length a < HTS_URLMAXSIZE * 2"
    using proxy_authority_length[OF assms] by blast
  obtain r v where v: "hts_basic_auth_value pn = Some (r, v)" "length v \<le> 1020" "one_line v"
    using basic_auth_value[of pn] by (auto simp: one_line_def)
  define head where "head = ''CONNECT '' @ a @ '' HTTP/1.0'' @ H_CRLF @ ''Host: '' @ a @ H_CRLF"
  have len: "length head \<le> 4121" using a(2) by (simp add: head_def H_CRLF_def HTS_URLMAXSIZE_def)
  have S: "TUNNEL_REQ_SIZE = 5196" by (simp add: TUNNEL_REQ_SIZE_def HTS_URLMAXSIZE_def)
  have cut: "take (TUNNEL_REQ_SIZE - 1) head = head" using len by (simp add: S)
  have lit: "one_line ''CONNECT ''" "one_line '' HTTP/1.0''" "one_line ''Host: ''" "one_line ''Proxy-Authorization: Basic ''" "one_line []"
    by (simp_all add: one_line_def)
  define auth where "auth = (if link_has_authorization pn \<and> r > 0 then [''Proxy-Authorization: Basic '' @ v] else [])"
  show ?thesis
  proof (cases "hts_is_control_free a")
    case False
    then show ?thesis unfolding tunnel_request_def a(1) bind.bind_lunit by simp
  next
    case True
    show ?thesis
    proof (cases "link_has_authorization pn \<and> r < 0")
      case neg: True
      then show ?thesis using True
        unfolding tunnel_request_def a(1) v(1) bind.bind_lunit Let_def by simp
    next
      case False
      have "tunnel_request ad pn = Some (Inr (tunnel_lines ([''CONNECT '' @ a @ '' HTTP/1.0'', ''Host: '' @ a] @ auth @ [[]])))"
        using True False len v(2)
        unfolding tunnel_request_def a(1) v(1) bind.bind_lunit Let_def head_def[symmetric] cut auth_def
        by (simp add: strlcat_def S tunnel_lines_def head_def H_CRLF_def)
      moreover have "list_all one_line ([''CONNECT '' @ a @ '' HTTP/1.0'', ''Host: '' @ a] @ auth @ [[]])"
        unfolding auth_def using one_line_control[OF True] v(3) lit by (simp del: append_Cons)
      moreover have "length auth \<le> 1" "\<forall>l \<in> set auth. take 27 l = ''Proxy-Authorization: Basic ''"
        "\<not> link_has_authorization pn \<longrightarrow> auth = []"
        by (simp_all add: auth_def)
      ultimately show ?thesis using a(1) by (intro exI[of _ "Inr _"] conjI exI[of _ a] exI[of _ auth] allI impI) (simp_all, (erule sym)?)
    qed
  qed
qed

theorem tunnel_request_lines_witness:
  "\<exists>r. tunnel_request ''https://www.h.org'' ''proxy.org:8080'' = Some r \<and>
     (\<forall>req. r = Inr req \<longrightarrow> (\<exists>a auth. proxy_authority ''https://www.h.org'' = Some a \<and>
        req = tunnel_lines ([''CONNECT '' @ a @ '' HTTP/1.0'', ''Host: '' @ a] @ auth @ [[]])))"
proof -
  have l: "length (jump_identification ''https://www.h.org'') < HTS_URLMAXSIZE * 2" by code_simp
  show ?thesis using tunnel_request_lines[OF l, of "''proxy.org:8080''"] by blast
qed

end
