(* ===== verification/Md5.thy ===== *)
theory Md5
  imports CStrings
begin

unbundle bit_operations_syntax

text \<open>
  \<open>md5.c\<close> and \<open>htsmd5.c\<close>: the message digest that names of saved files and temporary references are
  made of.  The context is the one of the source, a block of 64 bytes that is also read as 16 words (of a
  little-endian machine), four words of state and a bit count on two words; what a fresh context holds
  in its block is left open.
\<close>

section \<open>Words and bytes of a little-endian machine\<close>

type_synonym uint32 = "32 word"

definition word_of :: "cstring \<Rightarrow> uint32" where
  "word_of bs = of_nat (ord (bs ! 0) + 256 * ord (bs ! 1) + 65536 * ord (bs ! 2) + 16777216 * ord (bs ! 3))"

definition bytes_of :: "uint32 \<Rightarrow> cstring" where
  "bytes_of w = [chr (unat w mod 256), chr (unat w div 256 mod 256), chr (unat w div 65536 mod 256),
     chr (unat w div 16777216 mod 256)]"

definition ui32 :: "cstring \<Rightarrow> nat \<Rightarrow> uint32" where
  "ui32 bs i = word_of (take 4 (drop (4 * i) bs))"

text \<open>Writing bytes over those of a buffer from an offset on.\<close>

definition memcpy :: "cstring \<Rightarrow> nat \<Rightarrow> cstring \<Rightarrow> cstring" where
  "memcpy dst at src = take at dst @ src @ drop (at + length src) dst"

section \<open>The transform\<close>

definition F1 :: "uint32 \<Rightarrow> uint32 \<Rightarrow> uint32 \<Rightarrow> uint32" where "F1 x y z = z XOR (x AND (y XOR z))"
definition F2 :: "uint32 \<Rightarrow> uint32 \<Rightarrow> uint32 \<Rightarrow> uint32" where "F2 x y z = F1 z x y"
definition F3 :: "uint32 \<Rightarrow> uint32 \<Rightarrow> uint32 \<Rightarrow> uint32" where "F3 x y z = x XOR y XOR z"
definition F4 :: "uint32 \<Rightarrow> uint32 \<Rightarrow> uint32 \<Rightarrow> uint32" where "F4 x y z = y XOR (x OR NOT z)"

definition MD5STEP :: "(uint32 \<Rightarrow> uint32 \<Rightarrow> uint32 \<Rightarrow> uint32) \<Rightarrow> uint32 \<Rightarrow> uint32 \<Rightarrow> uint32 \<Rightarrow> uint32 \<Rightarrow> uint32 \<Rightarrow> nat \<Rightarrow> uint32" where
  "MD5STEP f w x y z data s =
     (let w = w + (f x y z + data); w = push_bit s w OR drop_bit (32 - s) w in w + x)"

text \<open>The rows of the transform: function, word of the block, constant, rotation.\<close>

type_synonym md5_row = "(uint32 \<Rightarrow> uint32 \<Rightarrow> uint32 \<Rightarrow> uint32) \<times> nat \<times> uint32 \<times> nat"

definition md5_rows :: "md5_row list" where
  "md5_rows = [
    (F1, 0, 0xd76aa478, 7), (F1, 1, 0xe8c7b756, 12), (F1, 2, 0x242070db, 17), (F1, 3, 0xc1bdceee, 22),
    (F1, 4, 0xf57c0faf, 7), (F1, 5, 0x4787c62a, 12), (F1, 6, 0xa8304613, 17), (F1, 7, 0xfd469501, 22),
    (F1, 8, 0x698098d8, 7), (F1, 9, 0x8b44f7af, 12), (F1, 10, 0xffff5bb1, 17), (F1, 11, 0x895cd7be, 22),
    (F1, 12, 0x6b901122, 7), (F1, 13, 0xfd987193, 12), (F1, 14, 0xa679438e, 17), (F1, 15, 0x49b40821, 22),
    (F2, 1, 0xf61e2562, 5), (F2, 6, 0xc040b340, 9), (F2, 11, 0x265e5a51, 14), (F2, 0, 0xe9b6c7aa, 20),
    (F2, 5, 0xd62f105d, 5), (F2, 10, 0x02441453, 9), (F2, 15, 0xd8a1e681, 14), (F2, 4, 0xe7d3fbc8, 20),
    (F2, 9, 0x21e1cde6, 5), (F2, 14, 0xc33707d6, 9), (F2, 3, 0xf4d50d87, 14), (F2, 8, 0x455a14ed, 20),
    (F2, 13, 0xa9e3e905, 5), (F2, 2, 0xfcefa3f8, 9), (F2, 7, 0x676f02d9, 14), (F2, 12, 0x8d2a4c8a, 20),
    (F3, 5, 0xfffa3942, 4), (F3, 8, 0x8771f681, 11), (F3, 11, 0x6d9d6122, 16), (F3, 14, 0xfde5380c, 23),
    (F3, 1, 0xa4beea44, 4), (F3, 4, 0x4bdecfa9, 11), (F3, 7, 0xf6bb4b60, 16), (F3, 10, 0xbebfbc70, 23),
    (F3, 13, 0x289b7ec6, 4), (F3, 0, 0xeaa127fa, 11), (F3, 3, 0xd4ef3085, 16), (F3, 6, 0x04881d05, 23),
    (F3, 9, 0xd9d4d039, 4), (F3, 12, 0xe6db99e5, 11), (F3, 15, 0x1fa27cf8, 16), (F3, 2, 0xc4ac5665, 23),
    (F4, 0, 0xf4292244, 6), (F4, 7, 0x432aff97, 10), (F4, 14, 0xab9423a7, 15), (F4, 5, 0xfc93a039, 21),
    (F4, 12, 0x655b59c3, 6), (F4, 3, 0x8f0ccc92, 10), (F4, 10, 0xffeff47d, 15), (F4, 1, 0x85845dd1, 21),
    (F4, 8, 0x6fa87e4f, 6), (F4, 15, 0xfe2ce6e0, 10), (F4, 6, 0xa3014314, 15), (F4, 13, 0x4e0811a1, 21),
    (F4, 4, 0xf7537e82, 6), (F4, 11, 0xbd3af235, 10), (F4, 2, 0x2ad7d2bb, 15), (F4, 9, 0xeb86d391, 21)]"

text \<open>
  One row; the four variables are listed with the one it writes first, which is the last one of the
  row after it.
\<close>

fun md5_row :: "cstring \<Rightarrow> md5_row \<Rightarrow> uint32 \<times> uint32 \<times> uint32 \<times> uint32 \<Rightarrow> uint32 \<times> uint32 \<times> uint32 \<times> uint32" where
  "md5_row blk (f, k, t, s) (w, x, y, z) = (z, MD5STEP f w x y z (ui32 blk k + t) s, x, y)"

definition MD5Transform :: "uint32 list \<Rightarrow> cstring \<Rightarrow> uint32 list" where
  "MD5Transform buf blk =
     (case fold (md5_row blk) md5_rows (buf ! 0, buf ! 1, buf ! 2, buf ! 3) of
        (a, b, c, d) \<Rightarrow> [buf ! 0 + a, buf ! 1 + b, buf ! 2 + c, buf ! 3 + d])"

section \<open>The context\<close>

record MD5Context =
  blk :: cstring
  buf :: "uint32 list"
  bits0 :: uint32
  bits1 :: uint32
  doByteReverse :: bool

text \<open>The bytes of the first \<open>longs\<close> words, each in reverse order.\<close>

fun byteReverse :: "nat \<Rightarrow> cstring \<Rightarrow> cstring" where
  "byteReverse 0 bs = bs"
| "byteReverse (Suc longs) bs = rev (take 4 bs) @ byteReverse longs (drop 4 bs)"

definition MD5Init :: "MD5Context \<Rightarrow> bool \<Rightarrow> MD5Context" where
  "MD5Init ctx brokenEndian =
     ctx\<lparr>buf := [0x67452301, 0xefcdab89, 0x98badcfe, 0x10325476], bits0 := 0, bits1 := 0,
         doByteReverse := \<not> brokenEndian\<rparr>"

text \<open>A full block is reversed where it must be, and goes through the transform.\<close>

definition md5_block :: "MD5Context \<Rightarrow> MD5Context" where
  "md5_block ctx =
     (let b = (if doByteReverse ctx then byteReverse 16 (blk ctx) else blk ctx) in
      ctx\<lparr>blk := b, buf := MD5Transform (buf ctx) b\<rparr>)"

function md5_chunks :: "MD5Context \<Rightarrow> cstring \<Rightarrow> MD5Context" where
  "md5_chunks ctx data =
     (if length data \<ge> 64 then md5_chunks (md5_block (ctx\<lparr>blk := memcpy (blk ctx) 0 (take 64 data)\<rparr>)) (drop 64 data)
      else ctx\<lparr>blk := memcpy (blk ctx) 0 data\<rparr>)"
  by pat_completeness auto
termination by (relation "measure (\<lambda>(_, data). length data)") auto

declare md5_chunks.simps [simp del]

definition MD5Update :: "MD5Context \<Rightarrow> cstring \<Rightarrow> MD5Context" where
  "MD5Update ctx data =
     (let len = (of_nat (length data) :: uint32);
          t = bits0 ctx;
          ctx = ctx\<lparr>bits0 := t + push_bit 3 len\<rparr>;
          ctx = (if bits0 ctx < t then ctx\<lparr>bits1 := bits1 ctx + 1\<rparr> else ctx);
          ctx = ctx\<lparr>bits1 := bits1 ctx + drop_bit 29 len\<rparr>;
          t = unat (drop_bit 3 t AND 0x3f)
      in if t \<noteq> 0 then
           (if length data < 64 - t then ctx\<lparr>blk := memcpy (blk ctx) t data\<rparr>
            else md5_chunks (md5_block (ctx\<lparr>blk := memcpy (blk ctx) t (take (64 - t) data)\<rparr>)) (drop (64 - t) data))
         else md5_chunks ctx data)"

definition MD5Final :: "MD5Context \<Rightarrow> cstring" where
  "MD5Final ctx =
     (let count = unat (drop_bit 3 (bits0 ctx) AND 0x3F);
          ctx = ctx\<lparr>blk := memcpy (blk ctx) count [chr 0x80]\<rparr>;
          p = count + 1; count = 64 - 1 - count;
          ctx = (if count < 8 then
                   (let ctx = md5_block (ctx\<lparr>blk := memcpy (blk ctx) p (replicate count NUL)\<rparr>)
                    in ctx\<lparr>blk := memcpy (blk ctx) 0 (replicate 56 NUL)\<rparr>)
                 else ctx\<lparr>blk := memcpy (blk ctx) p (replicate (count - 8) NUL)\<rparr>);
          b = (if doByteReverse ctx then byteReverse 14 (blk ctx) else blk ctx);
          b = memcpy b 56 (bytes_of (bits0 ctx));
          b = memcpy b 60 (bytes_of (bits1 ctx));
          digest = concat (map bytes_of (MD5Transform (buf ctx) b))
      in if doByteReverse ctx then byteReverse 4 digest else digest)"

section \<open>Digests of strings\<close>

definition hex_low :: "nat \<Rightarrow> char" where
  "hex_low n = chr (if n < 10 then 48 + n else 87 + n)"

text \<open>\<open>%02x\<close> of each byte.\<close>

definition hex_bytes :: "cstring \<Rightarrow> cstring" where
  "hex_bytes bs = concat (map (\<lambda>c. [hex_low (ord c div 16), hex_low (ord c mod 16)]) bs)"

text \<open>\<open>ctx\<close> is what the stack holds; the machine is little-endian, so \<open>MD5Init\<close> is told not to reverse.\<close>

definition domd5mem :: "MD5Context \<Rightarrow> cstring \<Rightarrow> bool \<Rightarrow> cstring" where
  "domd5mem ctx data asAscii =
     (let bindigest = MD5Final (MD5Update (MD5Init ctx True) data) in
      if asAscii then hex_bytes bindigest else bindigest)"

end
