(* ===== verification/Md5Claims.thy ===== *)
theory Md5Claims
  imports Md5
begin

text \<open>
  The digest of \<open>Md5\<close> is the one of RFC 1321, whatever the pieces in which the message is fed to it.
\<close>

section \<open>The algorithm of RFC 1321\<close>

definition rfc_round :: "nat \<Rightarrow> uint32 \<Rightarrow> uint32 \<Rightarrow> uint32 \<Rightarrow> uint32" where
  "rfc_round i x y z =
     (if i < 16 then (x AND y) OR (NOT x AND z)
      else if i < 32 then (x AND z) OR (y AND NOT z)
      else if i < 48 then x XOR y XOR z
      else y XOR (x OR NOT z))"

definition rfc_word :: "nat \<Rightarrow> nat" where
  "rfc_word i = (if i < 16 then i else if i < 32 then (5 * i + 1) mod 16 else if i < 48 then (3 * i + 5) mod 16 else 7 * i mod 16)"

definition rfc_shift :: "nat \<Rightarrow> nat" where
  "rfc_shift i = [[7, 12, 17, 22], [5, 9, 14, 20], [4, 11, 16, 23], [6, 10, 15, 21]] ! (i div 16) ! (i mod 4)"

definition rfc_rotate :: "nat \<Rightarrow> uint32 \<Rightarrow> uint32" where
  "rfc_rotate s w = push_bit s w OR drop_bit (32 - s) w"

text \<open>The constants are those of the rows; the rest of a row is recomputed from its number.\<close>

definition rfc_step :: "cstring \<Rightarrow> nat \<Rightarrow> uint32 \<times> uint32 \<times> uint32 \<times> uint32 \<Rightarrow> uint32 \<times> uint32 \<times> uint32 \<times> uint32" where
  "rfc_step b i q = (case q of (w, x, y, z) \<Rightarrow>
     (z, x + rfc_rotate (rfc_shift i) (w + rfc_round i x y z + ui32 b (rfc_word i) + fst (snd (snd (md5_rows ! i)))), x, y))"

definition rfc_block :: "uint32 list \<Rightarrow> cstring \<Rightarrow> uint32 list" where
  "rfc_block st b = (case fold (rfc_step b) [0..<64] (st ! 0, st ! 1, st ! 2, st ! 3) of
     (x, y, z, w) \<Rightarrow> map2 (+) st [x, y, z, w])"

function md5_blocks :: "cstring \<Rightarrow> cstring list" where
  "md5_blocks d = (if length d \<ge> 64 then take 64 d # md5_blocks (drop 64 d) else [])"
  by pat_completeness auto
termination by (relation "measure length") auto

declare md5_blocks.simps [simp del]

definition rfc_pad :: "cstring \<Rightarrow> cstring" where
  "rfc_pad m = m @ [chr 0x80] @ replicate ((119 - length m mod 64) mod 64) NUL @
     bytes_of (of_nat (8 * length m)) @ bytes_of (of_nat (8 * length m div 2 ^ 32))"

definition rfc1321 :: "cstring \<Rightarrow> cstring" where
  "rfc1321 m = concat (map bytes_of
     (foldl rfc_block [0x67452301, 0xefcdab89, 0x98badcfe, 0x10325476] (md5_blocks (rfc_pad m))))"

section \<open>The transform\<close>

lemma F1_choice: "F1 x y z = (x AND y) OR (NOT x AND z)"
  by (rule bit_word_eqI) (auto simp: F1_def bit_simps)

lemma F2_choice: "F2 x y z = (x AND z) OR (y AND NOT z)"
  by (rule bit_word_eqI) (auto simp: F2_def F1_def bit_simps)

definition md5_fun :: "nat \<Rightarrow> uint32 \<Rightarrow> uint32 \<Rightarrow> uint32 \<Rightarrow> uint32" where
  "md5_fun i = (if i < 16 then F1 else if i < 32 then F2 else if i < 48 then F3 else F4)"

lemma md5_fun_round: "md5_fun i x y z = rfc_round i x y z"
  by (simp add: md5_fun_def rfc_round_def F1_choice F2_choice F3_def F4_def)

lemma md5_rows_upt: "md5_rows = map (\<lambda>i. (md5_fun i, rfc_word i, fst (snd (snd (md5_rows ! i))), rfc_shift i)) [0..<64]"
proof (rule nth_equalityI)
  show "length md5_rows = length (map (\<lambda>i. (md5_fun i, rfc_word i, fst (snd (snd (md5_rows ! i))), rfc_shift i)) [0..<64])"
    by (simp add: md5_rows_def)
next
  fix i assume "i < length md5_rows"
  then have i: "i \<in> set [0..<64]" by (simp add: md5_rows_def)
  have "\<forall>i \<in> set [0..<64]. md5_rows ! i = (md5_fun i, rfc_word i, fst (snd (snd (md5_rows ! i))), rfc_shift i)"
    unfolding upt_conv_Cons_Cons md5_rows_def
    by (simp add: upt_conv_Cons md5_fun_def rfc_word_def rfc_shift_def)
  then show "md5_rows ! i = map (\<lambda>i. (md5_fun i, rfc_word i, fst (snd (snd (md5_rows ! i))), rfc_shift i)) [0..<64] ! i"
    using i by simp
qed

lemma md5_row_step: "md5_row b (md5_fun i, rfc_word i, fst (snd (snd (md5_rows ! i))), rfc_shift i) = rfc_step b i"
proof
  fix q show "md5_row b (md5_fun i, rfc_word i, fst (snd (snd (md5_rows ! i))), rfc_shift i) q = rfc_step b i q"
    by (cases q) (simp add: MD5STEP_def rfc_step_def rfc_rotate_def Let_def md5_fun_round ac_simps)
qed

lemma list_of_4: "length xs = 4 \<Longrightarrow> xs = [xs ! 0, xs ! 1, xs ! 2, xs ! 3]"
  by (rule nth_equalityI) (auto simp: less_Suc_eq numeral_eq_Suc)

lemma MD5Transform_length: "length (MD5Transform st b) = 4"
  by (simp add: MD5Transform_def split: prod.splits)

lemma MD5Transform_rfc:
  assumes "length st = 4"
  shows "MD5Transform st b = rfc_block st b"
proof -
  have "fold (md5_row b) md5_rows = fold (rfc_step b) [0..<64]"
    by (subst md5_rows_upt) (simp add: fold_map comp_def md5_row_step)
  moreover have "map2 (+) st [x, y, z, w] = [st ! 0 + x, st ! 1 + y, st ! 2 + z, st ! 3 + w]" for x y z w
    by (subst list_of_4[OF assms]) simp
  ultimately show ?thesis by (simp only: MD5Transform_def rfc_block_def split: prod.splits)
qed

lemma MD5Transform_foldl: "length st = 4 \<Longrightarrow> foldl MD5Transform st bs = foldl rfc_block st bs"
proof (induction bs arbitrary: st)
  case (Cons b bs)
  then show ?case using Cons.IH[OF MD5Transform_length, of st b] by (simp add: MD5Transform_rfc[OF Cons.prems])
qed simp

section \<open>Blocks\<close>

lemma md5_blocks_short: "length d < 64 \<Longrightarrow> md5_blocks d = []"
  by (subst md5_blocks.simps) simp

lemma md5_blocks_more: "64 \<le> length d \<Longrightarrow> md5_blocks d = take 64 d # md5_blocks (drop 64 d)"
  by (subst md5_blocks.simps) simp

lemma md5_blocks_append: "64 dvd length d \<Longrightarrow> md5_blocks (d @ e) = md5_blocks d @ md5_blocks e"
proof (induction d rule: md5_blocks.induct)
  case (1 d)
  show ?case
  proof (cases "64 \<le> length d")
    case True
    then have "64 dvd length (drop 64 d)" using 1(2) by (simp add: dvd_diff_nat)
    then show ?thesis using 1(1)[OF True] True by (simp add: md5_blocks_more)
  next
    case False
    then have "d = []" using 1(2) by (auto dest: dvd_imp_le)
    then show ?thesis by (simp add: md5_blocks_short)
  qed
qed

text \<open>The bytes that wait for their block to be full.\<close>

definition md5_rest :: "cstring \<Rightarrow> cstring" where "md5_rest d = drop (64 * (length d div 64)) d"

lemma md5_rest_length [simp]: "length (md5_rest d) = length d mod 64"
  by (simp add: md5_rest_def minus_mult_div_eq_mod)

lemma md5_split: "d = take (64 * (length d div 64)) d @ md5_rest d"
  by (simp add: md5_rest_def)

lemma md5_full: "length (take (64 * (length d div 64)) d) = 64 * (length d div 64)"
  by (simp only: length_take min.absorb2[OF times_div_less_eq_dividend])

lemma md5_full_dvd: "64 dvd length (take (64 * (length d div 64)) d)"
  unfolding md5_full by simp

lemma md5_blocks_take: "md5_blocks (take (64 * (length d div 64)) d) = md5_blocks d"
proof -
  from md5_blocks_append[OF md5_full_dvd, of d "md5_rest d"] show ?thesis
    by (simp add: md5_split[symmetric] md5_blocks_short)
qed

lemma md5_rest_append: "md5_rest (d @ e) = md5_rest (md5_rest d @ e)"
proof -
  have "length (d @ e) = 64 * (length d div 64) + length (md5_rest d @ e)" by simp
  then have "length (d @ e) div 64 = length d div 64 + length (md5_rest d @ e) div 64" by presburger
  then show ?thesis by (simp add: md5_rest_def add_mult_distrib2 add.commute)
qed

lemma md5_blocks_rest: "md5_blocks (d @ e) = md5_blocks d @ md5_blocks (md5_rest d @ e)"
proof -
  from md5_blocks_append[OF md5_full_dvd, of d "md5_rest d @ e"] show ?thesis
    by (simp add: md5_blocks_take) (metis append.assoc md5_split)
qed

section \<open>Feeding the context\<close>

text \<open>A context that does not reverse bytes and has been fed the message \<open>d\<close>.\<close>

definition md5_init :: "uint32 list" where "md5_init = [0x67452301, 0xefcdab89, 0x98badcfe, 0x10325476]"

definition md5_fed :: "cstring \<Rightarrow> MD5Context \<Rightarrow> bool" where
  "md5_fed d ctx \<longleftrightarrow> \<not> doByteReverse ctx \<and> length (blk ctx) = 64 \<and> take (length d mod 64) (blk ctx) = md5_rest d \<and>
     buf ctx = foldl MD5Transform md5_init (md5_blocks d) \<and>
     bits0 ctx = of_nat (8 * length d) \<and> bits1 ctx = of_nat (8 * length d div 2 ^ 32)"

lemma memcpy_length: "at + length src \<le> length dst \<Longrightarrow> length (memcpy dst at src) = length dst"
  by (simp add: memcpy_def)

lemma memcpy_whole: "length src = length dst \<Longrightarrow> memcpy dst 0 src = src"
  by (simp add: memcpy_def)

lemma memcpy_take: "at \<le> length dst \<Longrightarrow> take (at + length src) (memcpy dst at src) = take at dst @ src"
  by (simp add: memcpy_def)

text \<open>The bytes that arrive when \<open>w\<close> waits: what the whole blocks do, and what waits after them.\<close>

lemma md5_chunks_fed:
  "\<not> doByteReverse ctx \<Longrightarrow> length (blk ctx) = 64 \<Longrightarrow>
   \<exists>b. md5_chunks ctx e = ctx\<lparr>blk := b, buf := foldl MD5Transform (buf ctx) (md5_blocks e)\<rparr> \<and>
       length b = 64 \<and> take (length e mod 64) b = md5_rest e"
proof (induction ctx e rule: md5_chunks.induct)
  case (1 ctx e)
  show ?case
  proof (cases "64 \<le> length e")
    case True
    define c where "c = md5_block (ctx\<lparr>blk := memcpy (blk ctx) 0 (take 64 e)\<rparr>)"
    have c: "c = ctx\<lparr>blk := take 64 e, buf := MD5Transform (buf ctx) (take 64 e)\<rparr>"
      using True 1(2,3) by (simp add: c_def md5_block_def memcpy_whole Let_def)
    have "\<exists>b. md5_chunks c (drop 64 e) = c\<lparr>blk := b, buf := foldl MD5Transform (buf c) (md5_blocks (drop 64 e))\<rparr> \<and>
       length b = 64 \<and> take (length (drop 64 e) mod 64) b = md5_rest (drop 64 e)"
      using 1(1)[OF True] 1(2,3) True unfolding c_def[symmetric] by (simp add: c)
    moreover have "md5_rest e = md5_rest (drop 64 e)"
      using md5_rest_append[of "take 64 e" "drop 64 e"] True by (simp add: md5_rest_def min_def)
    moreover have "length (drop 64 e) mod 64 = length e mod 64" using True by (simp add: le_mod_geq)
    ultimately show ?thesis using True by (subst md5_chunks.simps) (simp add: md5_blocks_more c_def[symmetric] c)
  next
    case False
    then have "take (length e mod 64) (memcpy (blk ctx) 0 e) = md5_rest e" "length (memcpy (blk ctx) 0 e) = 64"
      using 1(3) memcpy_take[of 0 "blk ctx" e] memcpy_length[of 0 e "blk ctx"] by (simp_all add: md5_rest_def)
    then show ?thesis using False by (subst md5_chunks.simps) (auto simp: md5_blocks_short intro!: exI[of _ "memcpy (blk ctx) 0 e"])
  qed
qed

text \<open>The count of bits on two words.\<close>

lemma div_carry:
  fixes k :: nat
  assumes "0 < k"
  shows "(a + b) div k = a div k + b div k + (if (a + b) mod k < a mod k then 1 else 0)"
proof -
  have "a mod k < k" "b mod k < k" using assms by auto
  moreover have "(a + b) div k = a div k + b div k + (a mod k + b mod k) div k" by (rule div_add1_eq)
  moreover have "(a + b) mod k = (a mod k + b mod k) mod k" by (rule mod_add_eq[symmetric])
  moreover have "(a mod k + b mod k) div k = 1 \<and> (a mod k + b mod k) mod k = a mod k + b mod k - k"
    if "k \<le> a mod k + b mod k"
  proof -
    have "a mod k + b mod k - k < k" using calculation(1,2) by linarith
    then show ?thesis using that assms by (simp add: le_div_geq le_mod_geq)
  qed
  ultimately show ?thesis by (cases "k \<le> a mod k + b mod k") auto
qed

lemma md5_bits:
  fixes n m :: nat
  assumes "m < 2 ^ 32"
  defines "t \<equiv> (of_nat (8 * n) :: uint32)"
  defines "u \<equiv> t + push_bit 3 (of_nat m)"
  shows "u = of_nat (8 * (n + m))"
    and "(if u < t then (of_nat (8 * n div 2 ^ 32) :: uint32) + 1 else of_nat (8 * n div 2 ^ 32)) + drop_bit 29 (of_nat m)
      = of_nat (8 * (n + m) div 2 ^ 32)"
proof -
  show u: "u = of_nat (8 * (n + m))"
    by (simp add: u_def t_def push_bit_eq_mult algebra_simps)
  have lt: "u < t \<longleftrightarrow> 8 * (n + m) mod 2 ^ 32 < 8 * n mod 2 ^ 32"
    by (simp only: u t_def word_less_nat_alt unat_of_nat) simp
  have d: "drop_bit 29 (of_nat m :: uint32) = of_nat (m div 2 ^ 29)"
    using assms(1) by (intro word_unat_eq_iff[THEN iffD2]) (simp only: unat_drop_bit_eq, simp add: drop_bit_eq_div unat_of_nat less_mult_imp_div_less)
  have "8 * (n + m) div 2 ^ 32 = 8 * n div 2 ^ 32 + m div 2 ^ 29 + (if 8 * (n + m) mod 2 ^ 32 < 8 * n mod 2 ^ 32 then 1 else 0)"
    using div_carry[of "2 ^ 32" "8 * n" "8 * m"] div_mult2_eq[of "8 * m" 8 "2 ^ 29"] by (simp add: algebra_simps)
  then show "(if u < t then (of_nat (8 * n div 2 ^ 32) :: uint32) + 1 else of_nat (8 * n div 2 ^ 32)) + drop_bit 29 (of_nat m)
      = of_nat (8 * (n + m) div 2 ^ 32)" unfolding lt d by simp
qed

lemma md5_count: "unat (drop_bit 3 (of_nat (8 * n) :: uint32) AND 0x3f) = n mod 64"
proof -
  have "unat (drop_bit 3 (of_nat (8 * n) :: uint32)) = 8 * n mod 2 ^ 32 div 8"
    unfolding unat_drop_bit_eq by (simp only: drop_bit_eq_div unat_of_nat) simp
  moreover have "unat (w AND 0x3f) = unat w mod 64" for w :: uint32
    using take_bit_eq_mask[of 6 w] unsigned_take_bit_eq[of 6 w] by (simp add: mask_eq_exp_minus_1 take_bit_eq_mod)
  moreover have "8 * n mod 2 ^ 32 div 8 = n mod 2 ^ 29"
    using mult_mod_right[of 8 n "2 ^ 29"] by simp
  moreover have "n mod 2 ^ 29 mod 64 = n mod 64" by (rule mod_mod_cancel) simp
  ultimately show ?thesis by simp
qed

lemma md5_update_fed:
  assumes "md5_fed d ctx" and "length e < 2 ^ 32"
  shows "md5_fed (d @ e) (MD5Update ctx e)"
proof -
  note f = assms(1)[unfolded md5_fed_def]
  define n where "n = length d mod 64"
  define c where "c = (let t = bits0 ctx; u = t + push_bit 3 (of_nat (length e)) in
     ctx\<lparr>bits0 := u, bits1 := (if u < t then bits1 ctx + 1 else bits1 ctx) + drop_bit 29 (of_nat (length e))\<rparr>)"
  have bits: "bits0 c = of_nat (8 * length (d @ e))" "bits1 c = of_nat (8 * length (d @ e) div 2 ^ 32)"
    using f md5_bits[OF assms(2), of "length d"] unfolding c_def Let_def length_append by (metis (no_types, lifting) MD5Context.select_convs(3,4) MD5Context.update_convs(3,4) MD5Context.surjective)+
  have c: "\<not> doByteReverse c" "blk c = blk ctx" "buf c = buf ctx" "length (blk c) = 64" using f by (simp_all add: c_def Let_def)
  have cnt: "unat (drop_bit 3 (bits0 ctx) AND 0x3f) = n" using f md5_count[of "length d"] unfolding n_def by simp
  have upd: "MD5Update ctx e = (if n \<noteq> 0 then
      (if length e < 64 - n then c\<lparr>blk := memcpy (blk c) n e\<rparr>
       else md5_chunks (md5_block (c\<lparr>blk := memcpy (blk c) n (take (64 - n) e)\<rparr>)) (drop (64 - n) e))
     else md5_chunks c e)"
    unfolding MD5Update_def Let_def cnt c_def by (auto simp: c_def Let_def)
  have rest: "md5_blocks (d @ e) = md5_blocks d @ md5_blocks (md5_rest d @ e)" "md5_rest (d @ e) = md5_rest (md5_rest d @ e)"
    by (rule md5_blocks_rest, rule md5_rest_append)
  have lr: "length (md5_rest d) = n" "take n (blk c) = md5_rest d" "n < 64" using f c by (simp_all add: n_def)
  show ?thesis
  proof (cases "n \<noteq> 0 \<and> length e < 64 - n")
    case True
    have le: "n + length e < 64" using True by linarith
    have "64 > length (md5_rest d @ e)" using le lr(1) by simp
    then have "md5_blocks (md5_rest d @ e) = []" "md5_rest (md5_rest d @ e) = md5_rest d @ e"
      by (simp_all add: md5_blocks_short md5_rest_def)
    moreover have "take (n + length e) (memcpy (blk c) n e) = md5_rest d @ e" "length (memcpy (blk c) n e) = 64"
      using le lr c memcpy_take[of n "blk c" e] memcpy_length[of n e "blk c"] by simp_all
    moreover have "length (d @ e) mod 64 = n + length e"
      using True md5_rest_length[of "d @ e"] lr(1) rest(2) calculation(2) by simp
    ultimately show ?thesis using True f bits c upd rest by (simp add: md5_fed_def)
  next
    case False
    have "\<exists>b. MD5Update ctx e = c\<lparr>blk := b, buf := foldl MD5Transform (buf c) (md5_blocks (md5_rest d @ e))\<rparr> \<and>
        length b = 64 \<and> take (length (d @ e) mod 64) b = md5_rest (md5_rest d @ e)"
    proof (cases "n = 0")
      case True
      then have "md5_rest d = []" using lr(1) by (metis length_0_conv)
      moreover have "length (d @ e) mod 64 = length e mod 64" using True unfolding n_def by (simp add: mod_add_left_eq[symmetric])
      ultimately have "md5_rest d = []" "length (d @ e) mod 64 = length e mod 64" by simp_all
      then show ?thesis using md5_chunks_fed[OF c(1,4), of e] upd True by simp
    next
      case n: False
      define b1 where "b1 = memcpy (blk c) n (take (64 - n) e)"
      define e2 where "e2 = drop (64 - n) e"
      have l: "length (take (64 - n) e) = 64 - n" using False n by simp
      then have b1: "b1 = md5_rest d @ take (64 - n) e" "length b1 = 64"
        using memcpy_take[of n "blk c" "take (64 - n) e"] memcpy_length[of n "take (64 - n) e" "blk c"] lr c by (simp_all add: b1_def)
      define c1 where "c1 = md5_block (c\<lparr>blk := b1\<rparr>)"
      have c1: "c1 = c\<lparr>blk := b1, buf := MD5Transform (buf c) b1\<rparr>" using c by (simp add: c1_def md5_block_def Let_def)
      have u: "MD5Update ctx e = md5_chunks c1 e2" using upd False n by (simp add: c1_def b1_def e2_def)
      have whole: "md5_rest d @ e = b1 @ e2" by (simp add: b1(1) e2_def)
      have "md5_blocks (md5_rest d @ e) = b1 # md5_blocks e2" "md5_rest (md5_rest d @ e) = md5_rest e2"
        using md5_blocks_append[of b1 e2] md5_blocks_more[of b1] md5_rest_append[of b1 e2] b1(2)
        unfolding whole by (simp_all add: md5_blocks_short md5_rest_def)
      moreover have "length (d @ e) mod 64 = length e2 mod 64"
        using md5_rest_length[of "d @ e"] md5_rest_length[of e2] rest(2) calculation(2) by metis
      moreover have "\<exists>b. md5_chunks c1 e2 = c1\<lparr>blk := b, buf := foldl MD5Transform (buf c1) (md5_blocks e2)\<rparr> \<and>
          length b = 64 \<and> take (length e2 mod 64) b = md5_rest e2"
        by (rule md5_chunks_fed) (use c b1 in \<open>simp_all add: c1\<close>)
      ultimately show ?thesis by (simp add: u c1)
    qed
    then show ?thesis using f bits c rest by (auto simp: md5_fed_def)
  qed
qed

lemma md5_init_fed: "length (blk ctx) = 64 \<Longrightarrow> md5_fed [] (MD5Init ctx True)"
  by (simp add: md5_fed_def MD5Init_def md5_init_def md5_blocks_short md5_rest_def)

lemma md5_updates_fed: "md5_fed d ctx \<Longrightarrow> \<forall>e \<in> set es. length e < 2 ^ 32 \<Longrightarrow> md5_fed (d @ concat es) (foldl MD5Update ctx es)"
proof (induction es arbitrary: d ctx)
  case (Cons e es)
  then show ?case using Cons.IH[OF md5_update_fed[of d ctx e]] by simp
qed simp

section \<open>The end of a message\<close>

lemma bytes_of_length [simp]: "length (bytes_of w) = 4"
  by (simp add: bytes_of_def)

lemma MD5Final_eq:
  assumes "\<not> doByteReverse ctx" and "unat (drop_bit 3 (bits0 ctx) AND 0x3f) = n"
  defines "b1 \<equiv> memcpy (blk ctx) n [chr 0x80]"
  shows "MD5Final ctx =
    (if n \<le> 55 then
       concat (map bytes_of (MD5Transform (buf ctx)
         (memcpy (memcpy (memcpy b1 (n + 1) (replicate (55 - n) NUL)) 56 (bytes_of (bits0 ctx))) 60 (bytes_of (bits1 ctx)))))
     else (let b2 = memcpy b1 (n + 1) (replicate (63 - n) NUL) in
       concat (map bytes_of (MD5Transform (MD5Transform (buf ctx) b2)
         (memcpy (memcpy (memcpy b2 0 (replicate 56 NUL)) 56 (bytes_of (bits0 ctx))) 60 (bytes_of (bits1 ctx)))))))"
proof (cases "n \<le> 55")
  case True
  then have c: "\<not> 64 - 1 - n < 8" "64 - 1 - n - 8 = 55 - n" by simp_all
  show ?thesis unfolding MD5Final_def assms(2) Let_def using True assms(1) c by (simp add: b1_def)
next
  case False
  then have c: "64 - 1 - n < 8" "64 - 1 - n = 63 - n" by simp_all
  show ?thesis unfolding MD5Final_def assms(2) Let_def md5_block_def using False assms(1) c by (simp add: b1_def)
qed

lemma md5_final_fed:
  assumes "md5_fed d ctx"
  shows "MD5Final ctx = rfc1321 d"
proof -
  note f = assms[unfolded md5_fed_def]
  define n where "n = length d mod 64"
  define ln where "ln = bytes_of (bits0 ctx) @ bytes_of (bits1 ctx)"
  have cnt: "unat (drop_bit 3 (bits0 ctx) AND 0x3f) = n" using f md5_count[of "length d"] unfolding n_def by simp
  have n: "n < 64" "take n (blk ctx) = md5_rest d" "length (md5_rest d) = n" using f by (simp_all add: n_def)
  define b1 where "b1 = memcpy (blk ctx) n [chr 0x80]"
  have b1: "length b1 = 64" "take (n + 1) b1 = md5_rest d @ [chr 0x80]"
    using n f memcpy_length[of n "[chr 0x80]" "blk ctx"] memcpy_take[of n "blk ctx" "[chr 0x80]"] by (simp_all add: b1_def)
  have pad: "rfc_pad d = d @ [chr 0x80] @ replicate ((119 - n) mod 64) NUL @ ln"
    using f by (simp add: rfc_pad_def n_def ln_def)
  have goal: "rfc1321 d = concat (map bytes_of (foldl MD5Transform (buf ctx) (md5_blocks (md5_rest d @ [chr 0x80] @ replicate ((119 - n) mod 64) NUL @ ln))))"
  proof -
    have "rfc1321 d = concat (map bytes_of (foldl MD5Transform md5_init (md5_blocks (rfc_pad d))))"
      using MD5Transform_foldl[of md5_init] unfolding rfc1321_def md5_init_def[symmetric] by (simp add: md5_init_def)
    then show ?thesis unfolding pad md5_blocks_rest[of d] foldl_append using f by simp
  qed
  have tail: "memcpy (memcpy b 56 (bytes_of x)) 60 (bytes_of y) = take 56 b @ bytes_of x @ bytes_of y" if "length b = 64" for b x y
    using that by (simp add: memcpy_def)
  have single: "md5_blocks (b @ x) = b # md5_blocks x" if "length b = 64" for b x
    using md5_blocks_append[of b x] md5_blocks_more[of b] that by (simp add: md5_blocks_short)
  have one: "md5_blocks b = [b]" if "length b = 64" for b using single[OF that, of "[]"] by (simp add: md5_blocks_short)
  have ll: "length ln = 8" by (simp add: ln_def)
  show ?thesis
  proof (cases "n \<le> 55")
    case True
    define b2 where "b2 = memcpy b1 (n + 1) (replicate (55 - n) NUL)"
    have b2: "length b2 = 64" "take 56 b2 = md5_rest d @ [chr 0x80] @ replicate (55 - n) NUL"
      using True b1 memcpy_length[of "n + 1" "replicate (55 - n) NUL" b1] memcpy_take[of "n + 1" b1 "replicate (55 - n) NUL"]
      by (simp_all add: b2_def)
    have "MD5Final ctx = concat (map bytes_of (MD5Transform (buf ctx) (take 56 b2 @ ln)))"
      using MD5Final_eq[OF _ cnt] f True tail[OF b2(1)] unfolding b1_def[symmetric] b2_def[symmetric] ln_def by simp
    moreover have "(119 - n) mod 64 = 55 - n"
    proof -
      have "119 - n = 64 + (55 - n)" using True by linarith
      moreover have "(64 + (55 - n)) mod 64 = 55 - n" by (simp only: mod_add_self1) simp
      ultimately show ?thesis by (simp only:)
    qed
    moreover have "length (take 56 b2 @ ln) = 64" using b2(1) ll by simp
    ultimately show ?thesis unfolding goal using one[of "take 56 b2 @ ln"] by (simp add: b2(2))
  next
    case False
    define b2 where "b2 = memcpy b1 (n + 1) (replicate (63 - n) NUL)"
    have b2: "b2 = md5_rest d @ [chr 0x80] @ replicate (63 - n) NUL" "length b2 = 64"
      using n b1 memcpy_length[of "n + 1" "replicate (63 - n) NUL" b1] memcpy_take[of "n + 1" b1 "replicate (63 - n) NUL"]
      by (simp_all add: b2_def)
    define b3 where "b3 = memcpy b2 0 (replicate 56 NUL)"
    have b3: "length b3 = 64" "take 56 b3 = replicate 56 NUL" using b2(2) by (simp_all add: b3_def memcpy_def)
    have "MD5Final ctx = concat (map bytes_of (MD5Transform (MD5Transform (buf ctx) b2) (replicate 56 NUL @ ln)))"
      using MD5Final_eq[OF _ cnt] f False tail[OF b3(1)] b3(2)
      unfolding b1_def[symmetric] b2_def[symmetric] Let_def b3_def[symmetric] ln_def by simp
    moreover have "replicate ((119 - n) mod 64) NUL = replicate (63 - n) NUL @ replicate 56 NUL"
    proof -
      have "(119 - n) mod 64 = (63 - n) + 56" using False n(1) by simp
      then show ?thesis by (simp only: replicate_add)
    qed
    ultimately show ?thesis unfolding goal using single[OF b2(2), of "replicate 56 NUL @ ln"] one[of "replicate 56 NUL @ ln"] ll
      by (simp add: b2(1))
  qed
qed

section \<open>Properties\<close>



lemma rfc1321_length: "length (rfc1321 d) = 16"
proof -
  have "length (foldl MD5Transform md5_init bs) = 4" for bs
    by (induction bs rule: rev_induct) (simp_all add: md5_init_def MD5Transform_length)
  moreover have "foldl rfc_block md5_init bs = foldl MD5Transform md5_init bs" for bs
    by (rule MD5Transform_foldl[symmetric]) (simp add: md5_init_def)
  ultimately have l: "length (foldl rfc_block md5_init bs) = 4" for bs by simp
  show ?thesis unfolding rfc1321_def md5_init_def[symmetric] by (subst list_of_4[OF l]) simp
qed

end
