(* ===== verification/NameSafe.thy ===== *)
theory NameSafe
  imports UrlNorm Utf8 LinkTools "HOL-Library.Monad_Syntax"
begin

text \<open>
  What \<open>htsname.c\<close> does to a local name once it is built: characters, reserved names, ends of
  components, 8-3 form, dot segments, the hook of the user, the length limits, and the directory of the
  mirror in front.  A name is the text of \<open>afs->save\<close>, a buffer of \<open>SAVE_SIZE\<close> bytes, and \<open>None\<close> is the
  abort of a bounded copy.
\<close>

section \<open>Bounded copies and containment (\<open>htssafe.h\<close>)\<close>

definition SAVE_SIZE :: nat where "SAVE_SIZE = HTS_URLMAXSIZE * 2"

text \<open>A copy into, or an append to, a buffer of \<open>sz\<close> bytes that aborts; the one that clips is in \<open>UrlNorm\<close>.\<close>

definition strcpybuff :: "nat \<Rightarrow> cstring \<Rightarrow> cstring option" where
  "strcpybuff sz src = (if length src < sz then Some src else None)"

definition strcatbuff :: "nat \<Rightarrow> cstring \<Rightarrow> cstring \<Rightarrow> cstring option" where
  "strcatbuff sz dest src = (if length dest + length src < sz then Some (dest @ src) else None)"

definition HTS_IS_PATH_SEP :: "char \<Rightarrow> bool" where
  "HTS_IS_PATH_SEP c \<longleftrightarrow> c = CHR ''/'' \<or> c = BACKSLASH"

function hts_path_is_contained :: "cstring \<Rightarrow> bool" where
  "hts_path_is_contained s =
     (if s = [] then True
      else
        let s = dropWhile HTS_IS_PATH_SEP s in
        if cbyte s 0 = CHR ''.'' \<and> cbyte s 1 = CHR ''.'' \<and> (cbyte s 2 = NUL \<or> HTS_IS_PATH_SEP (cbyte s 2)) then False
        else hts_path_is_contained (dropWhile (\<lambda>c. \<not> HTS_IS_PATH_SEP c) s))"
  by pat_completeness auto
termination
proof (relation "measure length", goal_cases)
  case (2 s t)
  define u where "u = dropWhile HTS_IS_PATH_SEP s"
  have "length (dropWhile (\<lambda>c. \<not> HTS_IS_PATH_SEP c) u) < length s"
  proof (cases "HTS_IS_PATH_SEP (hd s)")
    case True
    have "length u < length s" using 2(1) True unfolding u_def by (cases s) (auto simp: le_imp_less_Suc length_dropWhile_le)
    then show ?thesis using length_dropWhile_le[of "\<lambda>c. \<not> HTS_IS_PATH_SEP c" u] by linarith
  next
    case False
    then have "u = s" using 2(1) unfolding u_def by (cases s) auto
    then show ?thesis using 2(1) False by (cases s) (auto simp: le_imp_less_Suc length_dropWhile_le)
  qed
  then show ?case using 2(2) by (simp add: u_def)
qed simp

declare hts_path_is_contained.simps [simp del]

definition hts_path_is_relative_contained :: "cstring \<Rightarrow> bool" where
  "hts_path_is_relative_contained path =
     (if HTS_IS_PATH_SEP (cbyte path 0) then False
      else if isalpha (cbyte path 0) \<and> cbyte path 1 = CHR '':'' then False
      else hts_path_is_contained path)"

section \<open>Reserved names\<close>

definition hts_tbdev :: "cstring list" where
  "hts_tbdev = [''prn'', ''con'', ''aux'', ''nul'',
     ''lpt1'', ''lpt2'', ''lpt3'', ''lpt4'', ''lpt5'', ''lpt6'', ''lpt7'', ''lpt8'', ''lpt9'',
     ''com1'', ''com2'', ''com3'', ''com4'', ''com5'', ''com6'', ''com7'', ''com8'', ''com9'',
     ''conin$'', ''conout$'', ''clock$'', ''emmxxxx0'', ''xmsxxxx0'', ''setverxx'']"

definition hts_tbreserved :: "cstring list" where
  "hts_tbreserved = [''hts-cache'', ''hts-tmp'']"

text \<open>The suffix at the first occurrence of \<open>pat\<close>, letter case apart.\<close>

fun strstrcase :: "cstring \<Rightarrow> cstring \<Rightarrow> cstring option" where
  "strstrcase [] pat = None"
| "strstrcase (c # s) pat = (if strfield (c # s) pat = 0 then strstrcase s pat else Some (c # s))"

definition strippedToComponentEnd :: "cstring \<Rightarrow> bool" where
  "strippedToComponentEnd s =
     (let s = dropWhile (\<lambda>c. c = CHR '' '' \<or> c = CHR ''.'') s in cbyte s 0 = NUL \<or> cbyte s 0 = CHR ''/'')"

text \<open>Is the occurrence between \<open>pre\<close> and \<open>after\<close> a whole component?\<close>

definition name_reserved :: "cstring \<Rightarrow> cstring \<Rightarrow> bool" where
  "name_reserved pre after =
     (if pre = [] then strippedToComponentEnd after
      else if last pre = CHR ''/'' then
        (if cbyte after 0 \<in> {NUL, CHR ''/'', CHR ''.''} then True
         else if cbyte after 0 = CHR '' '' then strippedToComponentEnd after
         else False)
      else False)"

lemma strstrcase_suffix: "strstrcase s pat = Some t \<Longrightarrow> suffix t s \<and> t \<noteq> [] \<and> strfield t pat \<noteq> 0"
  by (induction s pat rule: strstrcase.induct) (auto simp: suffix_Cons split: if_splits)

text \<open>
  One name: \<open>done\<close> is what the scan has passed and \<open>a\<close> is where it stands.  The staging buffer is of the
  size of the name.  Every name of the tables has two characters at least.
\<close>

function escape_name :: "cstring \<Rightarrow> cstring \<Rightarrow> cstring \<Rightarrow> cstring option" where
  "escape_name name passed a =
     (if length name < 2 then Some (passed @ a)
      else
        case strstrcase a name of
          None \<Rightarrow> Some (passed @ a)
        | Some t \<Rightarrow>
            let pre = passed @ take (length a - length t) a; word = take (length name) t; after = drop (length name) t in
            if name_reserved pre after then
              do {
                tempo \<leftarrow> strcatbuff SAVE_SIZE (pre @ word) (''_'' @ after);
                escape_name name (pre @ word) (drop (length (pre @ word)) (strclipbuff SAVE_SIZE tempo)) }
            else escape_name name (pre @ word) after)"
  by pat_completeness auto
termination
proof (relation "measure (\<lambda>(_, _, a). length a)", goal_cases)
  case (2 name passed a t pre word after tempo)
  then have "length t \<le> length a" "t \<noteq> []" by (auto dest!: strstrcase_suffix simp: suffix_length_le)
  moreover have "length (drop (length (pre @ word)) (strclipbuff SAVE_SIZE tempo)) \<le> Suc (length after)"
    using 2 by (auto simp: strclipbuff_def strcatbuff_def split: if_splits)
  moreover have "strfield t name \<noteq> 0" using 2 strstrcase_suffix by blast
  then have "length name \<le> length t" using strfield_le[of t name] by (simp add: strfield_eq split: if_splits)
  ultimately show ?case using 2 by auto
next
  case (3 name passed a t pre word after)
  then have "length t \<le> length a" "t \<noteq> []" by (auto dest!: strstrcase_suffix simp: suffix_length_le)
  then have "0 < length t" "length t \<le> length a" by simp_all
  then have "length (drop (length name) t) < length a" using 3(1) unfolding length_drop by linarith
  then show ?case using 3 by simp
qed simp

declare escape_name.simps [simp del]

fun escapeReservedNames :: "cstring \<Rightarrow> cstring list \<Rightarrow> cstring option" where
  "escapeReservedNames save [] = Some save"
| "escapeReservedNames save (name # names) = do { save \<leftarrow> escape_name name [] save; escapeReservedNames save names }"

section \<open>Slashes and ends of components\<close>

fun double_slash_loop :: "char \<Rightarrow> cstring \<Rightarrow> cstring" where
  "double_slash_loop prev [] = []"
| "double_slash_loop prev (c # s) = (if c = CHR ''/'' \<and> prev = CHR ''/'' then double_slash_loop c s else c # double_slash_loop c s)"

definition cleanDoubleSlash :: "cstring \<Rightarrow> cstring" where
  "cleanDoubleSlash s = double_slash_loop NUL s"

definition stripLeadingSlashes :: "cstring \<Rightarrow> cstring" where
  "stripLeadingSlashes s = dropWhile (\<lambda>c. c = CHR ''/'') s"

text \<open>\<open>w\<close> is what is written, and \<open>e\<close> the length up to the last character that may end a component.\<close>

fun ending_loop :: "cstring \<Rightarrow> nat \<Rightarrow> cstring \<Rightarrow> cstring" where
  "ending_loop w e [] = take e w"
| "ending_loop w e (c # s) =
     (let w = (if c = CHR ''/'' then take e w else w) @ [c];
          e = (if c \<noteq> CHR '' '' \<and> c \<noteq> CHR ''.'' then length w else e)
      in ending_loop w e s)"

definition cleanEndingSpaceOrDot :: "cstring \<Rightarrow> cstring" where
  "cleanEndingSpaceOrDot s = ending_loop [] 0 s"

section \<open>The sanitizer of \<open>url_savename\<close>\<close>

text \<open>Values of \<open>opt->savename_83\<close>: long names, DOS names, ISO 9660 names.\<close>

abbreviation HTS_SAVENAME_83_LONG :: int where "HTS_SAVENAME_83_LONG \<equiv> 0"
abbreviation HTS_SAVENAME_83_DOS :: int where "HTS_SAVENAME_83_DOS \<equiv> 1"
abbreviation HTS_SAVENAME_83_ISO9660 :: int where "HTS_SAVENAME_83_ISO9660 \<equiv> 2"

definition forbidden_char :: "int \<Rightarrow> char \<Rightarrow> bool" where
  "forbidden_char savename_83 c \<longleftrightarrow>
     ord c < 32 \<or> ord c = 127 \<or> c \<in> {CHR ''~'', BACKSLASH, CHR '':'', CHR ''*'', CHR ''?'', DQUOTE, CHR ''<'', CHR ''>'', CHR ''|''} \<or>
     (savename_83 = HTS_SAVENAME_83_ISO9660 \<and> c \<in> {CHR ''-'', CHR ''='', CHR ''+''})"

definition clean_chars :: "int \<Rightarrow> cstring \<Rightarrow> cstring" where
  "clean_chars savename_83 save = map (\<lambda>c. if forbidden_char savename_83 c then CHR ''_'' else c) save"

text \<open>Offset of the last character that satisfies \<open>P\<close>, or 0: the loops that walk back to the start.\<close>

definition back_to :: "(char \<Rightarrow> bool) \<Rightarrow> cstring \<Rightarrow> nat" where
  "back_to P s = length (dropWhile (\<lambda>c. \<not> P c) (rev s)) - 1"

text \<open>Stricter ISO 9660 names: upper case, and one dot.\<close>

definition iso_char :: "nat option \<Rightarrow> nat \<Rightarrow> char \<Rightarrow> char" where
  "iso_char l i c =
     (if ord CHR ''a'' \<le> ord c \<and> ord c \<le> ord CHR ''z'' then chr (ord c - 32)
      else if c = CHR ''.'' then (if Some i \<noteq> l then CHR ''_'' else c)
      else if \<not> ((ord CHR ''A'' \<le> ord c \<and> ord c \<le> ord CHR ''Z'') \<or> isdigit c \<or> c = CHR ''_'' \<or> c = CHR ''/'' \<or> c = BACKSLASH)
      then CHR ''_'' else c)"

definition iso_strict :: "cstring \<Rightarrow> cstring" where
  "iso_strict save =
     (let l = back_to (\<lambda>c. c = CHR ''/'' \<or> c = BACKSLASH \<or> c = CHR ''.'') save;
          l = (if cbyte save l = CHR ''.'' then Some l else None)
      in map (\<lambda>i. iso_char l i (save ! i)) [0..<length save])"

text \<open>From the name as it was built to the one handed to the hook.\<close>

definition save_sanitize :: "int \<Rightarrow> cstring \<Rightarrow> cstring option" where
  "save_sanitize savename_83 save = do {
     let save = (if cbyte save 0 = CHR ''/'' then tl save else save);
     let save = cleanDoubleSlash (clean_chars savename_83 save);
     save \<leftarrow> escapeReservedNames save hts_tbreserved;
     save \<leftarrow> escapeReservedNames save hts_tbdev;
     let save = cleanDoubleSlash (cleanEndingSpaceOrDot save);
     save \<leftarrow> (if savename_83 \<noteq> HTS_SAVENAME_83_LONG
             then do { n83 \<leftarrow> long_to_83 savename_83 SAVE_SIZE save; strcpybuff SAVE_SIZE n83 } else Some save);
     let save = (if savename_83 > 0 then iso_strict save else save);
     Some (stripLeadingSlashes (fil_simplifie save)) }"

text \<open>The hook of the user rewrites the name; one that leaves the mirror is refused.\<close>

definition save_hook :: "(cstring \<Rightarrow> cstring) \<Rightarrow> cstring \<Rightarrow> cstring" where
  "save_hook hook save = (if \<not> hts_path_is_relative_contained (hook save) then save else hook save)"

section \<open>The extension of delayed names\<close>

definition DELAYED_EXT :: cstring where "DELAYED_EXT = ''delayed''"

definition strendwith :: "cstring \<Rightarrow> cstring \<Rightarrow> bool" where
  "strendwith a b \<longleftrightarrow> length b \<le> length a \<and> drop (length a - length b) a = b"

definition IS_DELAYED_EXT :: "cstring \<Rightarrow> bool" where
  "IS_DELAYED_EXT a \<longleftrightarrow> a \<noteq> [] \<and> strendwith a (''.'' @ DELAYED_EXT)"

fun last_dot_loop :: "nat option \<Rightarrow> nat \<Rightarrow> cstring \<Rightarrow> nat option" where
  "last_dot_loop l i [] = l"
| "last_dot_loop l i (c # path) =
     last_dot_loop (if c = CHR ''.'' then Some i else if c = CHR ''/'' \<or> c = BACKSLASH then None else l) (i + 1) path"

text \<open>Offset of the last dot of the name part.\<close>

definition name_last_dot :: "cstring \<Rightarrow> nat option" where
  "name_last_dot path = last_dot_loop None 0 path"

definition save_delayed :: "bool \<Rightarrow> cstring \<Rightarrow> cstring option" where
  "save_delayed ext_chg_delayed save =
     (if \<not> ext_chg_delayed then Some save
      else if name_last_dot save = None \<or> \<not> IS_DELAYED_EXT save then strcatbuff SAVE_SIZE save (''.'' @ DELAYED_EXT)
      else Some save)"

section \<open>Length limits\<close>

definition HTS_PATH_TAIL_RESERVE :: nat where "HTS_PATH_TAIL_RESERVE = 64"

text \<open>\<open>PATH_MAX\<close> is 4096 and \<open>NAME_MAX\<close> 255, as on Linux.\<close>

definition HTS_MAX_PATH_LEN :: nat where
  "HTS_MAX_PATH_LEN = min (4096 - HTS_PATH_TAIL_RESERVE) (SAVE_SIZE - HTS_PATH_TAIL_RESERVE)"

definition MAX_SEG_LEN :: nat where "MAX_SEG_LEN = 255 - 16"
definition MIN_LAST_SEG_RESERVE :: nat where "MIN_LAST_SEG_RESERVE = 12"
definition MAX_LAST_SEG_RESERVE :: nat where "MAX_LAST_SEG_RESERVE = 24"
definition MAX_EXT_LEN :: nat where "MAX_EXT_LEN = 12"

text \<open>The directories that are kept: \<open>w\<close> is what is written, \<open>dirSize\<close> the characters of the segment so far.\<close>

fun dirs_loop :: "nat \<Rightarrow> nat \<Rightarrow> nat \<Rightarrow> hts_UCS4 list \<Rightarrow> hts_UCS4 list \<Rightarrow> hts_UCS4 list" where
  "dirs_loop lastSegSize maxLen dirSize w [] = w"
| "dirs_loop lastSegSize maxLen dirSize w (u # us) =
     (if \<not> length w + lastSegSize < maxLen then w
      else
        let dirSize = (if u = cword CHR ''/'' then 0 else dirSize) in
        if dirSize < MAX_SEG_LEN then dirs_loop lastSegSize maxLen (dirSize + 1) (w @ [u]) us
        else dirs_loop lastSegSize maxLen dirSize w us)"

definition hex_ucs4 :: "hts_UCS4 \<Rightarrow> bool" where
  "hex_ucs4 u \<longleftrightarrow> cword CHR ''0'' \<le> u \<and> u \<le> cword CHR ''9'' \<or> cword CHR ''a'' \<le> u \<and> u \<le> cword CHR ''f''"

text \<open>Where the tail that must survive the cut starts; \<open>seg\<close> is the last segment, offsets are from it.\<close>

definition mark_start :: "bool \<Rightarrow> hts_UCS4 list \<Rightarrow> nat" where
  "mark_start delayed seg =
     (if delayed then
        let extDot = length seg - length (''.'' @ DELAYED_EXT);
            p = length (dropWhile hex_ucs4 (rev (take extDot seg)))
        in if p > 0 \<and> p < extDot \<and> seg ! (p - 1) = cword CHR ''.'' then p - 1 else extDot
      else
        let p = length (dropWhile (\<lambda>u. u \<noteq> cword CHR ''.'') (rev seg)) in
        if p > 1 \<and> length seg - p \<le> MAX_EXT_LEN then p - 1 else length seg)"

text \<open>The last segment, its head clamped and its tail kept, for a name whose first \<open>j\<close> characters are written.\<close>

definition last_seg_cut :: "bool \<Rightarrow> nat \<Rightarrow> nat \<Rightarrow> hts_UCS4 list \<Rightarrow> hts_UCS4 list" where
  "last_seg_cut delayed maxLen j seg =
     (let markStart = mark_start delayed seg;
          tailLen = length seg - markStart;
          headLen = (if tailLen < MAX_SEG_LEN then MAX_SEG_LEN - tailLen else 0);
          head = take (min headLen (maxLen - j - tailLen)) (take markStart seg);
          j = j + length head
      in head @ take (maxLen - j) (drop markStart seg))"

definition shorten_ucs4 :: "bool \<Rightarrow> nat \<Rightarrow> hts_UCS4 list \<Rightarrow> hts_UCS4 list" where
  "shorten_ucs4 delayed maxLen wsave =
     (let lastSeg = length (dropWhile (\<lambda>u. u \<noteq> cword CHR ''/'') (rev (takeWhile (\<lambda>u. u \<noteq> 0) wsave)));
          seg = drop lastSeg wsave;
          lastSegSize = (if length seg > MAX_LAST_SEG_RESERVE then MAX_LAST_SEG_RESERVE
                         else if length seg < MIN_LAST_SEG_RESERVE then MIN_LAST_SEG_RESERVE else length seg);
          w = dirs_loop lastSegSize maxLen 0 [] (take (lastSeg - 1) wsave);
          w = (if lastSeg > 0 then w @ [cword CHR ''/''] else w)
      in w @ last_seg_cut delayed maxLen (length w) seg)"

definition save_shorten :: "cstring \<Rightarrow> cstring \<Rightarrow> cstring option" where
  "save_shorten path_html_utf8 save =
     (if hts_stringLengthUTF8 save + hts_stringLengthUTF8 path_html_utf8 \<ge> HTS_MAX_PATH_LEN then
        let wsave = hts_convertUTF8StringToUCS4 save;
            parentLen = hts_stringLengthUTF8 path_html_utf8;
            maxLen = (if parentLen < HTS_MAX_PATH_LEN - HTS_MAX_PATH_LEN div 4 then HTS_MAX_PATH_LEN - parentLen else HTS_MAX_PATH_LEN)
        in do {
          save \<leftarrow> strcpybuff SAVE_SIZE
            (takeWhile (\<lambda>c. c \<noteq> NUL) (hts_convertUCS4StringToUTF8 (shorten_ucs4 (IS_DELAYED_EXT save) maxLen wsave)));
          Some (cleanEndingSpaceOrDot save) }
      else Some save)"

text \<open>The largest cut at or below \<open>ln\<close> that does not split a UTF-8 character.\<close>

fun utf8_cut :: "cstring \<Rightarrow> nat \<Rightarrow> nat" where
  "utf8_cut s 0 = 0"
| "utf8_cut s (Suc ln) = (if (of_nat (ord (cbyte s (Suc ln))) :: byte) AND 0xC0 = 0x80 then utf8_cut s ln else Suc ln)"

definition save_bytes :: "cstring \<Rightarrow> cstring \<Rightarrow> cstring" where
  "save_bytes path_html_utf8 save =
     (let parentBytes = length path_html_utf8; cap = SAVE_SIZE - HTS_PATH_TAIL_RESERVE; budget = cap - parentBytes in
      if parentBytes < cap \<and> length save > budget then cleanEndingSpaceOrDot (take (utf8_cut save budget) save) else save)"

text \<open>The cuts, and the directory of the mirror in front.\<close>

definition save_limit :: "cstring \<Rightarrow> cstring \<Rightarrow> cstring option" where
  "save_limit path_html_utf8 save = do {
     save \<leftarrow> save_shorten path_html_utf8 save;
     Some (cleanDoubleSlash (save_bytes path_html_utf8 save)) }"

definition save_prefix :: "cstring \<Rightarrow> cstring \<Rightarrow> cstring option" where
  "save_prefix path_html_utf8 save =
     (if path_html_utf8 \<noteq> [] then do {
        tempo \<leftarrow> strcpybuff SAVE_SIZE path_html_utf8;
        tempo \<leftarrow> strcatbuff SAVE_SIZE tempo save;
        strcpybuff SAVE_SIZE tempo }
      else Some save)"

text \<open>All of it, from the name as it was built to the name before collisions are looked for.\<close>

definition save_finish :: "int \<Rightarrow> (cstring \<Rightarrow> cstring) \<Rightarrow> bool \<Rightarrow> cstring \<Rightarrow> cstring \<Rightarrow> cstring option" where
  "save_finish savename_83 hook ext_chg_delayed path_html_utf8 save = do {
     save \<leftarrow> save_sanitize savename_83 save;
     save \<leftarrow> save_delayed ext_chg_delayed (save_hook hook save);
     save \<leftarrow> save_limit path_html_utf8 save;
     save_prefix path_html_utf8 save }"

end
