(* ===== verification/NameClaims.thy ===== *)
theory NameClaims
  imports NameSafe UrlClaims
begin

text \<open>
  What the sanitizer of \<open>NameSafe\<close> guarantees: a local name never leaves the mirror, names no directory of
  the engine and no device, and fits the buffers.  Names are seen as their components, the segments
  between slashes.
\<close>

abbreviation comps :: "cstring \<Rightarrow> cstring list" where "comps s \<equiv> split_on SLASH s"

section \<open>Components\<close>

lemma comps_parts:
  obtains ss f where "s = close_segs SLASH ss @ f" "\<forall>c \<in> set ss. SLASH \<notin> set c" "SLASH \<notin> set f" "comps s = ss @ [f]"
  using split_on_eq[of s SLASH] by blast

lemma comps_nonempty [simp]: "comps s \<noteq> []"
  using split_on_eq[of s SLASH] by auto

lemma comps_set: "\<Union> (set ` set (comps s)) \<subseteq> set s"
  by (rule comps_parts[of s]) (auto simp: close_segs_def)

lemma comps_no_slash: "c \<in> set (comps s) \<Longrightarrow> SLASH \<notin> set c"
  by (rule comps_parts[of s]) auto

lemma comps_append: "comps (a @ SLASH # b) = comps a @ comps b"
proof (rule comps_parts[of a], rule comps_parts[of b])
  fix ss f ts g
  assume a: "a = close_segs SLASH ss @ f" "\<forall>c \<in> set ss. SLASH \<notin> set c" "SLASH \<notin> set f" "comps a = ss @ [f]"
    and b: "b = close_segs SLASH ts @ g" "\<forall>c \<in> set ts. SLASH \<notin> set c" "SLASH \<notin> set g" "comps b = ts @ [g]"
  have "a @ SLASH # b = close_segs SLASH (ss @ f # ts) @ g" by (simp add: a(1) b(1))
  then show ?thesis using split_on_close[of "ss @ f # ts" SLASH g] a b by auto
qed

text \<open>A component is what stands between two places where one may end.\<close>

lemma comps_split:
  assumes "c \<in> set (comps s)"
  obtains u v where "s = u @ c @ v" "u = [] \<or> last u = SLASH" "v = [] \<or> hd v = SLASH"
proof (rule comps_parts[of s])
  fix ss f
  assume s: "s = close_segs SLASH ss @ f" "\<forall>c \<in> set ss. SLASH \<notin> set c" "SLASH \<notin> set f" "comps s = ss @ [f]"
  have close: "close_segs SLASH xs = [] \<or> last (close_segs SLASH xs) = SLASH" for xs
    by (induction xs rule: rev_induct) auto
  show thesis
  proof (cases "c = f")
    case True
    then show thesis using s(1) close[of ss] by (intro that[of "close_segs SLASH ss" "[]"]) auto
  next
    case False
    then obtain xs ys where "ss = xs @ c # ys" using assms s(4) split_list[of c ss] by auto
    then show thesis using s(1) close[of xs] by (intro that[of "close_segs SLASH xs" "SLASH # close_segs SLASH ys @ f"]) auto
  qed
qed

section \<open>Slashes and ends of components\<close>

lemma double_slash_loop_plain:
  "SLASH \<notin> set c \<Longrightarrow> double_slash_loop p (c @ t) = c @ double_slash_loop (if c = [] then p else last c) t"
  by (induction c arbitrary: p) auto

lemma double_slash_loop_segs:
  "\<forall>c \<in> set ss. SLASH \<notin> set c \<Longrightarrow> SLASH \<notin> set f \<Longrightarrow>
     double_slash_loop SLASH (close_segs SLASH ss @ f) = close_segs SLASH (filter (\<lambda>c. c \<noteq> []) ss) @ f"
proof (induction ss)
  case Nil
  then show ?case using double_slash_loop_plain[of f SLASH "[]"] by simp
next
  case (Cons c ss)
  have "c \<noteq> [] \<Longrightarrow> last c \<noteq> SLASH" using Cons.prems(1) by (metis last_in_set list.set_intros(1))
  then show ?case using Cons double_slash_loop_plain[of c SLASH "SLASH # close_segs SLASH ss @ f"] by auto
qed

lemma cleanDoubleSlash_comps:
  "comps (cleanDoubleSlash s) = (if tl (comps s) = [] then comps s
     else hd (comps s) # filter (\<lambda>c. c \<noteq> []) (butlast (tl (comps s))) @ [last (comps s)])"
proof (rule comps_parts[of s])
  fix ss f
  assume s: "s = close_segs SLASH ss @ f" "\<forall>c \<in> set ss. SLASH \<notin> set c" "SLASH \<notin> set f" "comps s = ss @ [f]"
  show ?thesis
  proof (cases ss)
    case Nil
    then show ?thesis using s double_slash_loop_plain[of f NUL "[]"] by (simp add: cleanDoubleSlash_def)
  next
    case (Cons c cs)
    have "last c \<noteq> SLASH" if "c \<noteq> []" using s(2) Cons last_in_set[OF that] by auto
    then have "cleanDoubleSlash s = close_segs SLASH (c # filter (\<lambda>c. c \<noteq> []) cs) @ f"
      using double_slash_loop_plain[of c NUL "SLASH # close_segs SLASH cs @ f"] double_slash_loop_segs[of cs f] s(1,2,3) Cons
      by (simp add: cleanDoubleSlash_def)
    then have "comps (cleanDoubleSlash s) = (c # filter (\<lambda>c. c \<noteq> []) cs) @ [f]"
      using s(2,3) Cons by (simp only: ) (rule split_on_close, auto)
    then show ?thesis using s(4) Cons by simp
  qed
qed

lemma cleanDoubleSlash_subset: "set (comps (cleanDoubleSlash s)) \<subseteq> set (comps s)"
  unfolding cleanDoubleSlash_comps
  by (cases "comps s") (auto dest: in_set_butlastD last_in_set split: if_splits)

lemma cleanDoubleSlash_head: "cbyte (cleanDoubleSlash s) 0 = cbyte s 0"
  by (cases s) (simp_all add: cleanDoubleSlash_def)

text \<open>The loop that trims the ends trims each component.\<close>

definition trim_end :: "cstring \<Rightarrow> cstring" where "trim_end c = hts_rtrim c '' .''"

lemma trim_end_Nil [simp]: "trim_end [] = []"
  by (simp add: trim_end_def hts_rtrim_eq)

lemma trim_end_Cons:
  "trim_end (x # c) = (if trim_end c = [] \<and> x \<in> {CHR '' '', CHR ''.''} then [] else x # trim_end c)"
  by (auto simp: trim_end_def hts_rtrim_eq dropWhile_append dropWhile_eq_Nil_conv)

lemma trim_end_prefix: "prefix (trim_end c) c"
  by (induction c) (auto simp: trim_end_Cons)

lemma trim_end_take: "take (length (trim_end c)) c = trim_end c"
  by (metis append_eq_conv_conj prefix_def trim_end_prefix)

lemma trim_end_length: "length (trim_end c) \<le> length c"
  by (rule prefix_length_le[OF trim_end_prefix])

lemma trim_end_set: "set (trim_end c) \<subseteq> set c"
  by (metis set_mono_prefix trim_end_prefix)

lemma trim_end_last: "trim_end c \<noteq> [] \<Longrightarrow> last (trim_end c) \<notin> {CHR '' '', CHR ''.''}"
  by (induction c) (auto simp: trim_end_Cons split: if_splits)

lemma trim_end_rest: "set (drop (length (trim_end c)) c) \<subseteq> {CHR '' '', CHR ''.''}"
  by (induction c) (auto simp: trim_end_Cons)

lemma ending_loop_plain:
  "SLASH \<notin> set c \<Longrightarrow> ending_loop w e (c @ t) =
     ending_loop (w @ c) (if trim_end c = [] then e else length w + length (trim_end c)) t"
  by (induction c arbitrary: w e) (auto simp: trim_end_Cons Let_def)

lemma ending_loop_segs:
  "\<forall>c \<in> set ss. SLASH \<notin> set c \<Longrightarrow> SLASH \<notin> set f \<Longrightarrow>
     ending_loop w (length w) (close_segs SLASH ss @ f) = w @ close_segs SLASH (map trim_end ss) @ trim_end f"
proof (induction ss arbitrary: w)
  case Nil
  then show ?case using trim_end_take[of f] ending_loop_plain[of f w "length w" "[]"] by simp
next
  case (Cons c ss)
  have "ending_loop w (length w) (c @ SLASH # close_segs SLASH ss @ f) =
      ending_loop (w @ trim_end c @ [SLASH]) (length (w @ trim_end c @ [SLASH])) (close_segs SLASH ss @ f)"
    using Cons.prems trim_end_take[of c] ending_loop_plain[of c w "length w" "SLASH # close_segs SLASH ss @ f"]
    by (simp add: Let_def min.absorb2[OF trim_end_length])
  then show ?case using Cons.IH[of "w @ trim_end c @ [SLASH]"] Cons.prems by simp
qed

lemma cleanEndingSpaceOrDot_comps: "comps (cleanEndingSpaceOrDot s) = map trim_end (comps s)"
proof (rule comps_parts[of s])
  fix ss f
  assume s: "s = close_segs SLASH ss @ f" "\<forall>c \<in> set ss. SLASH \<notin> set c" "SLASH \<notin> set f" "comps s = ss @ [f]"
  have "SLASH \<notin> set (trim_end c)" if "SLASH \<notin> set c" for c
    using that trim_end_set[of c] by auto
  then have "comps (close_segs SLASH (map trim_end ss) @ trim_end f) = map trim_end ss @ [trim_end f]"
    using s(2,3) by (intro split_on_close) auto
  then show ?thesis using s ending_loop_segs[of ss f "[]"] by (simp add: cleanEndingSpaceOrDot_def)
qed

text \<open>No component is a dot-dot once the ends are trimmed.\<close>

lemma cleanEndingSpaceOrDot_dots: "c \<in> set (comps (cleanEndingSpaceOrDot s)) \<Longrightarrow> c = [] \<or> last c \<notin> {CHR '' '', CHR ''.''}"
  using trim_end_last by (auto simp: cleanEndingSpaceOrDot_comps)

section \<open>Containment\<close>

lemma contained_sep: "HTS_IS_PATH_SEP x \<Longrightarrow> hts_path_is_contained (x # s) = hts_path_is_contained s"
proof (cases s)
  case Nil
  assume "HTS_IS_PATH_SEP x"
  then show ?thesis unfolding Nil by (simp add: hts_path_is_contained.simps[of "[x]"] hts_path_is_contained.simps[of "[]"])
next
  case (Cons y t)
  assume "HTS_IS_PATH_SEP x"
  then show ?thesis by (simp add: Cons hts_path_is_contained.simps[of "x # y # t"] hts_path_is_contained.simps[of "y # t"])
qed

lemma contained_comp:
  assumes "c \<noteq> []" "SLASH \<notin> set c" "BACKSLASH \<notin> set c" "cstr_ok c" "t = [] \<or> hd t = SLASH"
  shows "hts_path_is_contained (c @ t) \<longleftrightarrow> c \<noteq> ''..'' \<and> hts_path_is_contained t"
proof -
  have no: "\<not> HTS_IS_PATH_SEP x" if "x \<in> set c" for x using assms(2,3) that by (auto simp: HTS_IS_PATH_SEP_def)
  then have d: "dropWhile HTS_IS_PATH_SEP (c @ t) = c @ t" using assms(1) by (cases c) auto
  have e: "dropWhile (\<lambda>x. \<not> HTS_IS_PATH_SEP x) (c @ t) = t"
    using no assms(5) by (cases t) (auto simp: dropWhile_append HTS_IS_PATH_SEP_def)
  have "cbyte (c @ t) 0 = CHR ''.'' \<and> cbyte (c @ t) 1 = CHR ''.'' \<and> (cbyte (c @ t) 2 = NUL \<or> HTS_IS_PATH_SEP (cbyte (c @ t) 2))
    \<longleftrightarrow> c = ''..''"
  proof (cases c)
    case (Cons x xs)
    show ?thesis
    proof (cases xs)
      case Nil
      then show ?thesis using Cons assms(5) by (cases t) auto
    next
      case (Cons y ys)
      then show ?thesis using \<open>c = x # xs\<close> assms(4,5) no by (cases ys; cases t) (auto simp: HTS_IS_PATH_SEP_def)
    qed
  qed (use assms(1) in simp)
  then show ?thesis using assms(1) by (subst hts_path_is_contained.simps) (simp add: Let_def d e)
qed

lemma contained_comps:
  assumes "BACKSLASH \<notin> set s" "cstr_ok s"
  shows "hts_path_is_contained s \<longleftrightarrow> ''..'' \<notin> set (comps s)"
proof (rule comps_parts[of s])
  fix ss f
  assume s: "s = close_segs SLASH ss @ f" "\<forall>c \<in> set ss. SLASH \<notin> set c" "SLASH \<notin> set f" "comps s = ss @ [f]"
  have nil: "hts_path_is_contained []" by (simp add: hts_path_is_contained.simps)
  have "hts_path_is_contained (close_segs SLASH ss @ f) \<longleftrightarrow> ''..'' \<notin> set (ss @ [f])"
    using s(1,2) assms s(3) unfolding s(1)
  proof (induction ss)
    case Nil
    then show ?case using contained_comp[of f "[]"] nil by (cases "f = []") auto
  next
    case (Cons c ss)
    have "hts_path_is_contained (SLASH # close_segs SLASH ss @ f) = hts_path_is_contained (close_segs SLASH ss @ f)"
      by (rule contained_sep) (simp add: HTS_IS_PATH_SEP_def)
    moreover have "hts_path_is_contained (close_segs SLASH ss @ f) = (''..'' \<notin> set (ss @ [f]))"
      using Cons.IH Cons.prems by auto
    ultimately show ?case
      using Cons.prems contained_comp[of c "SLASH # close_segs SLASH ss @ f"] by (cases "c = []") auto
  qed
  then show ?thesis using s by simp
qed

section \<open>The scan for a word\<close>

text \<open>Equal letter case apart.\<close>

abbreviation same_name :: "cstring \<Rightarrow> cstring \<Rightarrow> bool" where "same_name \<equiv> list_all2 streql"

lemma strfield_here: "same_name w pat \<Longrightarrow> pat \<noteq> [] \<Longrightarrow> strfield (w @ y) pat \<noteq> 0"
  using list_all2_lengthD[of streql w pat] unfolding strfield_pos_iff by simp

text \<open>Where the first occurrence is, and that there is none before it.\<close>

lemma strstrcase_first:
  "strstrcase s pat = Some t \<Longrightarrow> pat \<noteq> [] \<Longrightarrow>
     \<exists>a0 w y. s = a0 @ t \<and> t = w @ y \<and> same_name w pat \<and> w = take (length pat) t \<and>
       (\<forall>u w' y'. s = u @ w' @ y' \<longrightarrow> same_name w' pat \<longrightarrow> length a0 \<le> length u)"
proof (induction s pat rule: strstrcase.induct)
  case (2 c s pat)
  show ?case
  proof (cases "strfield (c # s) pat = 0")
    case True
    have st: "strstrcase s pat = Some t" using 2(2) True by simp
    obtain a0 w y where IH: "s = a0 @ t" "t = w @ y" "same_name w pat" "w = take (length pat) t"
      "\<forall>u w' y'. s = u @ w' @ y' \<longrightarrow> same_name w' pat \<longrightarrow> length a0 \<le> length u"
      using 2(1)[OF True st 2(3)] by (elim exE conjE) (rule that)
    have low: "length (c # a0) \<le> length u" if u: "c # s = u @ w' @ y'" "same_name w' pat" for u w' y'
    proof (cases u)
      case Nil
      then have "strfield (c # s) pat \<noteq> 0" using u 2(3) strfield_here[of w' pat y'] by simp
      then show ?thesis using True by simp
    next
      case (Cons x u')
      then show ?thesis using u IH(5) by auto
    qed
    show ?thesis
    proof (intro exI conjI)
      show "c # s = (c # a0) @ t" using IH(1) by simp
      show "\<forall>u w' y'. c # s = u @ w' @ y' \<longrightarrow> same_name w' pat \<longrightarrow> length (c # a0) \<le> length u" using low by blast
    qed (fact IH)+
  next
    case False
    then have t: "t = c # s" using 2 by simp
    have "same_name (take (length pat) t) pat" using False unfolding t strfield_pos_iff by blast
    then show ?thesis unfolding t[symmetric]
      by (intro exI[of _ "[]"] exI[of _ "take (length pat) t"] exI[of _ "drop (length pat) t"]) simp
  qed
qed simp

lemma strstrcase_none: "strstrcase s pat = None \<Longrightarrow> s = u @ w @ y \<Longrightarrow> same_name w pat \<Longrightarrow> pat \<noteq> [] \<Longrightarrow> False"
proof (induction s pat arbitrary: u rule: strstrcase.induct)
  case (1 pat)
  then show ?case by (auto dest: list_all2_lengthD)
next
  case (2 c s pat)
  show ?case
  proof (cases u)
    case Nil
    have "strfield (c # s) pat = 0" using 2(2) by (simp split: if_splits)
    then show ?thesis using Nil 2(3) strfield_here[OF 2(4,5), of y] by simp
  next
    case (Cons x u')
    then show ?thesis using 2 by (auto split: if_splits)
  qed
qed

text \<open>The scan as an induction: it ends, passes an occurrence, or inserts after it.\<close>

lemma escape_name_induct [consumes 1, case_names last skip ins]:
  assumes "escape_name name passed a = Some r"
    and "\<And>passed a. length name < 2 \<or> strstrcase a name = None \<Longrightarrow> P passed a (passed @ a)"
    and "\<And>passed a0 w y r. same_name w name \<Longrightarrow> 2 \<le> length name \<Longrightarrow>
      \<forall>u w' y'. a0 @ w @ y = u @ w' @ y' \<longrightarrow> same_name w' name \<longrightarrow> length a0 \<le> length u \<Longrightarrow>
      \<not> name_reserved (passed @ a0) y \<Longrightarrow> P (passed @ a0 @ w) y r \<Longrightarrow> P passed (a0 @ w @ y) r"
    and "\<And>passed a0 w y r. same_name w name \<Longrightarrow> 2 \<le> length name \<Longrightarrow>
      \<forall>u w' y'. a0 @ w @ y = u @ w' @ y' \<longrightarrow> same_name w' name \<longrightarrow> length a0 \<le> length u \<Longrightarrow>
      name_reserved (passed @ a0) y \<Longrightarrow> length (passed @ a0 @ w @ y) + 1 < SAVE_SIZE \<Longrightarrow>
      P (passed @ a0 @ w) (CHR ''_'' # y) r \<Longrightarrow> P passed (a0 @ w @ y) r"
  shows "P passed a r"
  using assms
proof (induction name passed a arbitrary: r rule: escape_name.induct)
  case (1 name passed a)
  show ?case
  proof (cases "length name < 2 \<or> strstrcase a name = None")
    case True
    then show ?thesis using 1(3) 1(4)[of a passed] by (subst (asm) escape_name.simps) (auto split: if_splits)
  next
    case False
    then obtain t where t: "strstrcase a name = Some t" "\<not> length name < 2" by auto
    then have "name \<noteq> []" by auto
    then obtain a0 w y where f: "a = a0 @ t" "t = w @ y" "same_name w name" "w = take (length name) t"
      "\<forall>u w' y'. a = u @ w' @ y' \<longrightarrow> same_name w' name \<longrightarrow> length a0 \<le> length u"
      using strstrcase_first[OF t(1) \<open>name \<noteq> []\<close>] by (elim exE conjE) (rule that)
    have p: "passed @ take (length a - length t) a = passed @ a0" "take (length name) t = w" "drop (length name) t = y"
      using list_all2_lengthD[OF f(3)] by (simp_all add: f(1,2))
    note unf = 1(3)[unfolded escape_name.simps[of name passed a] t(1) option.case Let_def p]
    note low = f(5)[unfolded f(1) f(2)]
    show ?thesis
    proof (cases "name_reserved (passed @ a0) y")
      case True
      then obtain tempo where tempo: "strcatbuff SAVE_SIZE ((passed @ a0) @ w) (''_'' @ y) = Some tempo"
        "escape_name name ((passed @ a0) @ w) (drop (length ((passed @ a0) @ w)) (strclipbuff SAVE_SIZE tempo)) = Some r"
        using unf t(2) by (auto simp: bind_eq_Some_conv)
      have te: "tempo = (passed @ a0 @ w) @ ''_'' @ y" "length tempo < SAVE_SIZE"
        using tempo(1) by (auto simp: strcatbuff_def split: if_splits)
      then have d: "drop (length ((passed @ a0) @ w)) (strclipbuff SAVE_SIZE tempo) = CHR ''_'' # y" by (simp add: strclipbuff_def)
      have "P ((passed @ a0) @ w) (drop (length ((passed @ a0) @ w)) (strclipbuff SAVE_SIZE tempo)) r"
        by (rule 1(1)[OF t(2) t(1) refl refl refl, unfolded p, OF True tempo])
          ((rule 1(4); assumption), (rule 1(5); assumption), (rule 1(6); assumption))
      then have p2: "P (passed @ a0 @ w) (CHR ''_'' # y) r" unfolding d by (simp only: append_assoc)
      have "length (passed @ a0 @ w @ y) + 1 < SAVE_SIZE" using te by simp
      then show ?thesis using 1(6)[OF f(3) _ low True _ p2] t(2) unfolding f(1,2) by simp
    next
      case False
      then have e: "escape_name name ((passed @ a0) @ w) y = Some r" using unf t(2) by simp
      have "P ((passed @ a0) @ w) y r"
        by (rule 1(2)[OF t(2) t(1) refl refl refl, unfolded p, OF False e])
          ((rule 1(4); assumption), (rule 1(5); assumption), (rule 1(6); assumption))
      then have "P (passed @ a0 @ w) y r" unfolding append_assoc .
      then show ?thesis using 1(5)[OF f(3) _ low False] t(2) unfolding f(1,2) by simp
    qed
  qed
qed

section \<open>Characters\<close>

text \<open>The characters that a sanitized name may hold, in every mode.\<close>

definition name_char :: "char \<Rightarrow> bool" where
  "name_char c \<longleftrightarrow> \<not> forbidden_char HTS_SAVENAME_83_LONG c"

lemma name_char_plain: "name_char c \<Longrightarrow> c \<noteq> NUL \<and> c \<noteq> BACKSLASH \<and> c \<noteq> CHR ''?'' \<and> c \<noteq> CHR '':''"
  by (intro conjI notI) (simp_all add: name_char_def forbidden_char_def)

lemma name_char_lit [simp]: "name_char CHR ''_''" "name_char CHR ''.''" "name_char SLASH"
  by (simp_all add: name_char_def forbidden_char_def)

lemma name_chars_ok: "list_all name_char s \<Longrightarrow> cstr_ok s \<and> BACKSLASH \<notin> set s \<and> CHR ''?'' \<notin> set s \<and> CHR '':'' \<notin> set s"
  using name_char_plain by (fastforce simp: list_all_iff cstr_ok_def)

lemma name_char_ok83: "ok83 c \<Longrightarrow> name_char c"
proof (rule ccontr)
  assume ok: "ok83 c" and "\<not> name_char c"
  then consider "ord c < 32" | "ord c = 127" | "c \<in> {CHR ''~'', BACKSLASH, CHR '':'', CHR ''*'', CHR ''?'', DQUOTE, CHR ''<'', CHR ''>'', CHR ''|''}"
    by (auto simp: name_char_def forbidden_char_def)
  then show False
  proof cases
    case 3
    then show False using ok by (elim insertE emptyE) (simp_all add: ok83_def isdigit_def)
  qed (use ok in \<open>auto simp: ok83_def isdigit_def\<close>)
qed

lemma clean_chars_ok: "list_all name_char (clean_chars m s)"
  by (auto simp: clean_chars_def list_all_iff name_char_def forbidden_char_def)

lemma double_slash_loop_set: "set (double_slash_loop p s) \<subseteq> set s"
  by (induction p s rule: double_slash_loop.induct) auto

lemma ending_loop_set: "set (ending_loop w e s) \<subseteq> set w \<union> set s"
proof (induction w e s rule: ending_loop.induct)
  case (2 w e c s)
  have "set (take e w) \<subseteq> set w" by (rule set_take_subset)
  then show ?case using 2[OF refl refl] unfolding ending_loop.simps Let_def by (cases "c = SLASH") (simp_all, blast+)
qed (use set_take_subset in fastforce)

lemma escape_name_set: "escape_name name passed a = Some r \<Longrightarrow> set r \<subseteq> set passed \<union> set a \<union> {CHR ''_''}"
  by (induction rule: escape_name_induct) auto

lemma escape_names_set: "escapeReservedNames s names = Some r \<Longrightarrow> set r \<subseteq> set s \<union> {CHR ''_''}"
proof (induction names arbitrary: s)
  case (Cons name names)
  then obtain s1 where s1: "escape_name name [] s = Some s1" "escapeReservedNames s1 names = Some r"
    by (auto simp: bind_eq_Some_conv)
  then show ?case using Cons.IH[OF s1(2)] escape_name_set[OF s1(1)] by auto
qed auto

lemma fil_simplifie_set: "set (fil_simplifie s) \<subseteq> set s \<union> {CHR ''.'', SLASH}"
  using simplify_loop_bounds[of "cbyte s 0 = SLASH" False SLASH "[]" "[]" s "fil_simplifie s"] fil_simplifie_cases[of s] by auto


lemma ok83_upper: "upper83 a \<noteq> a \<Longrightarrow> ok83 (upper83 a)"
  by (auto simp: upper83_def ok83_def split: if_splits)

lemma chars83_set: "set (chars83 w s) \<subseteq> set w \<union> {c. ok83 c}"
proof (induction w s rule: chars83.induct)
  case (2 w a s)
  have "ok83 CHR ''_''" by (simp add: ok83_def)
  then show ?case using 2 ok83_upper[of a] by (auto split: if_splits)
qed simp

lemma longfile_set: "set (longfile_to_83 m s) \<subseteq> {c. ok83 c}"
proof -
  have "ok83 CHR ''.''" by (simp add: ok83_def)
  moreover have "x \<in> set (chars83 [] (dots83 s)) \<Longrightarrow> ok83 x" for x using chars83_set[of "[]" "dots83 s"] by auto
  ultimately show ?thesis
    by (auto simp: longfile_to_83_def Let_def dest!: in_set_takeD set_takeWhileD split: if_splits)
qed

lemma long_to_83_loop_set: "long_to_83_loop m n w s = Some r \<Longrightarrow> set r \<subseteq> set w \<union> {c. ok83 c} \<union> {SLASH}"
proof (induction m n w s arbitrary: r rule: long_to_83_loop.induct)
  case (1 m n w s)
  show ?case
  proof (cases "s = []")
    case False
    note unf = 1(2)[unfolded long_to_83_loop.simps[of m n w s] Let_def]
    show ?thesis
      using unf False 1(1)[OF False refl refl refl] longfile_set[of m "take (N83_BUF - 1) (takeWhile (\<lambda>c. c \<noteq> SLASH) s)"]
      by (auto split: if_splits)
  qed (use 1(2) in \<open>auto simp: long_to_83_loop.simps\<close>)
qed

lemma long_to_83_ok: "long_to_83 m n s = Some r \<Longrightarrow> list_all name_char r"
  using long_to_83_loop_set[of m n "[]" s r] name_char_ok83 by (auto simp: long_to_83_def list_all_iff)

lemma iso_char_ok: "name_char c \<Longrightarrow> name_char (iso_char l i c)"
proof -
  have "97 \<le> ord c \<Longrightarrow> ord c \<le> 122 \<Longrightarrow> name_char (chr (ord c - 32))"
    by (rule name_char_ok83) (auto simp: ok83_def)
  moreover assume "name_char c"
  ultimately show ?thesis by (simp add: iso_char_def)
qed

lemma iso_strict_ok: "list_all name_char s \<Longrightarrow> list_all name_char (iso_strict s)"
  by (auto simp: iso_strict_def Let_def list_all_iff iso_char_ok)

text \<open>The stages of the sanitizer.\<close>

lemma save_sanitize_stages:
  assumes "save_sanitize m s = Some r"
  obtains s1 s2 s3 s4 where
    "escapeReservedNames (cleanDoubleSlash (clean_chars m (if cbyte s 0 = SLASH then tl s else s))) hts_tbreserved = Some s1"
    "escapeReservedNames s1 hts_tbdev = Some s2"
    "s3 = cleanDoubleSlash (cleanEndingSpaceOrDot s2)"
    "m = HTS_SAVENAME_83_LONG \<longrightarrow> s4 = s3" "list_all name_char s3" "list_all name_char s4"
    "r = stripLeadingSlashes (fil_simplifie s4)"
proof -
  define s0 where "s0 = cleanDoubleSlash (clean_chars m (if cbyte s 0 = SLASH then tl s else s))"
  obtain s1 s2 where e: "escapeReservedNames s0 hts_tbreserved = Some s1" "escapeReservedNames s1 hts_tbdev = Some s2"
    using assms by (auto simp: save_sanitize_def s0_def Let_def bind_eq_Some_conv)
  define s3 where "s3 = cleanDoubleSlash (cleanEndingSpaceOrDot s2)"
  obtain n83 where n: "(if m \<noteq> HTS_SAVENAME_83_LONG
             then do { n83 \<leftarrow> long_to_83 m SAVE_SIZE s3; strcpybuff SAVE_SIZE n83 } else Some s3) = Some n83"
    and r: "r = stripLeadingSlashes (fil_simplifie (if m > 0 then iso_strict n83 else n83))"
    using assms unfolding save_sanitize_def Let_def s0_def[symmetric] e bind.bind_lunit s3_def[symmetric]
    by (auto simp: bind_eq_Some_conv)
  have "list_all name_char s0"
    using clean_chars_ok double_slash_loop_set by (fastforce simp: s0_def cleanDoubleSlash_def list_all_iff)
  then have "list_all name_char s2" using escape_names_set[OF e(1)] escape_names_set[OF e(2)] by (fastforce simp: list_all_iff)
  then have s3: "list_all name_char s3"
    using double_slash_loop_set ending_loop_set[of "[]" 0 s2]
    by (fastforce simp: s3_def cleanDoubleSlash_def cleanEndingSpaceOrDot_def list_all_iff)
  have "list_all name_char n83" using n s3 long_to_83_ok
    by (auto simp: strcpybuff_def bind_eq_Some_conv split: if_splits)
  then have "list_all name_char (if m > 0 then iso_strict n83 else n83)" by (simp add: iso_strict_ok)
  moreover have "m = HTS_SAVENAME_83_LONG \<longrightarrow> (if m > 0 then iso_strict n83 else n83) = s3" using n by (auto split: if_splits)
  ultimately show thesis using that[OF e[unfolded s0_def] s3_def _ s3 _ r] by blast
qed

lemma save_sanitize_chars:
  assumes "save_sanitize m s = Some r"
  shows "list_all name_char r"
  using assms
proof (rule save_sanitize_stages)
  fix s4 assume "list_all name_char s4" "r = stripLeadingSlashes (fil_simplifie s4)"
  then show ?thesis using fil_simplifie_set[of s4]
    by (fastforce simp: stripLeadingSlashes_def list_all_iff dest: set_dropWhileD)
qed

section \<open>The name never leaves the mirror\<close>

lemma strip_comps: "set (comps (stripLeadingSlashes s)) \<subseteq> set (comps s)"
  by (induction s) (auto simp: stripLeadingSlashes_def)

lemma strip_head: "cbyte (stripLeadingSlashes s) 0 \<noteq> SLASH"
proof (cases "dropWhile (\<lambda>c. c = SLASH) s")
  case (Cons x xs)
  then have "x \<noteq> SLASH" using hd_dropWhile[of "\<lambda>c. c = SLASH" s] by simp
  then show ?thesis by (simp add: stripLeadingSlashes_def Cons)
next
  case Nil
  then show ?thesis unfolding stripLeadingSlashes_def Nil by simp
qed

lemma fil_simplifie_no_dotdot:
  assumes "list_all name_char s"
  shows "''..'' \<notin> set (comps (fil_simplifie s))"
proof -
  have ok: "cstr_ok s" "CHR ''?'' \<notin> set s" using name_chars_ok[OF assms] by auto
  have "CHR ''?'' \<notin> set (fil_simplifie s)" using fil_simplifie_set[of s] ok(2) by auto
  then have "takeWhile (\<lambda>c. c \<noteq> CHR ''?'') (fil_simplifie s) = fil_simplifie s" "CHR ''?'' \<notin> set (fil_simplifie s)"
    by (auto simp: takeWhile_eq_all_conv)
  with fil_simplifie_dots[OF ok(1)] have "''..'' \<notin> set (butlast (comps (fil_simplifie s)))" "last (comps (fil_simplifie s)) \<noteq> ''..''"
    by (simp_all add: Let_def)
  then show ?thesis using append_butlast_last_id[of "comps (fil_simplifie s)"]
    by (metis Un_iff comps_nonempty empty_iff insert_iff list.set(1,2) set_append)
qed

lemma relative_contained:
  assumes "list_all name_char s" "cbyte s 0 \<noteq> SLASH" "''..'' \<notin> set (comps s)"
  shows "hts_path_is_relative_contained s"
proof -
  note ok = name_chars_ok[OF assms(1)]
  have in_set: "cbyte s i \<noteq> NUL \<Longrightarrow> cbyte s i \<in> set s" for i by (simp add: cbyte_def split: if_splits)
  have "cbyte s i \<noteq> BACKSLASH" "cbyte s i \<noteq> CHR '':''" for i using ok in_set[of i] by (intro notI; simp)+
  then show ?thesis using ok assms(2,3) contained_comps[of s] by (simp add: hts_path_is_relative_contained_def HTS_IS_PATH_SEP_def)
qed

lemma save_sanitize_contained:
  assumes "save_sanitize m s = Some r"
  shows "hts_path_is_relative_contained r"
proof (rule relative_contained)
  show "list_all name_char r" by (rule save_sanitize_chars[OF assms])
  obtain s4 where s4: "list_all name_char s4" "r = stripLeadingSlashes (fil_simplifie s4)"
    using assms by (rule save_sanitize_stages) blast
  show "cbyte r 0 \<noteq> SLASH" unfolding s4(2) by (rule strip_head)
  show "''..'' \<notin> set (comps r)" using fil_simplifie_no_dotdot[OF s4(1)] strip_comps[of "fil_simplifie s4"] s4(2) by auto
qed

section \<open>Reserved names\<close>

text \<open>A word of the tables: no slash and no underscore, two characters or more.\<close>

definition table_word :: "cstring \<Rightarrow> bool" where
  "table_word name \<longleftrightarrow> 2 \<le> length name \<and> list_all (\<lambda>c. \<not> streql SLASH c \<and> \<not> streql CHR ''_'' c) name"

text \<open>No component of \<open>s\<close> starts with the word in the way that the scan escapes.\<close>

definition word_clear :: "cstring \<Rightarrow> cstring \<Rightarrow> bool" where
  "word_clear name s \<longleftrightarrow> (\<forall>u w y. s = u @ w @ y \<longrightarrow> same_name w name \<longrightarrow> (u = [] \<or> last u = SLASH) \<longrightarrow> \<not> name_reserved u y)"

lemma table_word_free:
  assumes "table_word name" "same_name w name"
  shows "SLASH \<notin> set w" "CHR ''_'' \<notin> set w" "2 \<le> length w"
proof -
  have "streql x y \<Longrightarrow> \<not> streql SLASH y \<Longrightarrow> \<not> streql CHR ''_'' y \<Longrightarrow> x \<noteq> SLASH \<and> x \<noteq> CHR ''_''" for x y by auto
  then have "list_all (\<lambda>c. c \<noteq> SLASH \<and> c \<noteq> CHR ''_'') w"
    using assms unfolding table_word_def by (auto simp: list_all2_conv_all_nth list_all_length)
  then show "SLASH \<notin> set w" "CHR ''_'' \<notin> set w" by (auto simp: list_all_iff)
  show "2 \<le> length w" using assms by (simp add: table_word_def list_all2_lengthD)
qed

lemma tables_words: "list_all table_word (hts_tbreserved @ hts_tbdev)"
  by code_simp

text \<open>What follows a slash does not count.\<close>

lemma stripped_slash: "SLASH \<in> set z \<Longrightarrow> strippedToComponentEnd (z @ x) = strippedToComponentEnd (z @ y)"
  by (induction z) (auto simp: strippedToComponentEnd_def Let_def)

lemma name_reserved_slash: "SLASH \<in> set z \<Longrightarrow> name_reserved u (z @ x) = name_reserved u (z @ y)"
  using stripped_slash[of z x y] by (cases z) (auto simp: name_reserved_def)

lemma name_reserved_underscore: "\<not> name_reserved u (CHR ''_'' # y)"
  by (simp add: name_reserved_def strippedToComponentEnd_def)

text \<open>An occurrence that holds no underscore is before or after the one inserted.\<close>

lemma underscore_splits:
  assumes eq: "v @ CHR ''_'' # x = u @ w @ y" and free: "CHR ''_'' \<notin> set w"
  shows "(\<exists>z. v = u @ w @ z \<and> y = z @ CHR ''_'' # x) \<or> (\<exists>u'. u = v @ CHR ''_'' # u' \<and> x = u' @ w @ y)"
proof (cases "\<exists>z. v = (u @ w) @ z \<and> y = z @ CHR ''_'' # x")
  case False
  moreover have "(u @ w) @ y = v @ CHR ''_'' # x" using eq by simp
  ultimately obtain us where us: "u @ w = v @ us" "us @ y = CHR ''_'' # x"
    unfolding append_eq_append_conv2 by metis
  then obtain us' where us': "us = CHR ''_'' # us'" "x = us' @ y" using False by (cases us) auto
  then have "u @ w = v @ CHR ''_'' # us'" using us by simp
  then obtain us2 where "u = v @ us2" "us2 @ w = CHR ''_'' # us'" using free unfolding append_eq_append_conv2 by auto
  then show ?thesis using free us'(2) by (cases us2) auto
qed auto

lemma beyond_split: "p @ a = u @ x \<Longrightarrow> length p \<le> length u \<Longrightarrow> \<exists>u'. u = p @ u' \<and> a = u' @ x"
  by (auto simp: append_eq_append_conv2)

lemma char_before: "v @ c # x = u @ m \<Longrightarrow> c \<notin> set m \<Longrightarrow> length v < length u"
  by (auto simp: append_eq_append_conv2 Cons_eq_append_conv)

text \<open>A component does not start inside a word.\<close>

lemma start_outside:
  assumes "p @ w @ x = u @ z" "SLASH \<notin> set w" "u = [] \<or> last u = SLASH" "length u < length (p @ w)" "length p \<le> length u"
  shows "u = p"
proof -
  obtain u' where u: "u = p @ u'" "w @ x = u' @ z" using beyond_split[OF assms(1,5)] by blast
  then have "prefix u' w" using assms(4) by (auto simp: append_eq_append_conv2 prefix_def)
  then have "set u' \<subseteq> set w" by (rule set_mono_prefix)
  then have "u' \<noteq> [] \<Longrightarrow> last u' \<noteq> SLASH" using assms(2) last_in_set[of u'] by (metis subsetD)
  then have "u' = []" using assms(3) u(1) by (cases "u' = []") auto
  then show ?thesis using u by simp
qed

text \<open>
  One insertion: the text before it ends with a whole word at the start of a component.  What was clear
  stays clear for every word of the tables, and the place itself is clear for the word inserted after.
\<close>

lemma insert_clear:
  assumes "table_word name" "word_clear name (v @ x)" "cstr_ok v"
  shows "word_clear name (v @ CHR ''_'' # x)"
  unfolding word_clear_def
proof (intro allI impI notI)
  fix u w y
  assume eq: "v @ CHR ''_'' # x = u @ w @ y" and w: "same_name w name" and start: "u = [] \<or> last u = SLASH"
    and res: "name_reserved u y"
  note free = table_word_free[OF assms(1) w]
  have "w \<noteq> []" using free(3) by auto
  note splits = underscore_splits[OF eq free(2)]
  consider z where "v = u @ w @ z" "y = z @ CHR ''_'' # x" | u' where "u = v @ CHR ''_'' # u'" "x = u' @ w @ y"
    using splits by metis
  then show False
  proof cases
    case 1
    show False
    proof (cases "SLASH \<in> set z")
      case True
      then have "name_reserved u (z @ x)" using res name_reserved_slash 1(2) by metis
      then show False using assms(2) w start 1(1) unfolding word_clear_def by (metis append.assoc)
    next
      case False
      have "\<not> strippedToComponentEnd (z @ CHR ''_'' # x)"
        using False assms(3) unfolding 1(1) by (induction z) (auto simp: strippedToComponentEnd_def Let_def)
      then have "u \<noteq> []" "last u = SLASH" "z \<noteq> []" "hd z = CHR ''.''"
        using res False unfolding 1(2) name_reserved_def using assms(3) 1(1) by (cases z; auto split: if_splits)+
      then have "name_reserved u (z @ x)" by (cases z) (auto simp: name_reserved_def)
      then show False using assms(2) w start 1(1) unfolding word_clear_def by (metis append.assoc)
    qed
  next
    case 2
    then have "u' \<noteq> [] \<and> last u' = SLASH" using start by (cases u') auto
    then have "name_reserved (v @ u') y" using res 2(1) by (auto simp: name_reserved_def)
    moreover have "v @ x = (v @ u') @ w @ y" using 2(2) by simp
    ultimately show False using assms(2) w \<open>u' \<noteq> [] \<and> last u' = SLASH\<close> unfolding word_clear_def by auto
  qed
qed

text \<open>A word at the start of a component that the scan does not pass over is clear.\<close>

lemma escape_name_clear:
  assumes "escape_name name passed a = Some r" "table_word name"
    and "\<forall>u w y. passed @ a = u @ w @ y \<longrightarrow> same_name w name \<longrightarrow> (u = [] \<or> last u = SLASH) \<longrightarrow> length u < length passed \<longrightarrow>
       \<not> name_reserved u y"
  shows "word_clear name r"
  using assms
proof (induction rule: escape_name_induct)
  case (last passed a)
  have none: "strstrcase a name = None" "name \<noteq> []" using last(1,2) by (auto simp: table_word_def)
  show ?case unfolding word_clear_def
  proof (intro allI impI)
    fix u w y assume u: "passed @ a = u @ w @ y" "same_name w name" "u = [] \<or> last u = SLASH"
    have "length u < length passed"
    proof (rule ccontr)
      assume "\<not> length u < length passed"
      then obtain u' where "a = u' @ w @ y" using beyond_split[OF u(1)] by auto
      then show False using strstrcase_none[OF none(1) _ u(2) none(2)] by blast
    qed
    then show "\<not> name_reserved u y" using last(3) u by blast
  qed
next
  case (skip passed a0 w y r)
  note free = table_word_free[OF skip(6,1)]
  show ?case
  proof (rule skip(5)[OF skip(6)], intro allI impI)
    fix u w' y' assume u: "(passed @ a0 @ w) @ y = u @ w' @ y'" "same_name w' name" "u = [] \<or> last u = SLASH"
      "length u < length (passed @ a0 @ w)"
    show "\<not> name_reserved u y'"
    proof (cases "length u < length passed")
      case True
      moreover have "passed @ a0 @ w @ y = u @ w' @ y'" using u(1) by simp
      ultimately show ?thesis using skip(7) u(2,3) by blast
    next
      case False
      then obtain u' where u': "u = passed @ u'" "a0 @ w @ y = u' @ w' @ y'" using beyond_split[of passed "a0 @ w @ y" u] u(1) by auto
      then have "length (passed @ a0) \<le> length u" using skip(3) u(2) by auto
      then have "u = passed @ a0" using start_outside[of "passed @ a0" w y u "w' @ y'"] u free(1) by simp
      then show ?thesis using skip(4) u(1) list_all2_lengthD[OF skip(1)] list_all2_lengthD[OF u(2)] by auto
    qed
  qed
next
  case (ins passed a0 w y r)
  note free = table_word_free[OF ins(7,1)]
  show ?case
  proof (rule ins(6)[OF ins(7)], intro allI impI)
    fix u w' y' assume u: "(passed @ a0 @ w) @ CHR ''_'' # y = u @ w' @ y'" "same_name w' name" "u = [] \<or> last u = SLASH"
      "length u < length (passed @ a0 @ w)"
    note free' = table_word_free[OF ins(7) u(2)]
    obtain z where z: "passed @ a0 @ w = u @ w' @ z" "y' = z @ CHR ''_'' # y"
      using underscore_splits[OF u(1) free'(2)] u(4) by auto
    show "\<not> name_reserved u y'"
    proof (cases "length u < length passed")
      case True
      then have "passed @ a0 \<noteq> []" by auto
      then have "last (passed @ a0) = SLASH" using ins(4) by (auto simp: name_reserved_def split: if_splits)
      then have "passed @ a0 = butlast (passed @ a0) @ [SLASH]" using \<open>passed @ a0 \<noteq> []\<close> by (metis append_butlast_last_id)
      then have "butlast (passed @ a0) @ SLASH # w = u @ w' @ z" using z(1) by (metis append.assoc append_Cons append_Nil)
      then have "SLASH \<notin> set (w' @ z) \<Longrightarrow> length (passed @ a0) - 1 < length u"
        using char_before[of "butlast (passed @ a0)" SLASH w u "w' @ z"] by simp
      then have "SLASH \<in> set (w' @ z)" using True unfolding length_append by linarith
      then have "SLASH \<in> set z" using free'(1) by auto
      moreover have "\<not> name_reserved u (z @ y)"
      proof -
        have "passed @ a0 @ w @ y = u @ w' @ z @ y" using z(1) by (metis append.assoc)
        then show ?thesis using ins(8) u(2,3) True by blast
      qed
      ultimately show ?thesis unfolding z(2) using name_reserved_slash by blast
    next
      case False
      then obtain u' where u': "u = passed @ u'" "a0 @ w = u' @ w' @ z" using beyond_split[of passed "a0 @ w" u] z(1) by auto
      then have "a0 @ w @ y = u' @ w' @ z @ y" by (metis append.assoc)
      then have "length a0 \<le> length u'" using ins(3) u(2) by blast
      then have "length (passed @ a0) \<le> length u" using u'(1) by simp
      then have "u = passed @ a0" using start_outside[of "passed @ a0" w "CHR ''_'' # y" u "w' @ y'"] u free(1) by simp
      then have "z = []" using z(1) list_all2_lengthD[OF ins(1)] list_all2_lengthD[OF u(2)] by auto
      then show ?thesis using z(2) name_reserved_underscore by simp
    qed
  qed
qed

text \<open>The other words keep clear.\<close>

lemma escape_name_keeps:
  "escape_name name passed a = Some r \<Longrightarrow> table_word name' \<Longrightarrow> cstr_ok (passed @ a) \<Longrightarrow> word_clear name' (passed @ a) \<Longrightarrow> word_clear name' r"
proof (induction rule: escape_name_induct)
  case (ins passed a0 w y r)
  then show ?case using insert_clear[of name' "passed @ a0 @ w" y] by simp
qed simp_all

section \<open>The scan has room\<close>

text \<open>
  The starts of components still ahead bound the insertions: the scan returns, and the text grows by one
  at each of them at most.
\<close>

definition starts_ahead :: "cstring \<Rightarrow> cstring \<Rightarrow> nat" where
  "starts_ahead passed a = count_list a SLASH + (if passed = [] then 1 else 0)"

lemma count_list_none: "c \<notin> set s \<Longrightarrow> count_list s c = 0"
  by (induction s) auto

lemma escape_name_room:
  assumes "table_word name"
  shows "passed = [] \<or> last passed \<noteq> SLASH \<Longrightarrow> length (passed @ a) + starts_ahead passed a < SAVE_SIZE \<Longrightarrow>
    \<exists>r. escape_name name passed a = Some r \<and> length r \<le> length (passed @ a) + starts_ahead passed a \<and>
        count_list r SLASH = count_list (passed @ a) SLASH"
  using assms
proof (induction name passed a rule: escape_name.induct)
  case (1 name passed a)
  show ?case
  proof (cases "strstrcase a name")
    case None
    then show ?thesis by (subst escape_name.simps) simp
  next
    case (Some t)
    have n: "\<not> length name < 2" "name \<noteq> []" using 1(5) by (auto simp: table_word_def)
    obtain a0 w y where f: "a = a0 @ t" "t = w @ y" "same_name w name" "w = take (length name) t"
      using strstrcase_first[OF Some n(2)] by blast
    have p: "passed @ take (length a - length t) a = passed @ a0" "take (length name) t = w" "drop (length name) t = y"
      using list_all2_lengthD[OF f(3)] by (simp_all add: f(1,2))
    note free = table_word_free[OF 1(5) f(3)]
    have wn: "w \<noteq> []" using free(3) by auto
    then have w: "w \<noteq> []" "last ((passed @ a0) @ w) \<noteq> SLASH" using free(1) by (metis last_append last_in_set)+
    note unf = escape_name.simps[of name passed a, unfolded Some option.case Let_def p]
    show ?thesis
    proof (cases "name_reserved (passed @ a0) y")
      case True
      have k: "Suc (starts_ahead ((passed @ a0) @ w) (CHR ''_'' # y)) \<le> starts_ahead passed a"
      proof (cases "passed @ a0 = []")
        case False
        then have "last (passed @ a0) = SLASH" using True by (auto simp: name_reserved_def split: if_splits)
        then have "a0 \<noteq> []" "last a0 = SLASH" using 1(3) False by (cases "a0 = []"; auto)+
        then have "count_list a0 SLASH > 0" by (metis count_list_0_iff gr0I last_in_set)
        then show ?thesis using w(1) by (simp add: starts_ahead_def f(1,2))
      qed (use w(1) in \<open>simp add: starts_ahead_def f(1,2)\<close>)
      have room: "length ((passed @ a0) @ w) + length (''_'' @ y) < SAVE_SIZE" using 1(4) k by (simp add: f(1,2))
      define tempo where "tempo = ((passed @ a0) @ w) @ ''_'' @ y"
      have te: "strcatbuff SAVE_SIZE ((passed @ a0) @ w) (''_'' @ y) = Some tempo"
        using room by (simp add: strcatbuff_def tempo_def)
      have d: "drop (length ((passed @ a0) @ w)) (strclipbuff SAVE_SIZE tempo) = CHR ''_'' # y"
        using room by (simp add: tempo_def strclipbuff_def)
      have "\<exists>r. escape_name name ((passed @ a0) @ w) (CHR ''_'' # y) = Some r \<and>
          length r \<le> length (((passed @ a0) @ w) @ CHR ''_'' # y) + starts_ahead ((passed @ a0) @ w) (CHR ''_'' # y) \<and>
          count_list r SLASH = count_list (((passed @ a0) @ w) @ CHR ''_'' # y) SLASH" (is "\<exists>r. ?P r")
        using 1(1)[OF n(1) Some refl refl refl, unfolded p, OF True te] 1(4,5) w(2) k unfolding d by (simp add: f(1,2))
      then obtain r where "?P r" by blast
      then show ?thesis using k unfolding unf te bind.bind_lunit d by (intro exI[of _ r]) (simp add: n True f(1,2))
    next
      case False
      have k: "starts_ahead ((passed @ a0) @ w) y \<le> starts_ahead passed a" by (simp add: starts_ahead_def f(1,2))
      have "\<exists>r. escape_name name ((passed @ a0) @ w) y = Some r \<and>
          length r \<le> length (((passed @ a0) @ w) @ y) + starts_ahead ((passed @ a0) @ w) y \<and>
          count_list r SLASH = count_list (((passed @ a0) @ w) @ y) SLASH" (is "\<exists>r. ?P r")
        using 1(2)[OF n(1) Some refl refl refl, unfolded p, OF False] 1(4,5) w(2) k by (simp add: f(1,2))
      then obtain r where "?P r" by blast
      then show ?thesis using k unfolding unf by (intro exI[of _ r]) (simp add: n False f(1,2))
    qed
  qed
qed

lemma escape_names_room:
  "list_all table_word names \<Longrightarrow> length s + length names * (count_list s SLASH + 1) < SAVE_SIZE \<Longrightarrow>
   \<exists>r. escapeReservedNames s names = Some r \<and> length r \<le> length s + length names * (count_list s SLASH + 1) \<and>
       count_list r SLASH = count_list s SLASH"
proof (induction names arbitrary: s)
  case (Cons name names)
  obtain r where r: "escape_name name [] s = Some r" "length r \<le> length s + (count_list s SLASH + 1)"
    "count_list r SLASH = count_list s SLASH"
    using escape_name_room[of name "[]" s] Cons.prems by (auto simp: starts_ahead_def)
  then show ?case using Cons.IH[of r] Cons.prems by (auto simp: algebra_simps) 
qed simp

text \<open>Every word of the tables ends up clear.\<close>

lemma escape_names_clear:
  "escapeReservedNames s names = Some r \<Longrightarrow> list_all table_word names \<Longrightarrow> cstr_ok s \<Longrightarrow> name \<in> set names \<or> (table_word name \<and> word_clear name s) \<Longrightarrow>
   word_clear name r"
proof (induction names arbitrary: s)
  case (Cons n names)
  then obtain s1 where s1: "escape_name n [] s = Some s1" "escapeReservedNames s1 names = Some r"
    by (auto simp: bind_eq_Some_conv)
  have ok: "cstr_ok s1" using escape_name_set[OF s1(1)] Cons.prems(3) by (auto simp: cstr_ok_def)
  have t: "table_word n" "list_all table_word names" using Cons.prems(2) by auto
  have "name \<in> set names \<or> (table_word name \<and> word_clear name s1)"
    using Cons.prems(3,4) escape_name_clear[OF s1(1) t(1)] escape_name_keeps[OF s1(1), of name] t(1) by auto
  then show ?case by (rule Cons.IH[OF s1(2) t(2) ok])
qed auto

lemma word_clear_comps:
  assumes "word_clear name s" "c \<in> set (comps s)" "cstr_ok s"
  shows "\<not> same_name (trim_end c) name"
proof
  assume n: "same_name (trim_end c) name"
  obtain u v where s: "s = u @ c @ v" "u = [] \<or> last u = SLASH" "v = [] \<or> hd v = SLASH" using comps_split[OF assms(2)] .
  define x where "x = drop (length (trim_end c)) c"
  have x: "c = trim_end c @ x" "set x \<subseteq> {CHR '' '', CHR ''.''}"
    using trim_end_take[of c] append_take_drop_id[of "length (trim_end c)" c] trim_end_rest[of c] by (simp_all add: x_def)
  have v: "cbyte v 0 \<in> {NUL, SLASH}" using s(3) by (cases v) auto
  have "dropWhile (\<lambda>c. c = CHR '' '' \<or> c = CHR ''.'') (x @ v) = v"
    using x(2) s(3) by (induction x) (cases v; auto)+
  then have strip: "strippedToComponentEnd (x @ v)" using v by (auto simp: strippedToComponentEnd_def Let_def)
  have "name_reserved u (x @ v)"
  proof (cases "u = []")
    case False
    then show ?thesis using s(2) strip x(2) v by (cases x) (auto simp: name_reserved_def)
  qed (simp add: name_reserved_def strip)
  moreover have "s = u @ trim_end c @ x @ v" using s(1) x(1) by simp
  ultimately show False using assms(1) n s(2) unfolding word_clear_def by blast
qed

section \<open>Dot segments drop components\<close>

lemma dir_step_set: "set (dir_step ab st c) \<subseteq> set st \<union> {c}"
  by (auto simp: dir_step_def dir_pop_def dest: in_set_butlastD)

lemma dir_steps_set: "set (foldl (dir_step ab) st dirs) \<subseteq> set st \<union> set dirs"
proof (induction dirs arbitrary: st)
  case (Cons d dirs)
  then show ?case using Cons.IH[of "dir_step ab st d"] dir_step_set[of ab st d] by auto
qed simp

lemma fil_simplifie_comps:
  assumes "list_all name_char s"
  shows "set (comps (fil_simplifie s)) \<subseteq> set (comps s) \<union> {[], ''.''}"
proof -
  have ok: "cstr_ok s" "CHR ''?'' \<notin> set s" using name_chars_ok[OF assms] by auto
  have tw: "takeWhile (\<lambda>c. c \<noteq> CHR ''?'') s = s" using ok(2) by (auto simp: takeWhile_eq_all_conv)
  have segs: "path_segs s = comps s" "path_query s = []"
    unfolding path_segs_def tw path_query_def using ok(2) by (auto simp: dropWhile_eq_Nil_conv)
  define st where "st = foldl (dir_step (cbyte s 0 = SLASH)) [] (butlast (comps s))"
  have st: "set st \<subseteq> set (comps s)" using dir_steps_set[of _ "[]" "butlast (comps s)"] by (auto simp: st_def dest: in_set_butlastD)
  then have pop: "set (dir_pop b st) \<subseteq> set (comps s)" for b by (auto simp: dir_pop_def dest: in_set_butlastD)
  have lst: "last (comps s) \<in> set (comps s)" by simp
  have close: "set (comps (close_segs SLASH ds @ l)) \<subseteq> set (comps s) \<union> {[]}"
    if "set ds \<subseteq> set (comps s)" "l \<in> set (comps s) \<union> {[]}" for ds l
  proof -
    have "comps (close_segs SLASH ds @ l) = ds @ [l]"
      by (rule split_on_close) (use that comps_no_slash in auto)
    then show ?thesis using that by auto
  qed
  have reading: "set (comps (path_reading s)) \<subseteq> set (comps s) \<union> {[]}"
    unfolding path_reading_def segs stack_path_def st_def[symmetric] Let_def
    using close[OF pop, of "[]"] close[OF st, of "last (comps s)"] lst by auto
  from fil_simplifie_cases[of s] show ?thesis
  proof (elim disjE conjE)
    assume "simplify_loop (cbyte s 0 = SLASH) False SLASH [] [] s = Some (fil_simplifie s)"
    then have "fil_simplifie s = path_reading s" using path_parts(5)[OF ok(1)] by auto
    then show ?thesis using reading by auto
  qed simp_all
qed

section \<open>Properties\<close>

lemma tables_length: "length hts_tbreserved + length hts_tbdev = 30"
  by (simp add: hts_tbreserved_def hts_tbdev_def)

lemma clean_chars_count: "count_list (clean_chars m s) SLASH = count_list s SLASH"
  by (induction s) (auto simp: clean_chars_def forbidden_char_def)

lemma double_slash_loop_shrinks: "length (double_slash_loop p s) \<le> length s \<and> count_list (double_slash_loop p s) SLASH \<le> count_list s SLASH"
  by (induction p s rule: double_slash_loop.induct) auto

lemma save_sanitize_returns:
  assumes "length save + 30 * (count_list save SLASH + 1) < SAVE_SIZE"
  shows "\<exists>r. save_sanitize HTS_SAVENAME_83_LONG save = Some r"
proof -
  define c where "c = clean_chars HTS_SAVENAME_83_LONG (if cbyte save 0 = SLASH then tl save else save)"
  define s0 where "s0 = cleanDoubleSlash c"
  have "length c \<le> length save" by (simp add: c_def clean_chars_def)
  moreover have "count_list (tl save) SLASH \<le> count_list save SLASH" by (cases save) simp_all
  then have "count_list c SLASH \<le> count_list save SLASH" by (simp add: c_def clean_chars_count)
  ultimately have "length s0 \<le> length save" "count_list s0 SLASH \<le> count_list save SLASH"
    using double_slash_loop_shrinks[of NUL c] unfolding s0_def cleanDoubleSlash_def by linarith+
  then have l: "length s0 + 30 * (count_list s0 SLASH + 1) < SAVE_SIZE" using assms by simp
  have t: "list_all table_word hts_tbreserved" "list_all table_word hts_tbdev" using tables_words by simp_all
  have "length hts_tbreserved = 2" "length hts_tbdev = 28" by (simp_all add: hts_tbreserved_def hts_tbdev_def)
  note lens = this
  obtain s1 where s1: "escapeReservedNames s0 hts_tbreserved = Some s1" "length s1 \<le> length s0 + 2 * (count_list s0 SLASH + 1)"
    "count_list s1 SLASH = count_list s0 SLASH"
    using escape_names_room[OF t(1), of s0] l unfolding lens by auto
  obtain s2 where "escapeReservedNames s1 hts_tbdev = Some s2"
    using escape_names_room[OF t(2), of s1] l s1(2,3) unfolding lens by auto
  note s1(1) this
  then show ?thesis unfolding save_sanitize_def Let_def c_def[symmetric] s0_def[symmetric] by simp
qed

lemma save_sanitize_clear:
  assumes "save_sanitize HTS_SAVENAME_83_LONG s = Some r" "c \<in> set (comps r)" "name \<in> set (hts_tbreserved @ hts_tbdev)"
  shows "\<not> same_name c name"
proof -
  obtain s1 s2 s3 where st:
    "escapeReservedNames (cleanDoubleSlash (clean_chars HTS_SAVENAME_83_LONG (if cbyte s 0 = SLASH then tl s else s))) hts_tbreserved = Some s1"
    "escapeReservedNames s1 hts_tbdev = Some s2" "s3 = cleanDoubleSlash (cleanEndingSpaceOrDot s2)" "list_all name_char s3"
    "r = stripLeadingSlashes (fil_simplifie s3)"
    using assms(1) by (rule save_sanitize_stages) blast
  define s0 where "s0 = cleanDoubleSlash (clean_chars HTS_SAVENAME_83_LONG (if cbyte s 0 = SLASH then tl s else s))"
  have "list_all name_char s0" using clean_chars_ok double_slash_loop_set by (fastforce simp: s0_def cleanDoubleSlash_def list_all_iff)
  then have ok: "cstr_ok s0" using name_chars_ok by blast
  note e = st(1)[folded s0_def] st(2)
  have ok1: "cstr_ok s1" using escape_names_set[OF e(1)] ok by (auto simp: cstr_ok_def)
  have ok2: "cstr_ok s2" using escape_names_set[OF e(2)] ok1 by (auto simp: cstr_ok_def)
  have tw: "list_all table_word hts_tbreserved" "list_all table_word hts_tbdev" "table_word name"
    using tables_words assms(3) by (auto simp: list_all_iff)
  have "word_clear name s2"
    using escape_names_clear[OF e(2) tw(2) ok1, of name] escape_names_clear[OF e(1) tw(1) ok, of name] assms(3) tw(3) by auto
  then have clear: "\<not> same_name (trim_end d) name" if "d \<in> set (comps s2)" for d using word_clear_comps that ok2 by blast
  have "\<not> same_name [] name" "\<not> same_name ''.'' name" using table_word_free(3)[OF tw(3)] by force+
  moreover have "c \<in> set (comps s3) \<union> {[], ''.''}"
    using assms(2) strip_comps[of "fil_simplifie s3"] fil_simplifie_comps[OF st(4)] unfolding st(5) by blast
  moreover have "\<exists>d \<in> set (comps s2). c = trim_end d" if "c \<in> set (comps s3)"
    using that cleanDoubleSlash_subset[of "cleanEndingSpaceOrDot s2"] unfolding st(3) cleanEndingSpaceOrDot_comps by auto
  ultimately show ?thesis using clear by blast
qed

text \<open>
  C1. Whatever the crawled text a local name was made of, and in every naming mode, the name that the
  sanitizer returns is relative, has no dot-dot component and no forbidden character.  With long names
  no component is one of the engine's own directories or a device, whatever the letter case and the dots
  and spaces around; and the sanitizer does return, for every name that leaves room for an underscore
  per word and component.
\<close>

theorem save_sanitize_safe:
  "(save_sanitize m save = Some r \<longrightarrow>
      hts_path_is_relative_contained r \<and> list_all (\<lambda>c. \<not> forbidden_char HTS_SAVENAME_83_LONG c) r \<and>
      (m = HTS_SAVENAME_83_LONG \<longrightarrow>
        (\<forall>c \<in> set (split_on SLASH r). \<forall>name \<in> set (hts_tbreserved @ hts_tbdev). \<not> list_all2 streql c name))) \<and>
   (length save + 30 * (count_list save SLASH + 1) < SAVE_SIZE \<longrightarrow> save_sanitize HTS_SAVENAME_83_LONG save \<noteq> None)"
proof (intro conjI impI ballI)
  assume s: "save_sanitize m save = Some r"
  show "hts_path_is_relative_contained r" by (rule save_sanitize_contained[OF s])
  show "list_all (\<lambda>c. \<not> forbidden_char HTS_SAVENAME_83_LONG c) r"
    using save_sanitize_chars[OF s] by (simp add: name_char_def list_all_iff)
  fix c name
  assume "m = HTS_SAVENAME_83_LONG" "c \<in> set (comps r)" "name \<in> set (hts_tbreserved @ hts_tbdev)"
  then show "\<not> same_name c name" using save_sanitize_clear s by blast
next
  assume "length save + 30 * (count_list save SLASH + 1) < SAVE_SIZE"
  then show "save_sanitize HTS_SAVENAME_83_LONG save \<noteq> None" using save_sanitize_returns by auto
qed

theorem save_sanitize_safe_witness:
  "hts_path_is_relative_contained ''a/'' \<and> save_sanitize HTS_SAVENAME_83_LONG ''a/../con'' \<noteq> None"
proof -
  have p: "cleanDoubleSlash (clean_chars HTS_SAVENAME_83_LONG ''a/..'') = ''a/..''"
    "escapeReservedNames ''a/..'' hts_tbreserved = Some ''a/..''" "escapeReservedNames ''a/..'' hts_tbdev = Some ''a/..''"
    "cleanDoubleSlash (cleanEndingSpaceOrDot ''a/..'') = ''a/''" "stripLeadingSlashes (fil_simplifie ''a/'') = ''a/''" by code_simp+
  have a: "save_sanitize HTS_SAVENAME_83_LONG ''/a/..'' = Some ''a/''" by (simp add: save_sanitize_def p)
  have b: "length ''a/../con'' + 30 * (count_list ''a/../con'' SLASH + 1) < SAVE_SIZE"
    by (simp add: SAVE_SIZE_def HTS_URLMAXSIZE_def)
  show ?thesis
    using save_sanitize_safe[THEN conjunct1, THEN mp, OF a, THEN conjunct1] save_sanitize_safe[THEN conjunct2, THEN mp, OF b] ..
qed

end
