(* ===== verification/NameLimits.thy ===== *)
theory NameLimits
  imports NameClaims
begin

text \<open>
  The last stages of a local name: the hook, the extension of delayed names, the cuts and the directory
  of the mirror in front.  None of them brings a dot-dot component back, and the result fits its buffer
  with the room that the suffix of a collision needs.
\<close>

lemma comps_snoc: "SLASH \<notin> set t \<Longrightarrow> comps (s @ t) = butlast (comps s) @ [last (comps s) @ t]"
proof (rule comps_parts[of s])
  fix ss f
  assume t: "SLASH \<notin> set t"
    and s: "s = close_segs SLASH ss @ f" "\<forall>c \<in> set ss. SLASH \<notin> set c" "SLASH \<notin> set f" "comps s = ss @ [f]"
  have "comps (close_segs SLASH ss @ (f @ t)) = ss @ [f @ t]" by (rule split_on_close) (use s t in auto)
  then show ?thesis using s by simp
qed

lemma cleaned_no_dotdot: "''..'' \<notin> set (comps (cleanEndingSpaceOrDot s))"
  using cleanEndingSpaceOrDot_dots[of "''..''" s] by auto

lemma ending_loop_length: "length (ending_loop w e s) \<le> length w + length s"
proof (induction w e s rule: ending_loop.induct)
  case (2 w e c s)
  show ?case using 2[OF refl refl] by (auto simp: Let_def split: if_splits)
qed simp

lemma utf8_cut_le: "utf8_cut s n \<le> n"
  by (induction n) auto

section \<open>Stages\<close>

lemma save_hook_contained:
  assumes "hts_path_is_relative_contained n"
  shows "hts_path_is_relative_contained (save_hook hook n)"
  using assms by (simp add: save_hook_def)

lemma relative_no_dotdot:
  "hts_path_is_relative_contained n \<Longrightarrow> BACKSLASH \<notin> set n \<Longrightarrow> cstr_ok n \<Longrightarrow> ''..'' \<notin> set (comps n)"
  using contained_comps[of n] by (auto simp: hts_path_is_relative_contained_def split: if_splits)

lemma save_delayed_no_dotdot:
  assumes "save_delayed dl n = Some d" "''..'' \<notin> set (comps n)"
  shows "''..'' \<notin> set (comps d)"
proof -
  have "d = n \<or> d = n @ ''.delayed''"
    using assms(1) by (auto simp: save_delayed_def strcatbuff_def DELAYED_EXT_def split: if_splits)
  moreover have "''..'' \<notin> set (comps (n @ ''.delayed''))"
    using comps_snoc[of "''.delayed''" n] assms(2) by (auto dest: in_set_butlastD)
  ultimately show ?thesis using assms(2) by auto
qed

lemma save_limit_no_dotdot:
  assumes "save_limit path d = Some n" "''..'' \<notin> set (comps d)"
  shows "''..'' \<notin> set (comps n)"
proof -
  obtain e where e: "save_shorten path d = Some e" "n = cleanDoubleSlash (save_bytes path e)"
    using assms(1) by (auto simp: save_limit_def bind_eq_Some_conv)
  have "''..'' \<notin> set (comps e)"
    using e(1) assms(2) cleaned_no_dotdot by (auto simp: save_shorten_def Let_def bind_eq_Some_conv split: if_splits)
  then have "''..'' \<notin> set (comps (save_bytes path e))" using cleaned_no_dotdot by (auto simp: save_bytes_def Let_def)
  then show ?thesis using cleanDoubleSlash_subset e(2) by auto
qed

lemma save_limit_fits:
  assumes "save_limit path d = Some n" "length path < SAVE_SIZE - HTS_PATH_TAIL_RESERVE"
  shows "length path + length n \<le> SAVE_SIZE - HTS_PATH_TAIL_RESERVE"
proof -
  obtain e where e: "n = cleanDoubleSlash (save_bytes path e)"
    using assms(1) by (auto simp: save_limit_def bind_eq_Some_conv)
  define budget where "budget = SAVE_SIZE - HTS_PATH_TAIL_RESERVE - length path"
  have "length (save_bytes path e) \<le> budget"
    using assms(2) ending_loop_length[of "[]" 0 "take (utf8_cut e budget) e"] utf8_cut_le[of e budget]
    unfolding save_bytes_def Let_def budget_def[symmetric] cleanEndingSpaceOrDot_def by (auto simp: min_def split: if_splits)
  then have "length n \<le> budget" using double_slash_loop_shrinks[of NUL "save_bytes path e"] unfolding e cleanDoubleSlash_def by linarith
  then show ?thesis using assms(2) unfolding budget_def by linarith
qed

section \<open>Properties\<close>


lemma demo_sanitize: "save_sanitize HTS_SAVENAME_83_LONG ''b'' = Some ''b''"
proof -
  have p: "escapeReservedNames ''b'' hts_tbreserved = Some ''b''" "escapeReservedNames ''b'' hts_tbdev = Some ''b''"
    "clean_chars HTS_SAVENAME_83_LONG ''b'' = ''b''" "cleanDoubleSlash ''b'' = ''b''" "cleanDoubleSlash (cleanEndingSpaceOrDot ''b'') = ''b''"
    "stripLeadingSlashes (fil_simplifie ''b'') = ''b''" by code_simp+
  show ?thesis by (simp add: save_sanitize_def p)
qed

lemma demo_hook: "hts_path_is_relative_contained ''x/y''"
  by code_simp


section \<open>A cut can leave an absolute name\<close>

text \<open>The characters of the example are their own codes.\<close>

lemma read_demo:
  assumes "c \<in> {CHR ''.'', CHR ''x'', SLASH, CHR ''a''}"
  shows "read_unicode (c # s) = (Some (cword c), s)" and "emit_unicode (cword c) = [c]"
proof -
  have "nlz8 (NOT (of_nat (ord c))) = 0" using assms by (elim insertE emptyE) (simp_all add: nlz8_def Let_def)
  then show "read_unicode (c # s) = (Some (cword c), s)" by (simp add: read_unicode_def)
  show "emit_unicode (cword c) = [c]"
    using assms by (elim insertE emptyE) (simp_all add: emit_unicode_def cword_def wchar_def)
qed

lemma decode_demo: "set s \<subseteq> {CHR ''.'', CHR ''x'', SLASH, CHR ''a''} \<Longrightarrow> hts_convertUTF8StringToUCS4 s = map cword s"
  by (induction s) (simp_all add: hts_convertUTF8StringToUCS4.simps[of "_ # _"] hts_convertUTF8StringToUCS4.simps[of "[]"] read_demo)

lemma encode_demo: "set s \<subseteq> {CHR ''.'', CHR ''x'', SLASH, CHR ''a''} \<Longrightarrow> hts_convertUCS4StringToUTF8 (map cword s) = s"
  by (induction s) (simp_all add: hts_convertUCS4StringToUTF8_def read_demo)

lemma dirs_loop_fill:
  "length w + k + ls < mx \<Longrightarrow> n + k \<le> MAX_SEG_LEN \<Longrightarrow> u \<noteq> cword SLASH \<Longrightarrow>
     dirs_loop ls mx n w (replicate k u @ us) = dirs_loop ls mx (n + k) (w @ replicate k u) us"
  by (induction k arbitrary: n w) simp_all

lemma dirs_loop_full: "cword SLASH \<notin> set us \<Longrightarrow> dirs_loop ls mx MAX_SEG_LEN w us = w"
  by (induction us) auto

text \<open>
  A name whose first directory is \<open>k\<close> dots and an \<open>x\<close>, in a mirror with an empty directory (the default):
  the cut keeps 239 of the dots, and trimming them away leaves a slash in front.
\<close>

lemma dropWhile_fill: "P x \<Longrightarrow> \<not> P y \<Longrightarrow> dropWhile P (replicate n x @ y # ys) = y # ys"
  by (induction n) auto

lemma shorten_demo:
  assumes "MAX_SEG_LEN < k" "MAX_SEG_LEN + k < mx" "MAX_SEG_LEN \<le> n" "24 < n"
  shows "shorten_ucs4 False mx (map cword (replicate k CHR ''.'' @ CHR ''x'' # SLASH # replicate n CHR ''a'')) =
    map cword (replicate MAX_SEG_LEN CHR ''.'' @ SLASH # replicate MAX_SEG_LEN CHR ''a'')"
proof -
  define D X S A where "D = cword CHR ''.''" and "X = cword CHR ''x''" and "S = cword SLASH" and "A = cword CHR ''a''"
  have ne: "D \<noteq> S" "X \<noteq> S" "A \<noteq> S" "A \<noteq> D" "D \<noteq> 0" "X \<noteq> 0" "S \<noteq> 0" "A \<noteq> 0"
    by (simp_all add: D_def X_def S_def A_def cword_def)
  define w where "w = replicate k D @ X # S # replicate n A"
  have w: "map cword (replicate k CHR ''.'' @ CHR ''x'' # SLASH # replicate n CHR ''a'') = w"
    by (simp add: w_def D_def X_def S_def A_def)
  have "takeWhile (\<lambda>u. u \<noteq> 0) w = w" using ne by (auto simp: w_def takeWhile_eq_all_conv)
  moreover have "dropWhile (\<lambda>u. u \<noteq> S) (rev w) = S # X # replicate k D"
    using ne dropWhile_fill[of "\<lambda>u. u \<noteq> S" A S n] by (simp add: w_def)
  ultimately have l: "length (dropWhile (\<lambda>u. u \<noteq> S) (rev (takeWhile (\<lambda>u. u \<noteq> 0) w))) = k + 2" by (simp only: length_Cons length_replicate)
  have seg: "drop (k + 2) w = replicate n A" "take (k + 2 - 1) w = replicate MAX_SEG_LEN D @ (replicate (k - MAX_SEG_LEN) D @ [X])"
    using assms by (simp_all add: w_def replicate_add[symmetric] flip: append_assoc)
  have "MAX_SEG_LEN + 24 < mx" using assms(1,2) by (simp add: MAX_SEG_LEN_def)
  then have dirs: "dirs_loop 24 mx 0 [] (replicate MAX_SEG_LEN D @ (replicate (k - MAX_SEG_LEN) D @ [X])) = replicate MAX_SEG_LEN D"
    using dirs_loop_fill[of "[]" MAX_SEG_LEN 24 mx 0 D] dirs_loop_full[of "replicate (k - MAX_SEG_LEN) D @ [X]"] ne assms
    by (simp add: S_def)
  have mark: "mark_start False (replicate n A) = n"
    using ne by (simp add: mark_start_def D_def[symmetric] dropWhile_eq_Nil_conv[THEN iffD2])
  have "last_seg_cut False mx (MAX_SEG_LEN + 1) (replicate n A) = replicate MAX_SEG_LEN A"
    using assms unfolding last_seg_cut_def Let_def mark by (simp add: min_def MAX_SEG_LEN_def)
  then show ?thesis
    unfolding w shorten_ucs4_def Let_def S_def[symmetric] l seg
    using assms dirs by (simp add: MAX_LAST_SEG_RESERVE_def D_def S_def A_def)
qed

lemma strendwith_append: "strendwith a b \<longleftrightarrow> (\<exists>p. a = p @ b)"
proof
  assume "strendwith a b"
  then show "\<exists>p. a = p @ b" using append_take_drop_id[of "length a - length b" a] by (metis strendwith_def)
qed (auto simp: strendwith_def)

lemma save_limit_absolute:
  defines "d \<equiv> replicate 300 CHR ''.'' @ CHR ''x'' # SLASH # replicate 1700 CHR ''a''"
  shows "hts_path_is_relative_contained d" and "\<exists>s. save_limit [] d = Some (SLASH # s)"
proof -
  have "comps d = [replicate 300 CHR ''.'' @ ''x'', replicate 1700 CHR ''a'']"
    using split_on_append[of SLASH "replicate 300 CHR ''.'' @ ''x''" "replicate 1700 CHR ''a''"]
    by (simp add: d_def split_on_plain)
  moreover have "replicate 300 CHR ''.'' @ ''x'' \<noteq> ''..''" "replicate 1700 CHR ''a'' \<noteq> ''..''"
    by (auto dest: arg_cong[where f = length])
  moreover have "BACKSLASH \<notin> set d" "cstr_ok d" by (auto simp: d_def cstr_ok_def)
  ultimately have "hts_path_is_contained d" using contained_comps[of d] by auto
  moreover have "cbyte d 0 = CHR ''.''" by (simp add: d_def cbyte_def nth_append)
  ultimately show "hts_path_is_relative_contained d" 
    by (simp add: hts_path_is_relative_contained_def HTS_IS_PATH_SEP_def isalpha_def)
  have "MAX_SEG_LEN = 239" by (simp add: MAX_SEG_LEN_def)
  have long: "hts_stringLengthUTF8 d = 2002" by (simp add: hts_stringLengthUTF8_def d_def HTS_IS_LEADING_UTF8_def)
  have mx: "HTS_MAX_PATH_LEN = 1984" by (simp add: HTS_MAX_PATH_LEN_def SAVE_SIZE_def HTS_URLMAXSIZE_def HTS_PATH_TAIL_RESERVE_def)
  have "last d = CHR ''a''" by (simp add: d_def)
  moreover have "last d = CHR ''d''" if de: "strendwith d ''.delayed''"
  proof -
    obtain p where "d = p @ ''.delayed''" using de strendwith_append[of d "''.delayed''"] by blast
    then show ?thesis by simp
  qed
  ultimately have nd: "\<not> IS_DELAYED_EXT d" by (auto simp: IS_DELAYED_EXT_def DELAYED_EXT_def)
  define e where "e = replicate MAX_SEG_LEN CHR ''.'' @ SLASH # replicate MAX_SEG_LEN CHR ''a''"
  have "hts_convertUTF8StringToUCS4 d = map cword d" by (rule decode_demo) (auto simp: d_def)
  then have sh: "shorten_ucs4 False 1984 (hts_convertUTF8StringToUCS4 d) = map cword e"
    using shorten_demo[of 300 1984 1700] by (simp add: d_def e_def MAX_SEG_LEN_def)
  have ec: "hts_convertUCS4StringToUTF8 (map cword e) = e" by (rule encode_demo) (auto simp: e_def)
  have ez: "takeWhile (\<lambda>c. c \<noteq> NUL) e = e" by (auto simp: e_def takeWhile_eq_all_conv)
  have el: "length e < SAVE_SIZE" by (simp add: e_def MAX_SEG_LEN_def SAVE_SIZE_def HTS_URLMAXSIZE_def)
  have "save_shorten [] d = Some (cleanEndingSpaceOrDot e)"
    unfolding save_shorten_def Let_def long mx using nd sh ec el by (simp add: strcpybuff_def hts_stringLengthUTF8_def ez)
  moreover have "cleanEndingSpaceOrDot e = SLASH # trim_end (replicate MAX_SEG_LEN CHR ''a'')"
  proof -
    have "trim_end (replicate n CHR ''.'') = []" for n by (induction n) (simp_all add: trim_end_Cons)
    then show ?thesis
      using ending_loop_segs[of "[replicate MAX_SEG_LEN CHR ''.'']" "replicate MAX_SEG_LEN CHR ''a''" "[]"]
      by (simp add: cleanEndingSpaceOrDot_def e_def)
  qed
  moreover have "length (SLASH # trim_end (replicate MAX_SEG_LEN CHR ''a'')) \<le> 1984"
    using trim_end_length[of "replicate MAX_SEG_LEN CHR ''a''"] by (simp add: MAX_SEG_LEN_def)
  ultimately show "\<exists>s. save_limit [] d = Some (SLASH # s)"
    by (simp add: save_limit_def save_bytes_def SAVE_SIZE_def HTS_URLMAXSIZE_def HTS_PATH_TAIL_RESERVE_def cleanDoubleSlash_def)
qed

end
