(* ===== verification/LinkHash.thy ===== *)
theory LinkHash
  imports UrlNormClaims
begin

text \<open>
  \<open>htshash.c\<close>: the tables that find a link by its local name, by its URL and by the URL it had before a
  redirect, and the tables that shorten the search of a free local name.  The tables are those of the
  \<open>coucal\<close> library, whose sources are a submodule: its operations are arguments, gathered in \<open>coucal\<close>, and so
  is its hash of strings.
\<close>

section \<open>The library of tables\<close>

text \<open>Operations on tables \<open>'t\<close> with keys \<open>'k\<close> and hashes \<open>'h\<close>; a table is used with its two handlers.\<close>

record ('k, 't, 'h) coucal =
  coucal_new :: 't
  coucal_read :: "('k \<Rightarrow> 'h) \<Rightarrow> ('k \<Rightarrow> 'k \<Rightarrow> bool) \<Rightarrow> 't \<Rightarrow> 'k \<Rightarrow> int option"
  coucal_write :: "('k \<Rightarrow> 'h) \<Rightarrow> ('k \<Rightarrow> 'k \<Rightarrow> bool) \<Rightarrow> 't \<Rightarrow> 'k \<Rightarrow> int \<Rightarrow> 't"

text \<open>The tables of URLs and those of strings, \<open>coucal_hash_string\<close>, and the text \<open>%x.%x\<close> of a hash.\<close>

record ('t, 's, 'h) hash_env =
  urls :: "(cstring \<times> cstring, 't, 'h option) coucal"
  strs :: "(cstring, 's, 'h) coucal"
  coucal_hash_string :: "cstring \<Rightarrow> 'h"
  hash_print :: "'h \<Rightarrow> cstring"

section \<open>Links and tables\<close>

record hash_link =
  h_adr :: cstring
  h_fil :: cstring
  h_former :: "(cstring \<times> cstring) option"
  h_sav :: cstring

record ('t, 's) hash_struct =
  liens :: "hash_link list"
  sav :: 's
  adrfil :: 't
  former_adrfil :: 't
  savename_next :: 's
  savename_owner :: 's
  norm_host :: bool
  norm_slash :: bool
  norm_query :: bool
  strip_query :: "cstring option"
  host_alias :: "cstring option"

text \<open>The options that \<open>hash_init\<close> reads, the rules being \<open>NULL\<close> when they are empty.\<close>

record hash_opt =
  no_www_dedup :: bool
  no_slash_dedup :: bool
  no_query_dedup :: bool
  opt_strip_query :: cstring
  opt_host_alias :: "cstring option"

definition hash_init :: "('t, 's, 'h) hash_env \<Rightarrow> hash_opt \<Rightarrow> bool \<Rightarrow> ('t, 's) hash_struct" where
  "hash_init env opt normalized =
     \<lparr>liens = [], sav = coucal_new (strs env), adrfil = coucal_new (urls env), former_adrfil = coucal_new (urls env),
      savename_next = coucal_new (strs env), savename_owner = coucal_new (strs env),
      norm_host = (normalized \<and> \<not> no_www_dedup opt), norm_slash = (normalized \<and> \<not> no_slash_dedup opt),
      norm_query = (normalized \<and> \<not> no_query_dedup opt),
      strip_query = (if opt_strip_query opt \<noteq> [] then Some (opt_strip_query opt) else None),
      host_alias = opt_host_alias opt\<rparr>"

section \<open>Keys\<close>

definition key_host_alias :: "bool \<Rightarrow> ('t, 's) hash_struct \<Rightarrow> cstring \<Rightarrow> cstring" where
  "key_host_alias calloc_ok hash ad =
     (case hts_host_alias calloc_ok (host_alias hash) ad (norm_host hash) (HTS_URLMAXSIZE * 2) of
        Some canon \<Rightarrow> canon | None \<Rightarrow> ad)"

definition key_host :: "('t, 's) hash_struct \<Rightarrow> cstring \<Rightarrow> cstring" where
  "key_host hash canon = (if norm_host hash then jump_normalized canon else jump_identification canon)"

definition key_strip :: "bool \<Rightarrow> ('t, 's) hash_struct \<Rightarrow> cstring \<Rightarrow> cstring \<Rightarrow> cstring option" where
  "key_strip calloc_ok hash canon fl = hts_query_strip_keys calloc_ok (strip_query hash) canon fl HTS_URLMAXSIZE"

text \<open>The text that is hashed; \<open>None\<close> is the abort of the normalizer.\<close>

definition hash_url_key :: "bool \<Rightarrow> ('t, 's) hash_struct \<Rightarrow> cstring \<Rightarrow> cstring \<Rightarrow> nat \<Rightarrow> cstring option" where
  "hash_url_key calloc_ok hash ad fl dstsize =
     (let canon = key_host_alias calloc_ok hash ad;
          dst = strclipbuff dstsize (key_host hash canon);
          keys = key_strip calloc_ok hash canon fl;
          avail = dstsize - length dst
      in if (norm_slash hash \<or> norm_query hash \<or> keys \<noteq> None) \<and> length fl < avail \<and> length fl < HTS_URLMAXSIZE * 2
         then map_option ((@) dst) (fil_normalized_filtered_ex fl keys (norm_slash hash) (norm_query hash))
         else Some (dst @ strclipbuff avail fl))"

definition key_adrfil_equals :: "bool \<Rightarrow> ('t, 's) hash_struct \<Rightarrow> cstring \<times> cstring \<Rightarrow> cstring \<times> cstring \<Rightarrow> bool option" where
  "key_adrfil_equals calloc_ok hash a b =
     (let a_canon = key_host_alias calloc_ok hash (fst a); b_canon = key_host_alias calloc_ok hash (fst b) in
      if \<not> strcaseeq (key_host hash a_canon) (key_host hash b_canon) then Some False
      else
        let keysa = key_strip calloc_ok hash a_canon (snd a); keysb = key_strip calloc_ok hash b_canon (snd b) in
        if norm_slash hash \<or> norm_query hash \<or> keysa \<noteq> None \<or> keysb \<noteq> None then
          (case (fil_normalized_filtered_ex (snd a) keysa (norm_slash hash) (norm_query hash),
                 fil_normalized_filtered_ex (snd b) keysb (norm_slash hash) (norm_query hash)) of
             (Some na, Some nb) \<Rightarrow> Some (na = nb) | _ \<Rightarrow> None)
        else Some (snd a = snd b))"

definition hash_url_equals :: "('t, 's, 'h) hash_env \<Rightarrow> bool \<Rightarrow> hash_opt \<Rightarrow> bool \<Rightarrow> cstring \<times> cstring \<Rightarrow> cstring \<times> cstring \<Rightarrow> bool option" where
  "hash_url_equals env calloc_ok opt urlhack a b = key_adrfil_equals calloc_ok (hash_init env opt urlhack) a b"

text \<open>The handlers of the URL tables; the buffer of the hash has four times \<open>HTS_URLMAXSIZE\<close> bytes.\<close>

definition adrfil_hash :: "('t, 's, 'h) hash_env \<Rightarrow> bool \<Rightarrow> ('t, 's) hash_struct \<Rightarrow> cstring \<times> cstring \<Rightarrow> 'h option" where
  "adrfil_hash env calloc_ok hash a =
     map_option (coucal_hash_string env) (hash_url_key calloc_ok hash (fst a) (snd a) (HTS_URLMAXSIZE * 4))"

definition adrfil_equals :: "bool \<Rightarrow> ('t, 's) hash_struct \<Rightarrow> cstring \<times> cstring \<Rightarrow> cstring \<times> cstring \<Rightarrow> bool" where
  "adrfil_equals calloc_ok hash a b \<longleftrightarrow> key_adrfil_equals calloc_ok hash a b = Some True"

text \<open>The handlers of the table of local names, which are compared without letter case.\<close>

definition key_sav_hashes :: "('t, 's, 'h) hash_env \<Rightarrow> cstring \<Rightarrow> 'h" where
  "key_sav_hashes env k = coucal_hash_string env (hts_lowcase k)"

definition key_sav_equals :: "cstring \<Rightarrow> cstring \<Rightarrow> bool" where
  "key_sav_equals a b \<longleftrightarrow> strcaseeq a b"

section \<open>Reading and writing\<close>

definition hash_read_sav :: "('t, 's, 'h) hash_env \<Rightarrow> ('t, 's) hash_struct \<Rightarrow> cstring \<Rightarrow> int" where
  "hash_read_sav env hash nom1 =
     (case coucal_read (strs env) (key_sav_hashes env) key_sav_equals (sav hash) nom1 of Some v \<Rightarrow> v | None \<Rightarrow> -1)"

definition hash_read_adrfil :: "('t, 's, 'h) hash_env \<Rightarrow> bool \<Rightarrow> ('t, 's) hash_struct \<Rightarrow> cstring \<Rightarrow> cstring \<Rightarrow> int" where
  "hash_read_adrfil env calloc_ok hash nom1 nom2 =
     (case coucal_read (urls env) (adrfil_hash env calloc_ok hash) (adrfil_equals calloc_ok hash) (adrfil hash) (nom1, nom2) of
        Some v \<Rightarrow> v | None \<Rightarrow> -1)"

definition hash_read_former :: "('t, 's, 'h) hash_env \<Rightarrow> bool \<Rightarrow> ('t, 's) hash_struct \<Rightarrow> cstring \<Rightarrow> cstring \<Rightarrow> int" where
  "hash_read_former env calloc_ok hash nom1 nom2 =
     (case coucal_read (urls env) (adrfil_hash env calloc_ok hash) (adrfil_equals calloc_ok hash) (former_adrfil hash) (nom1, nom2) of
        Some v \<Rightarrow> v | None \<Rightarrow> -1)"

text \<open>The fingerprint of a link: the hashes of its lowered host and of its path, printed.\<close>

definition savename_owner_key :: "('t, 's, 'h) hash_env \<Rightarrow> cstring \<Rightarrow> cstring \<Rightarrow> cstring" where
  "savename_owner_key env ad fl =
     hash_print env (coucal_hash_string env (hts_lowcase (take (HTS_URLMAXSIZE * 2 - 1) ad))) @ ''.'' @
     hash_print env (coucal_hash_string env fl)"

text \<open>The two tables that shorten the search have the default handlers: string hash and equality.\<close>

definition hash_savename_owner :: "('t, 's, 'h) hash_env \<Rightarrow> ('t, 's) hash_struct \<Rightarrow> cstring \<Rightarrow> cstring \<Rightarrow> int" where
  "hash_savename_owner env hash ad fl =
     (case coucal_read (strs env) (coucal_hash_string env) (=) (savename_owner hash) (savename_owner_key env ad fl) of
        Some v \<Rightarrow> v | None \<Rightarrow> -1)"

definition savename_next_key :: "char \<Rightarrow> cstring \<Rightarrow> cstring" where
  "savename_next_key kind name = hts_lowcase (kind # take (HTS_URLMAXSIZE * 2) name)"

definition hash_savename_next :: "('t, 's, 'h) hash_env \<Rightarrow> ('t, 's) hash_struct \<Rightarrow> char \<Rightarrow> cstring \<Rightarrow> int" where
  "hash_savename_next env hash kind name =
     (case coucal_read (strs env) (coucal_hash_string env) (=) (savename_next hash) (savename_next_key kind name) of
        Some v \<Rightarrow> v | None \<Rightarrow> 0)"

definition hash_savename_next_set :: "('t, 's, 'h) hash_env \<Rightarrow> ('t, 's) hash_struct \<Rightarrow> char \<Rightarrow> cstring \<Rightarrow> int \<Rightarrow> ('t, 's) hash_struct" where
  "hash_savename_next_set env hash kind name n =
     hash\<lparr>savename_next := coucal_write (strs env) (coucal_hash_string env) (=) (savename_next hash) (savename_next_key kind name) n\<rparr>"

definition hash_write :: "('t, 's, 'h) hash_env \<Rightarrow> bool \<Rightarrow> ('t, 's) hash_struct \<Rightarrow> nat \<Rightarrow> ('t, 's) hash_struct" where
  "hash_write env calloc_ok hash lpos =
     (let link = liens hash ! lpos; pos = int lpos;
          k = savename_owner_key env (h_adr link) (h_fil link);
          put = (\<lambda>hash v. hash\<lparr>savename_owner := coucal_write (strs env) (coucal_hash_string env) (=) (savename_owner hash) k v\<rparr>);
          hash = (case coucal_read (strs env) (coucal_hash_string env) (=) (savename_owner hash) k of
                    None \<Rightarrow> put hash pos
                  | Some prev \<Rightarrow>
                      if prev \<ge> 0 \<and> \<not> strcaseeq (h_sav (liens hash ! nat prev)) (h_sav link) then put hash (-2) else hash);
          hash = hash\<lparr>sav := coucal_write (strs env) (key_sav_hashes env) key_sav_equals (sav hash) (h_sav link) pos\<rparr>;
          hash = hash\<lparr>adrfil := coucal_write (urls env) (adrfil_hash env calloc_ok hash) (adrfil_equals calloc_ok hash)
                                (adrfil hash) (h_adr link, h_fil link) pos\<rparr>
      in case h_former link of
           None \<Rightarrow> hash
         | Some former \<Rightarrow> hash\<lparr>former_adrfil := coucal_write (urls env) (adrfil_hash env calloc_ok hash) (adrfil_equals calloc_ok hash)
                                  (former_adrfil hash) former pos\<rparr>)"

end
