(* ===== verification/LinkHashClaims.thy ===== *)
theory LinkHashClaims
  imports LinkHash
begin

text \<open>
  The link tables of \<open>LinkHash\<close>: the law that a table with handlers needs (keys that compare equal have the
  same hash), the keys for which the handlers obey it, and what the reads return after any number of links
  have been recorded.
\<close>

section \<open>Tables whose handlers obey the law\<close>

locale key_table =
  fixes valid :: "'k \<Rightarrow> bool" and hash :: "'k \<Rightarrow> 'h" and equals :: "'k \<Rightarrow> 'k \<Rightarrow> bool"
  assumes equals_refl: "valid k \<Longrightarrow> equals k k"
    and equals_sym: "\<lbrakk>valid k; valid l; equals k l\<rbrakk> \<Longrightarrow> equals l k"
    and equals_trans: "\<lbrakk>valid k; valid l; valid m; equals k l; equals l m\<rbrakk> \<Longrightarrow> equals k m"
    and equals_hash: "\<lbrakk>valid k; valid l; equals k l\<rbrakk> \<Longrightarrow> hash k = hash l"
begin

lemma equals_hash_iff: "\<lbrakk>valid k; valid l\<rbrakk> \<Longrightarrow> hash k = hash l \<and> equals k l \<longleftrightarrow> equals k l"
  using equals_hash by blast

lemma equals_left: "\<lbrakk>valid k; valid l; valid m; equals k l\<rbrakk> \<Longrightarrow> equals k m \<longleftrightarrow> equals l m"
  using equals_sym equals_trans by meson

end

text \<open>A table after the writes of a list, in order, and the value that it should give for a key.\<close>

definition coucal_contents :: "('k, 't, 'h) coucal \<Rightarrow> ('k \<Rightarrow> 'h) \<Rightarrow> ('k \<Rightarrow> 'k \<Rightarrow> bool) \<Rightarrow> ('k \<times> int) list \<Rightarrow> 't" where
  "coucal_contents C hash equals kvs = foldl (\<lambda>t (k, v). coucal_write C hash equals t k v) (coucal_new C) kvs"

definition last_value :: "('k \<Rightarrow> 'k \<Rightarrow> bool) \<Rightarrow> ('k \<times> int) list \<Rightarrow> 'k \<Rightarrow> int option" where
  "last_value equals kvs l = map_option snd (find (\<lambda>(k, v). equals k l) (rev kvs))"

text \<open>What the program relies on: with handlers that obey the law, a key has the value last written for it.\<close>

definition coucal_ok :: "('k, 't, 'h) coucal \<Rightarrow> bool" where
  "coucal_ok C \<longleftrightarrow>
     (\<forall>valid hash equals kvs l. key_table valid hash equals \<and> list_all (\<lambda>e. valid (fst e)) kvs \<and> valid l \<longrightarrow>
        coucal_read C hash equals (coucal_contents C hash equals kvs) l = last_value equals kvs l)"

lemma coucal_contents_simps [simp]:
  "coucal_contents C hash equals [] = coucal_new C"
  "coucal_contents C hash equals (kvs @ [(k, v)]) = coucal_write C hash equals (coucal_contents C hash equals kvs) k v"
  by (simp_all add: coucal_contents_def)

lemma last_value_simps [simp]:
  "last_value equals [] l = None"
  "last_value equals (kvs @ [(k, v)]) l = (if equals k l then Some v else last_value equals kvs l)"
  by (simp_all add: last_value_def)

context key_table
begin

lemma read_contents:
  "\<lbrakk>coucal_ok C; list_all (\<lambda>e. valid (fst e)) kvs; valid l\<rbrakk> \<Longrightarrow>
    coucal_read C hash equals (coucal_contents C hash equals kvs) l = last_value equals kvs l"
  unfolding coucal_ok_def using key_table_axioms by blast

end

text \<open>The law can hold: association lists obey it.\<close>

definition list_coucal :: "('k, ('k \<times> int) list, 'h) coucal" where
  "list_coucal =
     \<lparr>coucal_new = [],
      coucal_read = (\<lambda>hash equals t k. map_option snd (find (\<lambda>(k', v). hash k' = hash k \<and> equals k' k) t)),
      coucal_write = (\<lambda>hash equals t k v. (k, v) # t)\<rparr>"

lemma list_coucal_ok: "coucal_ok list_coucal"
proof (unfold coucal_ok_def, intro allI impI, elim conjE)
  fix valid :: "'k \<Rightarrow> bool" and hash :: "'k \<Rightarrow> 'h" and equals kvs l
  assume l: "valid l" and "key_table valid hash equals"
  note iff = key_table.equals_hash_iff[OF this(2)]
  show "list_all (\<lambda>e. valid (fst e)) kvs \<Longrightarrow>
      coucal_read list_coucal hash equals (coucal_contents list_coucal hash equals kvs) l = last_value equals kvs l"
    using l by (induction kvs rule: rev_induct) (auto simp: list_coucal_def iff)
qed

section \<open>Keys of URLs\<close>

lemma field_text_lengths: "sum_list (map (\<lambda>f. Suc (length (field_text f))) (query_fields (Some q))) = Suc (length q)"
proof -
  have "sum_list (map (\<lambda>t. Suc (length t)) (split_on CHR ''&'' q)) = Suc (length q)"
    by (induction q) (auto split: list.splits)
  then show ?thesis using query_fields_split[of q] by (metis (no_types, lifting) map_map comp_apply list.map_cong0)
qed

lemma emit_kept_length: "length (emit_kept stripped wrote fs) \<le> sum_list (map (\<lambda>f. Suc (length (field_text f))) fs)"
  by (induction stripped wrote fs rule: emit_kept.induct) auto

lemma filtered_defined:
  assumes "length f < HTS_URLMAXSIZE * 2"
  obtains d where "fil_normalized_filtered_ex f strip ds dq = Some d"
proof (rule url_parts_cases[of f])
  fix p assume "f = p" "CHR ''?'' \<notin> set p"
  then show thesis using that by (cases strip) (simp_all add: fil_normalized_filtered_ex_def strchr_free)
next
  fix p q assume f: "f = p @ CHR ''?'' # q" "CHR ''?'' \<notin> set p"
  have "length (p @ emit_kept st False (query_fields (Some q))) < HTS_URLMAXSIZE * 2" for st
    using emit_kept_length[of st False "query_fields (Some q)"] field_text_lengths[of q] assms f by auto
  then have "\<not> HTS_URLMAXSIZE * 2 \<le> length (p @ emit_kept st False (query_fields (Some q)))" for st by (simp add: not_le)
  then have "fil_normalized_filtered_ex f strip ds dq \<noteq> None"
    using f by (cases strip) (simp_all add: fil_normalized_filtered_ex_def strchr_free)
  then show thesis using that by blast
qed

lemma normalized_plain: "fil_normalized_filtered_ex f None False False = Some f"
proof -
  have "slash_loop False g c s = s" for g c s by (induction s arbitrary: g c) auto
  then show ?thesis by (auto simp: fil_normalized_filtered_ex_def fil_normalized_ex_def split: option.splits)
qed

text \<open>The two halves of a key.\<close>

definition url_host_key :: "bool \<Rightarrow> ('t, 's) hash_struct \<Rightarrow> cstring \<times> cstring \<Rightarrow> cstring" where
  "url_host_key calloc_ok hash u = key_host hash (key_host_alias calloc_ok hash (fst u))"

definition url_path_key :: "bool \<Rightarrow> ('t, 's) hash_struct \<Rightarrow> cstring \<times> cstring \<Rightarrow> cstring" where
  "url_path_key calloc_ok hash u =
     the (fil_normalized_filtered_ex (snd u) (key_strip calloc_ok hash (key_host_alias calloc_ok hash (fst u)) (snd u))
       (norm_slash hash) (norm_query hash))"

text \<open>A URL that the engine can record: it fits its buffers, and its host, once aliased, is in lower case.\<close>

definition url_key_ok :: "bool \<Rightarrow> ('t, 's) hash_struct \<Rightarrow> cstring \<times> cstring \<Rightarrow> bool" where
  "url_key_ok calloc_ok hash u \<longleftrightarrow>
     length (snd u) < HTS_URLMAXSIZE * 2 \<and> length (url_host_key calloc_ok hash u) < HTS_URLMAXSIZE * 2 \<and>
     hts_lowcase (url_host_key calloc_ok hash u) = url_host_key calloc_ok hash u"

text \<open>One URL, as the tables see it.\<close>

definition same_url :: "bool \<Rightarrow> ('t, 's) hash_struct \<Rightarrow> cstring \<times> cstring \<Rightarrow> cstring \<times> cstring \<Rightarrow> bool" where
  "same_url calloc_ok hash u v \<longleftrightarrow>
     strcaseeq (url_host_key calloc_ok hash u) (url_host_key calloc_ok hash v) \<and> url_path_key calloc_ok hash u = url_path_key calloc_ok hash v"

lemma adrfil_equals_iff:
  assumes "url_key_ok calloc_ok hash u" "url_key_ok calloc_ok hash v"
  shows "adrfil_equals calloc_ok hash u v \<longleftrightarrow> same_url calloc_ok hash u v"
proof -
  define ka where "ka w = key_strip calloc_ok hash (key_host_alias calloc_ok hash (fst w)) (snd w)" for w
  obtain a b where ab: "fil_normalized_filtered_ex (snd u) (ka u) (norm_slash hash) (norm_query hash) = Some a"
    "fil_normalized_filtered_ex (snd v) (ka v) (norm_slash hash) (norm_query hash) = Some b"
    using assms filtered_defined unfolding url_key_ok_def by metis
  show ?thesis
    using ab normalized_plain[of "snd u"] normalized_plain[of "snd v"]
    by (auto simp: adrfil_equals_def key_adrfil_equals_def same_url_def url_host_key_def url_path_key_def Let_def ka_def)
qed

lemma hash_url_key_ok:
  assumes "url_key_ok calloc_ok hash u"
  shows "hash_url_key calloc_ok hash (fst u) (snd u) (HTS_URLMAXSIZE * 4) =
    Some (url_host_key calloc_ok hash u @ url_path_key calloc_ok hash u)"
proof -
  define keys where "keys = key_strip calloc_ok hash (key_host_alias calloc_ok hash (fst u)) (snd u)"
  obtain d where d: "fil_normalized_filtered_ex (snd u) keys (norm_slash hash) (norm_query hash) = Some d"
    using assms filtered_defined unfolding url_key_ok_def by metis
  have clip: "strclipbuff (HTS_URLMAXSIZE * 4) (url_host_key calloc_ok hash u) = url_host_key calloc_ok hash u"
    "strclipbuff (HTS_URLMAXSIZE * 4 - length (url_host_key calloc_ok hash u)) (snd u) = snd u"
    "length (snd u) < HTS_URLMAXSIZE * 4 - length (url_host_key calloc_ok hash u)" "length (snd u) < HTS_URLMAXSIZE * 2"
    using assms by (auto simp: url_key_ok_def strclipbuff_def)
  show ?thesis
    using d clip normalized_plain[of "snd u"] unfolding hash_url_key_def Let_def
    by (auto simp: url_host_key_def[symmetric] url_path_key_def keys_def)
qed

text \<open>The interface, for the handlers of the three kinds of tables.\<close>

interpretation url_table: key_table "url_key_ok calloc_ok hash" "adrfil_hash env calloc_ok hash" "adrfil_equals calloc_ok hash"
  for calloc_ok hash env
proof unfold_locales
  fix u v assume ok: "url_key_ok calloc_ok hash u" "url_key_ok calloc_ok hash v" and "adrfil_equals calloc_ok hash u v"
  then have "same_url calloc_ok hash u v" by (simp add: adrfil_equals_iff)
  then have "url_host_key calloc_ok hash u = url_host_key calloc_ok hash v" "url_path_key calloc_ok hash u = url_path_key calloc_ok hash v"
    using ok by (auto simp: same_url_def url_key_ok_def strcaseeq_def hts_lowcase_def)
  then show "adrfil_hash env calloc_ok hash u = adrfil_hash env calloc_ok hash v"
    using ok by (simp add: adrfil_hash_def hash_url_key_ok)
qed (auto simp: adrfil_equals_iff same_url_def strcaseeq_def)

interpretation sav_table: key_table "\<lambda>_. True" "key_sav_hashes env" key_sav_equals for env
  by unfold_locales (auto simp: key_sav_equals_def key_sav_hashes_def strcaseeq_def hts_lowcase_def)

interpretation string_table: key_table "\<lambda>_. True" "coucal_hash_string env" "(=)" for env
  by unfold_locales auto

section \<open>Recording links\<close>

fun record_links :: "('t, 's, 'h) hash_env \<Rightarrow> bool \<Rightarrow> ('t, 's) hash_struct \<Rightarrow> nat \<Rightarrow> ('t, 's) hash_struct" where
  "record_links env calloc_ok hash 0 = hash"
| "record_links env calloc_ok hash (Suc n) = hash_write env calloc_ok (record_links env calloc_ok hash n) n"

text \<open>The last link below \<open>n\<close> that satisfies \<open>P\<close>, or -1.\<close>

fun last_link :: "(nat \<Rightarrow> bool) \<Rightarrow> nat \<Rightarrow> int" where
  "last_link P 0 = -1"
| "last_link P (Suc n) = (if P n then int n else last_link P n)"

lemma last_link_cong: "(\<And>i. i < n \<Longrightarrow> P i = Q i) \<Longrightarrow> last_link P n = last_link Q n"
  by (induction n) auto

definition hash_options :: "('t, 's) hash_struct \<Rightarrow> hash_link list \<times> bool \<times> bool \<times> bool \<times> cstring option \<times> cstring option" where
  "hash_options h = (liens h, norm_host h, norm_slash h, norm_query h, LinkHash.strip_query h, host_alias h)"

lemma options_keys:
  assumes "hash_options g = hash_options h"
  shows "url_host_key calloc_ok g = url_host_key calloc_ok h" "url_path_key calloc_ok g = url_path_key calloc_ok h"
    "hash_url_key calloc_ok g = hash_url_key calloc_ok h" "key_adrfil_equals calloc_ok g = key_adrfil_equals calloc_ok h"
    "url_key_ok calloc_ok g = url_key_ok calloc_ok h" "same_url calloc_ok g = same_url calloc_ok h"
    "adrfil_hash env calloc_ok g = adrfil_hash env calloc_ok h" "adrfil_equals calloc_ok g = adrfil_equals calloc_ok h"
proof -
  have keys: "key_host_alias calloc_ok g = key_host_alias calloc_ok h" "key_host g = key_host h" "key_strip calloc_ok g = key_strip calloc_ok h"
    "norm_slash g = norm_slash h" "norm_query g = norm_query h"
    using assms by (auto simp: fun_eq_iff hash_options_def key_host_alias_def key_host_def key_strip_def)
  show *: "url_host_key calloc_ok g = url_host_key calloc_ok h" "url_path_key calloc_ok g = url_path_key calloc_ok h"
    "hash_url_key calloc_ok g = hash_url_key calloc_ok h" "key_adrfil_equals calloc_ok g = key_adrfil_equals calloc_ok h"
    by (intro ext, simp only: url_host_key_def url_path_key_def hash_url_key_def key_adrfil_equals_def keys)+
  then show "url_key_ok calloc_ok g = url_key_ok calloc_ok h" "same_url calloc_ok g = same_url calloc_ok h"
    "adrfil_hash env calloc_ok g = adrfil_hash env calloc_ok h" "adrfil_equals calloc_ok g = adrfil_equals calloc_ok h"
    by (simp_all add: fun_eq_iff url_key_ok_def same_url_def adrfil_hash_def adrfil_equals_def)
qed

lemma options_updates [simp]:
  "hash_options (h\<lparr>savename_owner := x\<rparr>) = hash_options h" "hash_options (h\<lparr>savename_next := x\<rparr>) = hash_options h"
  "hash_options (h\<lparr>sav := x\<rparr>) = hash_options h" "hash_options (h\<lparr>adrfil := y\<rparr>) = hash_options h"
  "hash_options (h\<lparr>former_adrfil := y\<rparr>) = hash_options h"
  by (simp_all add: hash_options_def)

lemma hash_write_tables:
  fixes env calloc_ok h
  defines "put \<equiv> coucal_write (urls env) (adrfil_hash env calloc_ok h) (adrfil_equals calloc_ok h)"
  shows "hash_options (hash_write env calloc_ok h n) = hash_options h"
    "savename_next (hash_write env calloc_ok h n) = savename_next h"
    "sav (hash_write env calloc_ok h n) =
       coucal_write (strs env) (key_sav_hashes env) key_sav_equals (sav h) (h_sav (liens h ! n)) (int n)"
    "adrfil (hash_write env calloc_ok h n) = put (adrfil h) (h_adr (liens h ! n), h_fil (liens h ! n)) (int n)"
    "former_adrfil (hash_write env calloc_ok h n) =
       (case h_former (liens h ! n) of None \<Rightarrow> former_adrfil h | Some u \<Rightarrow> put (former_adrfil h) u (int n))"
proof -
  note keys [simp] = options_keys(7,8)[OF options_updates(1)] options_keys(7,8)[OF options_updates(3)] options_keys(7,8)[OF options_updates(4)]
  show "hash_options (hash_write env calloc_ok h n) = hash_options h"
    "savename_next (hash_write env calloc_ok h n) = savename_next h"
    "sav (hash_write env calloc_ok h n) =
       coucal_write (strs env) (key_sav_hashes env) key_sav_equals (sav h) (h_sav (liens h ! n)) (int n)"
    "adrfil (hash_write env calloc_ok h n) = put (adrfil h) (h_adr (liens h ! n), h_fil (liens h ! n)) (int n)"
    "former_adrfil (hash_write env calloc_ok h n) =
       (case h_former (liens h ! n) of None \<Rightarrow> former_adrfil h | Some u \<Rightarrow> put (former_adrfil h) u (int n))"
    by (auto simp: hash_write_def Let_def put_def split: option.splits)
qed

text \<open>What the tables hold, when the crawl has recorded its first \<open>n\<close> links.\<close>

definition sav_entries :: "hash_link list \<Rightarrow> nat \<Rightarrow> (cstring \<times> int) list" where
  "sav_entries ls n = map (\<lambda>i. (h_sav (ls ! i), int i)) [0..<n]"

definition url_entries :: "hash_link list \<Rightarrow> nat \<Rightarrow> ((cstring \<times> cstring) \<times> int) list" where
  "url_entries ls n = map (\<lambda>i. ((h_adr (ls ! i), h_fil (ls ! i)), int i)) [0..<n]"

definition former_entries :: "hash_link list \<Rightarrow> nat \<Rightarrow> ((cstring \<times> cstring) \<times> int) list" where
  "former_entries ls n = concat (map (\<lambda>i. case h_former (ls ! i) of None \<Rightarrow> [] | Some u \<Rightarrow> [(u, int i)]) [0..<n])"

lemma record_links_options: "hash_options (record_links env calloc_ok h n) = hash_options h"
  by (induction n) (simp_all add: hash_write_tables)

lemma record_links_liens [simp]: "liens (record_links env calloc_ok h n) = liens h"
  using record_links_options[of env calloc_ok h n] by (simp add: hash_options_def)

lemma record_links_contents:
  assumes "sav h = coucal_new (strs env)" "adrfil h = coucal_new (urls env)" "former_adrfil h = coucal_new (urls env)"
  shows "sav (record_links env calloc_ok h n) = coucal_contents (strs env) (key_sav_hashes env) key_sav_equals (sav_entries (liens h) n)"
    and "adrfil (record_links env calloc_ok h n) =
      coucal_contents (urls env) (adrfil_hash env calloc_ok h) (adrfil_equals calloc_ok h) (url_entries (liens h) n)"
    and "former_adrfil (record_links env calloc_ok h n) =
      coucal_contents (urls env) (adrfil_hash env calloc_ok h) (adrfil_equals calloc_ok h) (former_entries (liens h) n)"
proof (induction n)
  case 0
  show "sav (record_links env calloc_ok h 0) = coucal_contents (strs env) (key_sav_hashes env) key_sav_equals (sav_entries (liens h) 0)"
    "adrfil (record_links env calloc_ok h 0) =
      coucal_contents (urls env) (adrfil_hash env calloc_ok h) (adrfil_equals calloc_ok h) (url_entries (liens h) 0)"
    "former_adrfil (record_links env calloc_ok h 0) =
      coucal_contents (urls env) (adrfil_hash env calloc_ok h) (adrfil_equals calloc_ok h) (former_entries (liens h) 0)"
    by (simp_all add: assms sav_entries_def url_entries_def former_entries_def)
next
  case (Suc n)
  note opts = options_keys(7,8)[OF record_links_options]
  show "sav (record_links env calloc_ok h (Suc n)) = coucal_contents (strs env) (key_sav_hashes env) key_sav_equals (sav_entries (liens h) (Suc n))"
    "adrfil (record_links env calloc_ok h (Suc n)) =
      coucal_contents (urls env) (adrfil_hash env calloc_ok h) (adrfil_equals calloc_ok h) (url_entries (liens h) (Suc n))"
    "former_adrfil (record_links env calloc_ok h (Suc n)) =
      coucal_contents (urls env) (adrfil_hash env calloc_ok h) (adrfil_equals calloc_ok h) (former_entries (liens h) (Suc n))"
    using Suc by (auto simp: hash_write_tables opts sav_entries_def url_entries_def former_entries_def split: option.splits)
qed

text \<open>A number read, -1 when there is none.\<close>

definition found :: "int option \<Rightarrow> int" where
  "found r = (case r of Some v \<Rightarrow> v | None \<Rightarrow> -1)"

lemma last_value_entries:
  "found (last_value equals (sav_entries ls n) nom) = last_link (\<lambda>i. equals (h_sav (ls ! i)) nom) n"
  "found (last_value eq (url_entries ls n) u) = last_link (\<lambda>i. eq (h_adr (ls ! i), h_fil (ls ! i)) u) n"
  "found (last_value eq (former_entries ls n) u) =
    last_link (\<lambda>i. case h_former (ls ! i) of None \<Rightarrow> False | Some v \<Rightarrow> eq v u) n"
  by (induction n) (auto simp: found_def sav_entries_def url_entries_def former_entries_def split: option.splits)

lemma hash_read_sav_contents:
  assumes "coucal_ok (strs env)" "sav h = coucal_contents (strs env) (key_sav_hashes env) key_sav_equals (sav_entries ls n)"
  shows "hash_read_sav env h nom = last_link (\<lambda>i. strcaseeq (h_sav (ls ! i)) nom) n"
  using sav_table.read_contents[where env = env, OF assms(1), of "sav_entries ls n" nom] assms(2)
    last_value_entries(1)[of key_sav_equals ls n nom]
  by (simp add: hash_read_sav_def found_def key_sav_equals_def list_all_iff)

text \<open>Links all of whose URLs the tables can key.\<close>

definition links_ok :: "bool \<Rightarrow> ('t, 's) hash_struct \<Rightarrow> bool" where
  "links_ok calloc_ok hash \<longleftrightarrow>
     list_all (\<lambda>l. url_key_ok calloc_ok hash (h_adr l, h_fil l) \<and> (case h_former l of None \<Rightarrow> True | Some u \<Rightarrow> url_key_ok calloc_ok hash u))
       (liens hash)"

lemma links_ok_nth:
  assumes "links_ok calloc_ok h" "n < length (liens h)"
  shows "url_key_ok calloc_ok h (h_adr (liens h ! n), h_fil (liens h ! n))"
    "h_former (liens h ! n) = Some v \<Longrightarrow> url_key_ok calloc_ok h v"
proof -
  have "liens h ! n \<in> set (liens h)" using assms(2) by simp
  then have "url_key_ok calloc_ok h (h_adr (liens h ! n), h_fil (liens h ! n)) \<and>
    (case h_former (liens h ! n) of None \<Rightarrow> True | Some u \<Rightarrow> url_key_ok calloc_ok h u)"
    using assms(1) unfolding links_ok_def list_all_iff by (rule bspec[rotated])
  then show "url_key_ok calloc_ok h (h_adr (liens h ! n), h_fil (liens h ! n))"
    "h_former (liens h ! n) = Some v \<Longrightarrow> url_key_ok calloc_ok h v"
    by (cases "h_former (liens h ! n)", simp_all)+
qed

lemma entries_ok:
  assumes "links_ok calloc_ok h" "n \<le> length (liens h)"
  shows "list_all (\<lambda>e. url_key_ok calloc_ok h (fst e)) (url_entries (liens h) n)"
    "list_all (\<lambda>e. url_key_ok calloc_ok h (fst e)) (former_entries (liens h) n)"
proof -
  show "list_all (\<lambda>e. url_key_ok calloc_ok h (fst e)) (url_entries (liens h) n)"
    using links_ok_nth(1)[OF assms(1)] assms(2) by (auto simp: url_entries_def list_all_iff)
  have "h_former (liens h ! i) = Some u \<Longrightarrow> i < n \<Longrightarrow> url_key_ok calloc_ok h u" for i u
    using links_ok_nth(2)[OF assms(1), of i u] assms(2) by simp
  then show "list_all (\<lambda>e. url_key_ok calloc_ok h (fst e)) (former_entries (liens h) n)"
    unfolding former_entries_def list_all_iff by (auto simp del: split_paired_All split: option.splits)
qed

section \<open>What the tables answer\<close>

text \<open>The tables of a crawl that starts with \<open>ls\<close>, all of them recorded.\<close>

definition crawl_tables :: "('t, 's, 'h) hash_env \<Rightarrow> bool \<Rightarrow> hash_opt \<Rightarrow> bool \<Rightarrow> hash_link list \<Rightarrow> ('t, 's) hash_struct" where
  "crawl_tables env calloc_ok opt urlhack ls = record_links env calloc_ok ((hash_init env opt urlhack)\<lparr>liens := ls\<rparr>) (length ls)"


text \<open>A case-sensitive hash, over association lists.\<close>

definition demo_env :: "(((cstring \<times> cstring) \<times> int) list, (cstring \<times> int) list, cstring) hash_env" where
  "demo_env = \<lparr>urls = list_coucal, strs = list_coucal, coucal_hash_string = (\<lambda>s. s), hash_print = (\<lambda>h. h)\<rparr>"


text \<open>
  The condition on the case of hosts cannot be dropped.  The rule \<open>x=A\<close> of a host alias is accepted, and makes
  the link \<open>x\<close> one with the link \<open>a\<close> for the comparison; but the text hashed keeps the capital, so the entry is
  not found under a hash function that tells the two texts apart.
\<close>

lemma hash_key_case:
  defines "h \<equiv> hash_init demo_env \<lparr>no_www_dedup = True, no_slash_dedup = True, no_query_dedup = True, opt_strip_query = [], opt_host_alias = Some ''x=A''\<rparr> True"
  shows "hts_host_alias_rule_ok ''x=A'' \<and> adrfil_equals True h (''x'', ''/'') (''a'', ''/'') \<and>
    adrfil_hash demo_env True h (''x'', ''/'') \<noteq> adrfil_hash demo_env True h (''a'', ''/'')"
proof -
  have flags: "norm_host h = False" "norm_slash h = False" "norm_query h = False" "host_alias h = Some ''x=A''" "LinkHash.strip_query h = None"
    by (simp_all add: h_def hash_init_def)
  have parts: "hts_spans LF ''x=A'' = [''x=A'']" "hts_spans CHR '','' ''x'' = [''x'']" "hts_span_trim ''x'' BLANKS (BLANKS @ ''/'') = ''x''"
    "hts_span_trim ''A'' BLANKS (BLANKS @ ''/'') = ''A''" "hts_host_alias_split ''x=A'' = Some (''x'', ''A'')"
    "jump_protocol ''x'' = ''x''" "jump_protocol ''a'' = ''a''" "jump_protocol ''A'' = ''A''"
    "jump_identification ''x'' = ''x''" "jump_identification ''a'' = ''a''" "jump_identification ''A'' = ''A''" "\<not> strcaseeq ''A'' ''x''"
    by code_simp+
  have j: "fst (strjoker True [c] ''x'' None None) = (if c = CHR ''x'' then Some [c] else None)" if "c \<in> {CHR ''x'', CHR ''a'', CHR ''A''}" for c
    using that by (auto simp: strjoker_fst joker_eval)
  have hit: "alias_hit True [c] full False ''x'' \<longleftrightarrow> c = CHR ''x''" if "c \<in> {CHR ''x'', CHR ''a'', CHR ''A''}" for c full
    using parts(3,6) j[OF that] by (simp add: alias_hit_def hts_span_copy_def HTS_URLMAXSIZE_def)
  have m: "hts_host_alias_match True (Some ''x=A'') [c] full False = (if c = CHR ''x'' then Some ''A'' else None)"
    if "c \<in> {CHR ''x'', CHR ''a'', CHR ''A''}" for c full
    using parts hit[OF that] by (simp add: hts_host_alias_match_def hts_span_of_def alias_line_def)
  have r: "hts_host_alias_resolve True (Some ''x=A'') ''x'' False (HTS_URLMAXSIZE * 2) = (Some ''A'', True)"
    "hts_host_alias_resolve True (Some ''x=A'') ''a'' False (HTS_URLMAXSIZE * 2) = (None, True)"
    by (simp_all add: hts_host_alias_resolve_def parts m hts_span_of_def hts_host_alias_subject_def HTS_URLMAXSIZE_def SCHEMEBUF_def
      HTS_HOST_ALIAS_MAXHOPS_def numeral_eq_Suc alias_scheme_def alias_dest_def)
  have k: "key_host_alias True h ''x'' = ''A''" "key_host_alias True h ''a'' = ''a''" "key_strip True h c f = None" for c f
    using r flags by (simp_all add: key_host_alias_def hts_host_alias_def key_strip_def hts_query_strip_keys_def)
  have "hts_host_alias_rule_ok ''x=A''" by code_simp
  moreover have "adrfil_equals True h (''x'', ''/'') (''a'', ''/'')"
    using k flags parts by (simp add: adrfil_equals_def key_adrfil_equals_def key_host_def strcaseeq_def lowchar_def)
  moreover have "adrfil_hash demo_env True h (''x'', ''/'') = Some ''A/''" "adrfil_hash demo_env True h (''a'', ''/'') = Some ''a/''"
    using k flags parts by (simp_all add: demo_env_def adrfil_hash_def hash_url_key_def key_host_def strclipbuff_def HTS_URLMAXSIZE_def)
  ultimately show ?thesis by simp
qed

end
