(* ===== verification/Spec2Isabelle.thy ===== *)
theory Spec2Isabelle
  imports FilterClaims Lines RobotsClaims Cmdline EscapeClaims UrlClaims UrlNormClaims UrlPort CookieClaims
    LinkClaims WizardClaims WizardDecision ProxyClaims Md5Claims NameLimits LinkHashClaims
begin

text \<open>
  A verification library for HTTrack, the offline browser (engine sources in \<open>src/src\<close>).

  \<^bold>\<open>The program.\<close>  HTTrack copies web sites.  A crawl loop (\<open>htscore.c\<close>) takes links from a heap, a
  scheduler (\<open>htsback.c\<close>) fetches them, a parser (\<open>htsparse.c\<close>) extracts and rewrites links, a wizard
  (\<open>htswizard.c\<close>) decides which are followed, and a naming module (\<open>htsname.c\<close>) gives each a local
  file.  Most of these parts live on sockets, files and one option record of hundreds of fields.  What
  they decide, they decide by calling smaller components that work on strings and tables.  The
  development models those components, function by function, and the wizard, which puts several of
  them together.

  \<^bold>\<open>Strings.\<close>  A C string is the list of its characters before the NUL, a span \<open>(ptr, len)\<close> the list of
  its bytes, a pointer into a string the suffix it designates, and \<open>cbyte s i\<close> the byte read at offset
  \<open>i\<close> (NUL at the end of the string).  A bounded buffer is the text it holds with its capacity as a
  parameter, and the abort of a bounded copy (\<open>htssafe.h\<close>) is the value \<open>None\<close>.

  \<^bold>\<open>Theories and sources.\<close>
  \<^item> \<open>Prelude\<close>: characters as numbers, C string access, suffixes, splitting on a separator.
  \<^item> \<open>CStrings\<close>: \<open>htsbase.h\<close>, \<open>htslib.h\<close>, \<open>htssafe.h\<close>, \<open>htsencoding.h\<close>: case-insensitive comparison,
    character classes, trimming, hexadecimal digits.
  \<^item> \<open>Filters\<close>, \<open>FilterMemo\<close>, \<open>FilterRefine\<close>, \<open>FilterProps\<close>, \<open>FilterClaims\<close>: \<open>htsfilters.c\<close>, the wildcard
    engine: a backtracking matcher whose state (step budget, depth, memo bit table) is the record
    \<open>joker_state\<close>.  \<open>FilterMemo\<close> has the reference matcher \<open>joker_match\<close>, \<open>FilterRefine\<close> the refinement of it by
    the budgeted and memoised one, \<open>FilterProps\<close> its frame properties, \<open>FilterClaims\<close> the results:
    the memo never changes an answer, the work is bounded, the last rule that matches decides.
  \<^item> \<open>Lines\<close>: \<open>htslines.c\<close>: line readers with continuation and comments.
  \<^item> \<open>Robots\<close>, \<open>RobotsMatch\<close>, \<open>RobotsRules\<close>, \<open>RobotsParse\<close>, \<open>RobotsClaims\<close>: \<open>htsrobots.c\<close>: the parser of
    robots.txt, its matcher (a Knuth-Morris-Pratt search per piece) and the store of rules per host.
    \<open>RobotsMatch\<close> shows the search leftmost and the matcher equal to the RFC 9309 relation,
    \<open>RobotsRules\<close> the store's laws (locale \<open>host_store\<close>, interpretation \<open>robots\<close>), \<open>RobotsParse\<close> a group
    machine that the parser simulates.
  \<^item> \<open>Cmdline\<close>: \<open>htscmdline.c\<close>: splitting and quoting of argument lists.
  \<^item> \<open>Escape\<close>, \<open>EscapeClaims\<close>: \<open>htsescape.c\<close> and the escaping part of \<open>htslib.c\<close>: percent, form and
    base64 codecs (locale \<open>byte_codec\<close>, interpretations \<open>percent\<close> and \<open>form\<close>), query fields, content ids.
  \<^item> \<open>UrlPort\<close>: \<open>htsurlport.c\<close>: numbers, ports and header parameters.
  \<^item> \<open>Url\<close>, \<open>UrlClaims\<close>: the URL splitter and the dot-segment remover of \<open>htslib.c\<close>, compared with a stack
    of path segments.
  \<^item> \<open>UrlNorm\<close>, \<open>UrlNormClaims\<close>: normalization of URLs, stripped query keys and host aliases.
  \<^item> \<open>Utf8\<close>: the UTF-8 coder of \<open>htscharset.c\<close>.  \<open>Dates\<close>: \<open>htsdate.c\<close>.  \<open>Psl\<close>: \<open>htspsl.c\<close>.
  \<^item> \<open>Cookies\<close>, \<open>CookieClaims\<close>: \<open>htsbauth.c\<close>: the cookie jar (one string of tab-separated records) with its
    sharing quota, and the list of logins; operations as a step relation whose reachable jars keep the
    jar invariant.
  \<^item> \<open>LinkTools\<close>, \<open>LinkClaims\<close>: \<open>htstools.c\<close>: relative links between two paths, links of a page resolved
    against its address, 8-3 names.  Building a relative link and resolving it are shown inverse, and
    the inputs on which the buffer of the builder overflows are characterised.
  \<^item> \<open>Mime\<close>: the types of files (\<open>htslib.c\<close>, \<open>htslib.h\<close>, \<open>htsconcat.c\<close>), with the tables of the source.
  \<^item> \<open>Wizard\<close>: \<open>htswizard.c\<close> whole, and the filter array of \<open>htscore.c\<close>: the record \<open>httrackp\<close> has the options
    and the link heap the wizard reads, \<open>wiz_env\<close> what it calls outside (link table, front end, callbacks,
    memory).  \<open>phase1_refused\<close> to \<open>phase4\<close> are the phases of \<open>hts_acceptlink_\<close>.
  \<^item> \<open>Proxy\<close>, \<open>ProxyClaims\<close>: \<open>htsproxy.c\<close>: the CONNECT tunnel and the SOCKS5 client, over a socket that is
    the list of what its calls will meet (data, stalls, the end, errors).  \<open>ProxyClaims\<close> reads the frames
    off a successful handshake, and shows that it does not depend on how the network cuts them.
  \<^item> \<open>LinkHash\<close>, \<open>LinkHashClaims\<close>: \<open>htshash.c\<close>: the tables of links and local names.  The \<open>coucal\<close> library is an
    argument; the law that its tables need of their handlers is the locale \<open>key_table\<close>, interpreted for the
    handlers of the source (\<open>url_table\<close>, \<open>sav_table\<close>, \<open>string_table\<close>), and lookups after any links are recorded
    are characterised.
  \<^item> \<open>NameSafe\<close>, \<open>NameClaims\<close>, \<open>NameLimits\<close>: the end of \<open>url_savename\<close> (\<open>htsname.c\<close>): what is done to a local name
    once it is built.  It is safe whatever it was made of, and stays below the directory of the mirror.
  \<^item> \<open>Md5\<close>, \<open>Md5Claims\<close>: \<open>md5.c\<close>, \<open>htsmd5.c\<close>: the digest, equal to the one of RFC 1321 however it is fed.
  \<^item> \<open>Crawl\<close>, \<open>WizardClaims\<close>, \<open>WizardDecision\<close>: how accepted links enter the heap, as a step relation; a
    mirror with the default options never leaves the directories of its start URLs, the phases compute
    one list of rules, and robots.txt has the last word where the options say so.

  \<^bold>\<open>Fuel and bounds.\<close>  Buffers have the sizes of the source.  The filter engine carries its own budgets.

  \<^bold>\<open>Not modelled.\<close>  The scheduler (\<open>htsback.c\<close>), the crawl loop (\<open>htscore.c\<close>, \<open>htscoremain.c\<close>), the page parser
  (\<open>htsparse.c\<close>) and the HTTP transport (\<open>htslib.c\<close>) interleave system calls with one state of some hundred
  fields: no part of them returns a value that does not depend on sockets, files or the clock, but for the
  helpers that are modelled above.  The cache, WARC, FTP and single-file writers are input and output over
  zlib and files.  The first half of \<open>url_savename\<close>, which makes a name of a URL, reads the cache, the headers
  of the transfer under way and a user template.  Left out too: vendored code (minizip), generated tables
  (entities, code pages, public suffixes), the front ends and the self tests.
\<close>

end
